(* ===== verification/Prelude.thy ===== *)
theory Prelude
  imports Main "HOL-Library.Word" "HOL-Library.List_Lexorder" "HOL-Library.Char_ord"
    "HOL-Library.Multiset"
begin

text \<open>
  What every component shares: bytes and Go strings, Go errors as values, the result type of a
  function that returns \<^verbatim>\<open>(T, error)\<close>, its sequencing \<open>rbind\<close>, the loop
  \<^verbatim>\<open>for _, x := range xs { if err := f(x); err != nil { return err } }\<close> as \<open>rfold\<close>,
  and the collections that carry the automation of the component theories.
\<close>

subsection \<open>Bytes and strings\<close>

text \<open>
  A Go \<^verbatim>\<open>[]byte\<close> is a list of 8-bit words and a Go \<^verbatim>\<open>string\<close> is a list of
  characters, which in Isabelle are bytes. \<open>string_of_bytes\<close> is the conversion
  \<^verbatim>\<open>string(b)\<close>. Both are compared lexicographically by unsigned byte, as
  \<^verbatim>\<open>bytes.Compare\<close> and \<^verbatim>\<open><\<close> on strings do: this is the order of
  \<open>HOL-Library.List_Lexorder\<close> on lists.
\<close>

type_synonym byte = "8 word"
type_synonym bytes = "8 word list"
type_synonym uint64 = "64 word"

definition char_of_byte :: "byte \<Rightarrow> char" where
  "char_of_byte b = char_of (unat b)"

definition byte_of_char :: "char \<Rightarrow> byte" where
  "byte_of_char c = of_nat (of_char c)"

definition string_of_bytes :: "bytes \<Rightarrow> string" where
  "string_of_bytes = map char_of_byte"

definition bytes_of_string :: "string \<Rightarrow> bytes" where
  "bytes_of_string = map byte_of_char"

lemma byte_of_char_of_byte [simp]: "byte_of_char (char_of_byte b) = b"
proof -
  have "unat b < 256" using unsigned_less[of b, where 'a = nat] by simp
  then show ?thesis by (simp add: byte_of_char_def char_of_byte_def)
qed

lemma char_of_byte_of_char [simp]: "char_of_byte (byte_of_char c) = c"
proof -
  have "of_char c < (256::nat)" by simp
  then have "unat (of_nat (of_char c) :: byte) = of_char c"
    by (simp add: unat_of_nat take_bit_nat_eq_self)
  then show ?thesis by (simp add: byte_of_char_def char_of_byte_def)
qed

lemma bytes_of_string_of_bytes [simp]: "bytes_of_string (string_of_bytes bs) = bs"
  by (simp add: bytes_of_string_def string_of_bytes_def comp_def)

lemma string_of_bytes_of_string [simp]: "string_of_bytes (bytes_of_string s) = s"
  by (simp add: bytes_of_string_def string_of_bytes_def comp_def)

lemma string_of_bytes_inject [simp]: "string_of_bytes a = string_of_bytes b \<longleftrightarrow> a = b"
  by (metis bytes_of_string_of_bytes)

lemma length_string_of_bytes [simp]: "length (string_of_bytes bs) = length bs"
  by (simp add: string_of_bytes_def)

lemma length_bytes_of_string [simp]: "length (bytes_of_string s) = length s"
  by (simp add: bytes_of_string_def)

lemma unat_of_nat64: "n < 2 ^ 64 \<Longrightarrow> unat (of_nat n :: uint64) = n"
  by (simp add: unsigned_of_nat take_bit_nat_eq_self)

subsection \<open>Errors and results\<close>

text \<open>
  A Go error is the text of \<^verbatim>\<open>errors.New\<close> or \<^verbatim>\<open>fmt.Errorf\<close> with its
  string arguments (\<open>New\<close>), a wrapped error (\<open>Wrap\<close>, from \<^verbatim>\<open>%w\<close>), a join
  (\<open>Joined\<close>), one of the sentinels the code and the standard library return, or an error that
  comes from outside the program (\<open>Ext\<close>: the operating system, the database, a library).
\<close>

datatype go_error =
    EOF
  | UnexpectedEOF
  | Overflow
  | ErrHelp
  | New string "string list"
  | Wrap "string list" go_error
  | Joined "go_error list"
  | Ext string

type_synonym 'a res = "go_error + 'a"

text \<open>\<^verbatim>\<open>errors.Join\<close> of two possibly nil errors: nil when both are nil.\<close>

fun errors_Join :: "go_error option \<Rightarrow> go_error option \<Rightarrow> go_error option" where
  "errors_Join None None = None"
| "errors_Join (Some a) None = Some (Joined [a])"
| "errors_Join None (Some b) = Some (Joined [b])"
| "errors_Join (Some a) (Some b) = Some (Joined [a, b])"

text \<open>\<^verbatim>\<open>errors.Is(err, target)\<close> for a sentinel target: through wraps and joins.\<close>

fun errors_Is :: "go_error \<Rightarrow> go_error \<Rightarrow> bool" where
  "errors_Is (Wrap c e) t = (Wrap c e = t \<or> errors_Is e t)"
| "errors_Is (Joined es) t = (Joined es = t \<or> (\<exists>e \<in> set es. errors_Is e t))"
| "errors_Is e t = (e = t)"

fun rbind :: "'a res \<Rightarrow> ('a \<Rightarrow> 'b res) \<Rightarrow> 'b res" where
  "rbind (Inl e) f = Inl e"
| "rbind (Inr x) f = f x"

text \<open>\<^verbatim>\<open>if err != nil { return fmt.Errorf("...: %w", err) }\<close>\<close>

fun wrapped :: "string list \<Rightarrow> 'a res \<Rightarrow> 'a res" where
  "wrapped c (Inl e) = Inl (Wrap c e)"
| "wrapped c (Inr x) = Inr x"

lemma rbind_cong [fundef_cong]:
  "r = r' \<Longrightarrow> (\<And>x. r' = Inr x \<Longrightarrow> f x = g x) \<Longrightarrow> rbind r f = rbind r' g"
  by (cases r') auto

lemma rbind_Inr [simp]: "rbind r f = Inr y \<longleftrightarrow> (\<exists>x. r = Inr x \<and> f x = Inr y)"
  by (cases r) auto

lemma rbind_Inl: "rbind r f = Inl e \<longleftrightarrow> r = Inl e \<or> (\<exists>x. r = Inr x \<and> f x = Inl e)"
  by (cases r) auto

lemma wrapped_Inr [simp]: "wrapped c r = Inr x \<longleftrightarrow> r = Inr x"
  by (cases r) auto

lemma wrapped_Inl: "wrapped c r = Inl e \<longleftrightarrow> (\<exists>e'. r = Inl e' \<and> e = Wrap c e')"
  by (cases r) auto

lemma rbind_assoc: "rbind (rbind r f) g = rbind r (\<lambda>x. rbind (f x) g)"
  by (cases r) auto

lemma not_Inl_iff: "(\<forall>e. r \<noteq> Inl e) \<longleftrightarrow> (\<exists>x. r = Inr x)"
  by (cases r) auto

lemma if_Inl_Inr [simp]:
  "(if b then Inl e else r) = Inr x \<longleftrightarrow> \<not> b \<and> r = Inr x"
  "(if b then r else Inl e) = Inr x \<longleftrightarrow> b \<and> r = Inr x"
  by auto

text \<open>When a branching function succeeds: one disjunct per branch.\<close>

lemma case_sum_Inr [simp]:
  "(case r of Inl e \<Rightarrow> f e | Inr x \<Rightarrow> g x) = Inr y \<longleftrightarrow>
     (\<exists>e. r = Inl e \<and> f e = Inr y) \<or> (\<exists>x. r = Inr x \<and> g x = Inr y)"
  by (cases r) auto

lemma case_option_Inr [simp]:
  "(case m of None \<Rightarrow> a | Some x \<Rightarrow> f x) = Inr y \<longleftrightarrow>
     (m = None \<and> a = Inr y) \<or> (\<exists>x. m = Some x \<and> f x = Inr y)"
  by (cases m) auto

lemma case_list_Inr [simp]:
  "(case xs of [] \<Rightarrow> a | x # ys \<Rightarrow> f x ys) = Inr y \<longleftrightarrow>
     (xs = [] \<and> a = Inr y) \<or> (\<exists>x ys. xs = x # ys \<and> f x ys = Inr y)"
  by (cases xs) auto

subsection \<open>Loops that stop at the first error\<close>

fun rfold :: "('x \<Rightarrow> 's \<Rightarrow> 's res) \<Rightarrow> 'x list \<Rightarrow> 's \<Rightarrow> 's res" where
  "rfold f [] s = Inr s"
| "rfold f (x # xs) s = rbind (f x s) (rfold f xs)"

lemma rfold_cong [fundef_cong]:
  "xs = ys \<Longrightarrow> s = t \<Longrightarrow> (\<And>x s. x \<in> set ys \<Longrightarrow> f x s = g x s) \<Longrightarrow> rfold f xs s = rfold g ys t"
proof (induction xs arbitrary: ys s t)
  case Nil
  then show ?case by auto
next
  case (Cons x xs)
  have "rfold f xs = rfold g xs"
  proof
    fix u show "rfold f xs u = rfold g xs u"
      by (rule Cons.IH) (use Cons.prems in auto)
  qed
  with Cons.prems show ?case by (cases "g x t") auto
qed

lemma rfold_append: "rfold f (xs @ ys) s = rbind (rfold f xs s) (rfold f ys)"
proof (induction xs arbitrary: s)
  case (Cons x xs)
  then show ?case by (cases "f x s") auto
qed simp

lemma rfold_invariant:
  assumes "rfold f xs s = Inr s'" "P s"
    and "\<And>x s t. x \<in> set xs \<Longrightarrow> P s \<Longrightarrow> f x s = Inr t \<Longrightarrow> P t"
  shows "P s'"
  using assms
proof (induction xs arbitrary: s)
  case (Cons x xs)
  then obtain u where "f x s = Inr u" "rfold f xs u = Inr s'" by auto
  with Cons.prems Cons.IH[of u] show ?case by (metis list.set_intros)
qed simp

text \<open>The invariant of a loop that also mentions the elements already visited.\<close>

lemma rfold_induct:
  assumes run: "rfold f xs s = Inr s'" and init: "P [] s"
    and step: "\<And>pre x post s t. xs = pre @ x # post \<Longrightarrow> P pre s \<Longrightarrow> f x s = Inr t \<Longrightarrow> P (pre @ [x]) t"
  shows "P xs s'"
proof -
  have "P pre t \<Longrightarrow> rfold f post t = Inr s' \<Longrightarrow> xs = pre @ post \<Longrightarrow> P xs s'" for pre post t
  proof (induction post arbitrary: pre t)
    case Nil
    then show ?case by simp
  next
    case (Cons x post)
    then obtain u where "f x t = Inr u" "rfold f post u = Inr s'" by auto
    with Cons step[of pre x post t u] show ?case by (auto intro: Cons.IH[of "pre @ [x]" u])
  qed
  from this[of "[]" s xs] run init show ?thesis by simp
qed

text \<open>Loops that only check: the state is unit.\<close>

definition check_all :: "('x \<Rightarrow> unit res) \<Rightarrow> 'x list \<Rightarrow> unit res" where
  "check_all f xs = rfold (\<lambda>x _. f x) xs ()"

lemma check_all_simps [simp]:
  "check_all f [] = Inr ()"
  "check_all f (x # xs) = rbind (f x) (\<lambda>_. check_all f xs)"
  by (auto simp: check_all_def)

lemma check_all_Inr [simp]: "check_all f xs = Inr u \<longleftrightarrow> (\<forall>x \<in> set xs. f x = Inr ())"
  by (induction xs) auto

text \<open>Loops that transform each element, or fail at the first that cannot be.\<close>

fun rmap :: "('a \<Rightarrow> 'b res) \<Rightarrow> 'a list \<Rightarrow> 'b list res" where
  "rmap f [] = Inr []"
| "rmap f (x # xs) = rbind (f x) (\<lambda>y. rbind (rmap f xs) (\<lambda>ys. Inr (y # ys)))"

lemma rmap_cong [fundef_cong]:
  "xs = ys \<Longrightarrow> (\<And>x. x \<in> set ys \<Longrightarrow> f x = g x) \<Longrightarrow> rmap f xs = rmap g ys"
proof (induction xs arbitrary: ys)
  case (Cons x xs)
  have "rmap f xs = rmap g xs" by (rule Cons.IH) (use Cons.prems in auto)
  with Cons.prems show ?case by auto
qed simp

lemma rmap_Inr: "rmap f xs = Inr ys \<longleftrightarrow> list_all2 (\<lambda>x y. f x = Inr y) xs ys"
  by (induction xs arbitrary: ys) (auto simp: list_all2_Cons1)

lemma rmap_length: "rmap f xs = Inr ys \<Longrightarrow> length ys = length xs"
  by (auto simp: rmap_Inr dest: list_all2_lengthD)

subsection \<open>Sorted lists of keys\<close>

lemma sorted_wrt_less_distinct:
  fixes xs :: "'a::order list"
  shows "sorted_wrt (<) xs \<Longrightarrow> distinct xs"
  by (induction xs) auto

lemma map_of_map_Some: "distinct (map f xs) \<Longrightarrow> x \<in> set xs \<Longrightarrow> map_of (map (\<lambda>x. (f x, g x)) xs) (f x) = Some (g x)"
  by (rule map_of_is_SomeI) (auto simp: comp_def)

named_theorems codec_simps \<open>characteristic equations of the byte-level decoders\<close>
named_theorems progress \<open>a successful decoding step consumes input and stays inside it\<close>
named_theorems file_simps \<open>characteristic equations of the file-system operations\<close>
named_theorems policy_simps \<open>characteristic equations of the policy operations\<close>
named_theorems sql_simps \<open>effects of the statements the importer issues\<close>

end
