(* ===== verification/Varint.thy ===== *)
theory Varint
  imports Prelude
begin

text \<open>
  The part of Go's \<^verbatim>\<open>encoding/binary\<close> that the snapshot reader calls:
  \<open>Uvarint\<close> on a byte slice, \<open>ReadUvarint\<close> on a byte reader, the writer's
  \<open>AppendUvarint\<close> (used by the fixtures of \<^verbatim>\<open>snapshot_test.go\<close>) and
  \<open>BigEndian.Uint64\<close>. The lemmas show that both readers return what the writer wrote, that
  they agree with each other on every input, and how far they read.
\<close>

unbundle bit_operations_syntax

subsection \<open>Uvarint\<close>

definition MaxVarintLen64 :: nat where
  "MaxVarintLen64 = 10"

text \<open>
  The loop of \<^verbatim>\<open>binary.Uvarint\<close>: the second result is the number of bytes read,
  \<open>0\<close> for a short buffer, negative on overflow.
\<close>

fun uvarint_loop :: "bytes \<Rightarrow> nat \<Rightarrow> uint64 \<Rightarrow> nat \<Rightarrow> uint64 \<times> int" where
  "uvarint_loop [] i x s = (0, 0)"
| "uvarint_loop (b # buf) i x s =
     (if i = MaxVarintLen64 then (0, - (int i + 1))
      else if b < 0x80 then
        (if i = MaxVarintLen64 - 1 \<and> b > 1 then (0, - (int i + 1))
         else (x OR push_bit s (ucast b), int i + 1))
      else uvarint_loop buf (i + 1) (x OR push_bit s (ucast (b AND 0x7f))) (s + 7))"

definition Uvarint :: "bytes \<Rightarrow> uint64 \<times> int" where
  "Uvarint buf = uvarint_loop buf 0 0 0"

subsection \<open>Byte readers\<close>

text \<open>
  A \<^verbatim>\<open>bufio.Reader\<close> over a file: the bytes not yet read and the error the underlying
  file gives after them (\<open>EOF\<close> unless the read fails).
\<close>

record reader =
  remaining :: bytes
  at_end :: go_error

fun ReadByte :: "reader \<Rightarrow> (byte \<times> reader) res" where
  "ReadByte r = (case remaining r of [] \<Rightarrow> Inl (at_end r) | b # bs \<Rightarrow> Inr (b, r\<lparr>remaining := bs\<rparr>))"

text \<open>
  The loop of \<^verbatim>\<open>binary.ReadUvarint\<close>, with the number of iterations left as its
  structural argument; \<open>i\<close> counts up as in the source.
\<close>

fun read_uvarint_loop :: "nat \<Rightarrow> reader \<Rightarrow> nat \<Rightarrow> uint64 \<Rightarrow> nat \<Rightarrow> (uint64 \<times> reader) res" where
  "read_uvarint_loop 0 r i x s = Inl Overflow"
| "read_uvarint_loop (Suc n) r i x s =
     (case ReadByte r of
        Inl e \<Rightarrow> Inl (if i > 0 \<and> e = EOF then UnexpectedEOF else e)
      | Inr (b, r') \<Rightarrow>
          if b < 0x80 then
            (if i = MaxVarintLen64 - 1 \<and> b > 1 then Inl Overflow
             else Inr (x OR push_bit s (ucast b), r'))
          else read_uvarint_loop n r' (i + 1) (x OR push_bit s (ucast (b AND 0x7f))) (s + 7))"

definition ReadUvarint :: "reader \<Rightarrow> (uint64 \<times> reader) res" where
  "ReadUvarint r = read_uvarint_loop MaxVarintLen64 r 0 0 0"

subsection \<open>AppendUvarint\<close>

lemma unat_drop_bit_less: "(x::uint64) \<ge> 0x80 \<Longrightarrow> unat (drop_bit 7 x) < unat x"
  by (simp add: drop_bit_eq_div unat_div_distrib word_le_nat_alt)

function AppendUvarint :: "bytes \<Rightarrow> uint64 \<Rightarrow> bytes" where
  "AppendUvarint buf x =
     (if x \<ge> 0x80 then AppendUvarint (buf @ [ucast x OR 0x80]) (drop_bit 7 x)
      else buf @ [ucast x])"
  by pat_completeness auto
termination
  by (relation "measure (\<lambda>(buf, x). unat x)") (auto simp: unat_drop_bit_less)

declare AppendUvarint.simps [simp del]

definition uvarint_bytes :: "uint64 \<Rightarrow> bytes" where
  "uvarint_bytes x = AppendUvarint [] x"

lemma AppendUvarint_append: "AppendUvarint buf x = buf @ uvarint_bytes x"
proof -
  have "AppendUvarint (pre @ buf) x = pre @ AppendUvarint buf x" for pre buf x
  proof (induction buf x rule: AppendUvarint.induct)
    case (1 buf x)
    then show ?case
      by (simp add: AppendUvarint.simps [of "pre @ buf" x] AppendUvarint.simps [of buf x])
  qed
  from this [of buf "[]" x] show ?thesis by (simp add: uvarint_bytes_def)
qed

lemma uvarint_bytes_simps:
  "uvarint_bytes x =
     (if x \<ge> 0x80 then (ucast x OR 0x80) # uvarint_bytes (drop_bit 7 x) else [ucast x])"
  unfolding uvarint_bytes_def
  by (subst AppendUvarint.simps) (simp add: AppendUvarint_append [of "[_]"] uvarint_bytes_def)

lemma uvarint_bytes_nonempty [simp]: "uvarint_bytes x \<noteq> []"
  by (subst uvarint_bytes_simps) simp

subsection \<open>One group of seven bits\<close>

lemma bit_127: "bit (0x7f :: byte) n \<longleftrightarrow> n < 7"
proof -
  have "(0x7f :: byte) = mask 7" by (simp add: mask_eq_exp_minus_1)
  then have "bit (0x7f :: byte) n = bit (mask 7 :: byte) n" by (rule arg_cong)
  then show ?thesis by (auto simp: bit_mask_iff)
qed

lemma bit_128: "bit (0x80 :: byte) n \<longleftrightarrow> n = 7"
proof -
  have "(0x80 :: byte) = 2 ^ 7" by simp
  then have "bit (0x80 :: byte) n = bit (2 ^ 7 :: byte) n" by (rule arg_cong)
  then show ?thesis by (simp only: bit_exp_iff) auto
qed

lemma low_group:
  "(ucast ((ucast (y::uint64) OR 0x80 :: byte) AND 0x7f) :: uint64) = take_bit 7 y"
  by (rule bit_word_eqI) (auto simp: bit_ucast_iff bit_and_iff bit_or_iff bit_127 bit_128 bit_take_bit_iff
      simp del: bit_numeral_word_iff)

lemma groups_join:
  "(x OR push_bit s (take_bit 7 (y::uint64))) OR push_bit (s + 7) (drop_bit 7 y) = x OR push_bit s y"
proof -
  have "push_bit s (take_bit 7 y) OR push_bit (s + 7) (drop_bit 7 y) = push_bit s y"
  proof (rule bit_word_eqI)
    fix n
    show "bit (push_bit s (take_bit 7 y) OR push_bit (s + 7) (drop_bit 7 y)) n = bit (push_bit s y) n"
      by (cases "n - s < 7") (auto simp add: bit_simps le_diff_conv2 add.commute)
  qed
  then show ?thesis by (simp add: or.assoc)
qed

lemma continuation_byte: "\<not> (ucast (y::uint64) OR 0x80 :: byte) < 0x80"
  using le_word_or1 [of "0x80 :: byte" "ucast y"] by (simp add: not_less)

lemma small_ucast: "(y::uint64) < 0x80 \<Longrightarrow> ucast (ucast y :: byte) = y"
  by (rule word_unat_eq_iff [THEN iffD2]) (simp add: unsigned_ucast_eq unsigned_take_bit_eq word_less_nat_alt take_bit_nat_eq_self)

lemma small_ucast_less: "(y::uint64) < 0x80 \<Longrightarrow> (ucast y :: byte) < 0x80"
  by (simp add: word_less_nat_alt unsigned_ucast_eq take_bit_nat_eq_self)

lemma ucast_gt_one: "(y::uint64) < 2 \<Longrightarrow> \<not> (ucast y :: byte) > 1"
  by (simp add: word_less_nat_alt unsigned_ucast_eq take_bit_nat_eq_self)

subsection \<open>Reading what was written\<close>

lemma uvarint_induct:
  assumes "\<And>y. (0x80 \<le> y \<Longrightarrow> P (drop_bit 7 y)) \<Longrightarrow> P y"
  shows "P (y :: uint64)"
  using assms by (induction y rule: measure_induct_rule [of unat]) (auto simp: unat_drop_bit_less)

text \<open>
  At group \<open>i\<close> the value still to be written fits in the bits that are left, so the
  tenth byte is at most 1 and the overflow exits are never taken.
\<close>

lemma group_fits:
  assumes "i \<le> 9" "unat y < 2 ^ (64 - 7 * i)" "0x80 \<le> (y::uint64)"
  shows "i \<le> 8" "unat (drop_bit 7 y) < 2 ^ (64 - 7 * Suc i)"
proof -
  have ge: "128 \<le> unat y" using assms(3) by (simp add: word_le_nat_alt)
  show i: "i \<le> 8"
  proof (rule ccontr)
    assume "\<not> i \<le> 8"
    with assms(1) have "i = 9" by simp
    with assms(2) ge show False by simp
  qed
  have "(2::nat) ^ (64 - 7 * i) = 2 ^ (64 - 7 * Suc i) * 128"
  proof -
    from i have "64 - 7 * i = (64 - 7 * Suc i) + 7" by simp
    then show ?thesis by (simp only: power_add) simp
  qed
  with assms(2) show "unat (drop_bit 7 y) < 2 ^ (64 - 7 * Suc i)"
    by (simp add: drop_bit_eq_div unat_div_distrib less_mult_imp_div_less)
qed

lemma uvarint_loop_bytes:
  "i \<le> 9 \<Longrightarrow> unat y < 2 ^ (64 - 7 * i) \<Longrightarrow>
   uvarint_loop (uvarint_bytes y @ rest) i x (7 * i) =
     (x OR push_bit (7 * i) y, int (i + length (uvarint_bytes y)))"
proof (induction y arbitrary: i x rule: uvarint_induct)
  case (1 y)
  show ?case
  proof (cases "0x80 \<le> y")
    case True
    note fits = group_fits [OF 1(2,3) True]
    have "uvarint_loop (uvarint_bytes (drop_bit 7 y) @ rest) (Suc i)
        (x OR push_bit (7 * i) (take_bit 7 y)) (7 * Suc i) =
      (x OR push_bit (7 * i) y, int (Suc i + length (uvarint_bytes (drop_bit 7 y))))"
      using 1(1) [OF True, of "Suc i" "x OR push_bit (7 * i) (take_bit 7 y)"] fits
        groups_join [of x "7 * i" y] by (simp add: add.commute)
    with True fits(1) show ?thesis
      by (subst (1 2) uvarint_bytes_simps)
        (simp add: continuation_byte low_group MaxVarintLen64_def add.commute)
  next
    case False
    then have small: "y < 0x80" by simp
    have "i = 9 \<Longrightarrow> \<not> (ucast y :: byte) > 1"
      using 1(3) by (intro ucast_gt_one) (simp add: word_less_nat_alt)
    with False small 1(2) show ?thesis
      by (subst (1 2) uvarint_bytes_simps)
        (auto simp: small_ucast small_ucast_less MaxVarintLen64_def)
  qed
qed

theorem Uvarint_AppendUvarint:
  "Uvarint (uvarint_bytes y @ rest) = (y, int (length (uvarint_bytes y)))"
  using uvarint_loop_bytes [of 0 y rest 0] unsigned_less [of y, where 'a = nat]
  by (simp add: Uvarint_def)

lemma uvarint_bytes_length_loop:
  "i \<le> 9 \<Longrightarrow> unat y < 2 ^ (64 - 7 * i) \<Longrightarrow> i + length (uvarint_bytes y) \<le> MaxVarintLen64"
proof (induction y arbitrary: i rule: uvarint_induct)
  case (1 y)
  show ?case
  proof (cases "0x80 \<le> y")
    case True
    note fits = group_fits [OF 1(2,3) True]
    with True 1(1) [OF True, of "Suc i"] show ?thesis
      by (subst uvarint_bytes_simps) simp
  next
    case False
    with 1(2) show ?thesis by (subst uvarint_bytes_simps) (simp add: MaxVarintLen64_def)
  qed
qed

lemma length_uvarint_bytes: "length (uvarint_bytes y) \<le> MaxVarintLen64"
  using uvarint_bytes_length_loop [of 0 y] unsigned_less [of y, where 'a = nat] by simp

subsection \<open>How far the readers read\<close>

lemma uvarint_loop_bounds:
  "uvarint_loop buf i x s = (v, n) \<Longrightarrow> 0 < n \<Longrightarrow> int i < n \<and> n \<le> int (i + length buf)"
proof (induction buf i x s rule: uvarint_loop.induct)
  case (2 b buf i x s)
  then show ?case by (fastforce split: if_splits)
qed simp

lemma Uvarint_bounds: "Uvarint buf = (v, n) \<Longrightarrow> 0 < n \<Longrightarrow> n \<le> int (length buf)"
  using uvarint_loop_bounds [of buf 0 0 0 v n] by (simp add: Uvarint_def)

text \<open>
  The slice reader and the stream reader accept the same inputs, return the same value and
  consume the same bytes.
\<close>

lemma read_uvarint_loop_agrees:
  "i + n = MaxVarintLen64 \<Longrightarrow>
   read_uvarint_loop n r i x s = Inr (v, r') \<longleftrightarrow>
     (\<exists>k. uvarint_loop (remaining r) i x s = (v, int k) \<and> i < k \<and>
          r' = r\<lparr>remaining := drop (k - i) (remaining r)\<rparr>)"
proof (induction n arbitrary: r i x s)
  case 0
  then show ?case by (cases "remaining r") (auto simp: MaxVarintLen64_def)
next
  case (Suc n)
  show ?case
  proof (cases "remaining r")
    case Nil
    then show ?thesis by simp
  next
    case (Cons b buf)
    have i: "i < MaxVarintLen64" and step: "Suc i + n = MaxVarintLen64" using Suc.prems by auto
    note IH = Suc.IH [OF step, of "r\<lparr>remaining := buf\<rparr>" "x OR push_bit s (ucast (b AND 0x7f))" "s + 7"]
    have drop: "i < k \<Longrightarrow> drop (k - i) (b # buf) = drop (k - Suc i) buf" for k
      by (simp add: drop_Cons')
    have next_byte: "int i + 1 = int k \<longleftrightarrow> k = Suc i" for k by auto
    show ?thesis
    proof (cases "b < 0x80")
      case True
      with i Cons show ?thesis by (auto simp: next_byte)
    next
      case False
      let ?x = "x OR push_bit s (ucast (b AND 0x7f))"
      have far: "Suc i < k" if "uvarint_loop buf (Suc i) ?x (s + 7) = (v, int k)" "i < k" for k
        using uvarint_loop_bounds [OF that(1)] that(2) by simp
      have "read_uvarint_loop (Suc n) r i x s = Inr (v, r') \<longleftrightarrow>
          read_uvarint_loop n (r\<lparr>remaining := buf\<rparr>) (Suc i) ?x (s + 7) = Inr (v, r')"
        using False Cons by simp
      also have "\<dots> \<longleftrightarrow> (\<exists>k. uvarint_loop (remaining r) i x s = (v, int k) \<and> i < k \<and>
          r' = r\<lparr>remaining := drop (k - i) (remaining r)\<rparr>)"
        unfolding IH
      proof (rule iff_exI)
        fix k
        have "uvarint_loop (remaining r) i x s = uvarint_loop buf (Suc i) ?x (s + 7)"
          using False Cons i by simp
        then show "(uvarint_loop (remaining (r\<lparr>remaining := buf\<rparr>)) (Suc i) ?x (s + 7) = (v, int k) \<and>
            Suc i < k \<and> r' = r\<lparr>remaining := buf, remaining := drop (k - Suc i) (remaining (r\<lparr>remaining := buf\<rparr>))\<rparr>) \<longleftrightarrow>
          (uvarint_loop (remaining r) i x s = (v, int k) \<and> i < k \<and>
            r' = r\<lparr>remaining := drop (k - i) (remaining r)\<rparr>)"
          using Cons far [of k] drop [of k] by auto
      qed
      finally show ?thesis .
    qed
  qed
qed

lemma ReadUvarint_iff:
  "ReadUvarint r = Inr (v, r') \<longleftrightarrow>
     (\<exists>k. Uvarint (remaining r) = (v, int k) \<and> 0 < k \<and>
          r' = r\<lparr>remaining := drop k (remaining r)\<rparr>)"
  using read_uvarint_loop_agrees [of 0 MaxVarintLen64 r 0 0 v r']
  by (simp add: ReadUvarint_def Uvarint_def)

lemma ReadUvarint_bytes:
  "ReadUvarint \<lparr>remaining = uvarint_bytes y @ rest, at_end = e\<rparr> = Inr (y, \<lparr>remaining = rest, at_end = e\<rparr>)"
proof -
  have "\<exists>k. Uvarint (uvarint_bytes y @ rest) = (y, int k) \<and> 0 < k \<and> drop k (uvarint_bytes y @ rest) = rest"
    by (rule exI [of _ "length (uvarint_bytes y)"]) (simp add: Uvarint_AppendUvarint)
  then show ?thesis by (subst ReadUvarint_iff) auto
qed

text \<open>
  A clean end of input is told from a truncated varint: \<open>EOF\<close> is returned only when no byte
  was left.
\<close>

lemma read_uvarint_loop_EOF:
  "0 < i \<Longrightarrow> at_end r = EOF \<Longrightarrow> read_uvarint_loop n r i x s \<noteq> Inl EOF"
  by (induction n arbitrary: r i x s) (auto split: list.splits)

theorem ReadUvarint_EOF_iff:
  "at_end r = EOF \<Longrightarrow> ReadUvarint r = Inl EOF \<longleftrightarrow> remaining r = []"
  by (auto simp: ReadUvarint_def MaxVarintLen64_def numeral_eq_Suc read_uvarint_loop_EOF split: list.splits)

subsection \<open>BigEndian.Uint64\<close>

text \<open>\<^verbatim>\<open>binary.BigEndian.Uint64\<close> of an eight-byte slice.\<close>

definition BigEndian_Uint64 :: "bytes \<Rightarrow> uint64" where
  "BigEndian_Uint64 bs = fold (\<lambda>b acc. push_bit 8 acc OR ucast b) bs 0"

end
