(* ===== verification/Codec.thy ===== *)
theory Codec
  imports Varint "HOL-Library.Sublist"
begin

text \<open>
  The byte-level decoders of \<^verbatim>\<open>internal/fabricsnapshot/snapshot.go\<close> and the
  writers of its test fixtures. Offsets are naturals: every caller passes 0 or an offset a decoder
  returned, so the guard \<^verbatim>\<open>offset < 0\<close> never fires. The interface between the decoders
  is the locale \<open>offset_codec\<close>: a decoder that reads an encoding back at any position and
  makes progress; every decoder of the file is an interpretation of it.
\<close>

subsection \<open>The decoders\<close>

definition formatVersion :: byte where
  "formatVersion = 1"

definition consumeUvarint :: "bytes \<Rightarrow> nat \<Rightarrow> (uint64 \<times> nat) res" where
  "consumeUvarint data offset =
     (if offset \<ge> length data then Inl UnexpectedEOF
      else case Uvarint (drop offset data) of (value, read) \<Rightarrow>
        if read \<le> 0 then Inl (New ''invalid varint'' [])
        else Inr (value, offset + nat read))"

definition sized :: "bytes \<Rightarrow> nat \<Rightarrow> (bytes \<times> nat) res" where
  "sized data offset =
     rbind (consumeUvarint data offset) (\<lambda>(size, next).
       if unat size > length data - next then Inl UnexpectedEOF
       else let end = next + unat size in Inr (take (end - next) (drop next data), end))"

definition orderPreservingUint :: "bytes \<Rightarrow> nat \<Rightarrow> (uint64 \<times> nat) res" where
  "orderPreservingUint data offset =
     rbind (consumeUvarint data offset) (\<lambda>(size, next).
       if unat size > 8 \<or> unat size > length data - next
       then Inl (New ''invalid Fabric order-preserving uint'' [])
       else let end = next + unat size;
                padded = replicate (8 - unat size) 0 @ take (end - next) (drop next data)
            in Inr (BigEndian_Uint64 padded, end))"

definition decodeHeight :: "bytes \<Rightarrow> (uint64 \<times> uint64) res" where
  "decodeHeight data =
     rbind (orderPreservingUint data 0) (\<lambda>(block, offset).
     rbind (orderPreservingUint data offset) (\<lambda>(transaction, offset).
       if offset \<noteq> length data then Inl (New ''fabric height has trailing bytes'' [])
       else Inr (block, transaction)))"

record namespace =
  Name :: string
  Records :: uint64

fun decode_namespace_loop :: "string \<Rightarrow> bytes \<Rightarrow> nat \<Rightarrow> nat \<Rightarrow> namespace list \<Rightarrow> (namespace list \<times> nat) res" where
  "decode_namespace_loop name data 0 offset result = Inr (result, offset)"
| "decode_namespace_loop name data (Suc n) offset result =
     rbind (wrapped [name] (sized data offset)) (\<lambda>(namespace, next).
     rbind (wrapped [name] (consumeUvarint data next)) (\<lambda>(records, next).
       decode_namespace_loop name data n next
         (result @ [\<lparr>Name = string_of_bytes namespace, Records = records\<rparr>])))"

definition decodeNamespaces :: "string \<Rightarrow> bytes \<Rightarrow> namespace list res" where
  "decodeNamespaces name data =
     (if data = [] \<or> hd data \<noteq> formatVersion then Inl (New ''unsupported format byte'' [name])
      else rbind (wrapped [name] (consumeUvarint data 1)) (\<lambda>(count, offset).
        if unat count > (length data - offset) div 2
        then Inl (New ''namespace count exceeds metadata size'' [name])
        else rbind (decode_namespace_loop name data (unat count) offset []) (\<lambda>(result, offset).
          if offset \<noteq> length data then Inl (New ''trailing bytes'' [name])
          else Inr result)))"

subsection \<open>Progress\<close>

lemma consumeUvarint_progress [progress]:
  "consumeUvarint data offset = Inr (v, next) \<Longrightarrow> offset < next \<and> next \<le> length data"
  by (auto simp: consumeUvarint_def split: prod.splits if_splits)
    (use Uvarint_bounds [of "drop offset data"] in fastforce)

lemma sized_progress [progress]:
  "sized data offset = Inr (v, next) \<Longrightarrow> offset < next \<and> next \<le> length data"
  by (auto simp: sized_def Let_def dest!: consumeUvarint_progress)

lemma orderPreservingUint_progress [progress]:
  "orderPreservingUint data offset = Inr (v, next) \<Longrightarrow> offset < next \<and> next \<le> length data"
  by (auto simp: orderPreservingUint_def Let_def dest!: consumeUvarint_progress)

text \<open>
  The loop \<^verbatim>\<open>for offset := 0; offset < len(data);\<close> of \<open>protobufBytes\<close>. It ends
  because every iteration consumes at least a tag.
\<close>

function protobuf_loop :: "bytes \<Rightarrow> nat \<Rightarrow> (uint64 \<rightharpoonup> bytes) \<Rightarrow> (uint64 \<Rightarrow> bool) \<Rightarrow> (uint64 \<rightharpoonup> bytes) res" where
  "protobuf_loop data offset flds seen =
     (if offset < length data then
        rbind (consumeUvarint data offset) (\<lambda>(tag, next).
          let field = drop_bit 3 tag in
          if tag AND 7 \<noteq> 2 \<or> field < 1 \<or> field > 4 \<or> seen field
          then Inl (New ''unsupported or duplicate protobuf field'' [])
          else rbind (sized data next) (\<lambda>(value, next).
            protobuf_loop data next (flds(field \<mapsto> value)) (seen(field := True))))
      else Inr flds)"
  by pat_completeness auto
termination
proof (relation "measure (\<lambda>(data, offset, flds, seen). length data - offset)")
  fix data :: bytes and offset tail tail' :: nat
    and flds :: "uint64 \<rightharpoonup> bytes" and seen :: "uint64 \<Rightarrow> bool" and x y tag field and content :: bytes
  assume "offset < length data" "consumeUvarint data offset = Inr x" "(tag, tail) = x"
    "sized data tail = Inr y" "(content, tail') = y"
  then have "offset < tail" "tail < tail'" "tail' \<le> length data"
    using consumeUvarint_progress [of data offset tag tail] sized_progress [of data tail content tail']
    by auto
  then show "((data, tail', flds(field \<mapsto> content), seen(field := True)), data, offset, flds, seen)
      \<in> measure (\<lambda>(data, offset, flds, seen). length data - offset)"
    by simp
qed simp

declare protobuf_loop.simps [simp del]

definition protobufBytes :: "bytes \<Rightarrow> (uint64 \<rightharpoonup> bytes) res" where
  "protobufBytes data = protobuf_loop data 0 Map.empty (\<lambda>_. False)"

subsection \<open>The writers of the fixtures\<close>

definition appendSized :: "bytes \<Rightarrow> bytes \<Rightarrow> bytes" where
  "appendSized out value = AppendUvarint out (of_nat (length value)) @ value"

definition appendField :: "bytes \<Rightarrow> byte \<Rightarrow> bytes \<Rightarrow> bytes" where
  "appendField out number value = appendSized (out @ [push_bit 3 number OR 2]) value"

lemma appendSized_append: "appendSized out value = out @ appendSized [] value"
  by (simp add: appendSized_def AppendUvarint_append [of out] AppendUvarint_append [of "[]"])

lemma appendField_append: "appendField out number value = out @ appendField [] number value"
  by (simp add: appendField_def appendSized_append [of "_ @ _"] appendSized_append [of "[_]"])

subsection \<open>The contract of a decoder\<close>

locale offset_codec =
  fixes encode :: "'a \<Rightarrow> bytes"
    and decode :: "bytes \<Rightarrow> nat \<Rightarrow> ('a \<times> nat) res"
    and valid :: "'a \<Rightarrow> bool"
  assumes decode_encode:
      "valid x \<Longrightarrow> decode (pre @ encode x @ post) (length pre) = Inr (x, length pre + length (encode x))"
    and decode_progress: "decode data offset = Inr (x, next) \<Longrightarrow> offset < next \<and> next \<le> length data"
begin

lemma decode_prefix: "valid x \<Longrightarrow> decode (encode x @ post) 0 = Inr (x, length (encode x))"
  using decode_encode [of x "[]" post] by simp

lemma encode_nonempty: "valid x \<Longrightarrow> encode x \<noteq> []"
  using decode_prefix [of x "[]"] decode_progress [of "encode x" 0 x 0] by force

text \<open>The encoding is prefix-free: a stream of encodings is read back in one way only.\<close>

lemma encode_unique:
  assumes "valid x" "valid y" "encode x @ s = encode y @ t"
  shows "x = y \<and> s = t"
  using decode_prefix [OF assms(1), of s] decode_prefix [OF assms(2), of t] assms(3) by auto

lemma encode_inject: "valid x \<Longrightarrow> valid y \<Longrightarrow> encode x = encode y \<Longrightarrow> x = y"
  using encode_unique [of x y "[]" "[]"] by simp

lemma concat_encode_inject:
  "\<forall>x \<in> set xs. valid x \<Longrightarrow> \<forall>y \<in> set ys. valid y \<Longrightarrow>
   concat (map encode xs) = concat (map encode ys) \<Longrightarrow> xs = ys"
proof (induction xs arbitrary: ys)
  case Nil
  then show ?case by (cases ys) (auto simp: encode_nonempty)
next
  case (Cons x xs)
  have "concat (map encode ys) \<noteq> []"
    using Cons.prems(1,3) encode_nonempty [of x] by (metis append_is_Nil_conv concat.simps(2) list.set_intros(1) list.simps(9))
  then obtain y ys' where ys: "ys = y # ys'" by (cases ys) auto
  have "x = y \<and> concat (map encode xs) = concat (map encode ys')"
    using Cons.prems by (intro encode_unique) (auto simp: ys)
  with Cons.prems ys Cons.IH [of ys'] show ?case by simp
qed

end

text \<open>Two decoders run one after the other form a decoder of pairs.\<close>

definition decode_pair ::
  "(bytes \<Rightarrow> nat \<Rightarrow> ('a \<times> nat) res) \<Rightarrow> (bytes \<Rightarrow> nat \<Rightarrow> ('b \<times> nat) res) \<Rightarrow>
   bytes \<Rightarrow> nat \<Rightarrow> (('a \<times> 'b) \<times> nat) res" where
  "decode_pair d1 d2 data offset =
     rbind (d1 data offset) (\<lambda>(x, next). rbind (d2 data next) (\<lambda>(y, next). Inr ((x, y), next)))"

locale codec_pair =
  c1: offset_codec encode1 decode1 valid1 + c2: offset_codec encode2 decode2 valid2
  for encode1 :: "'a \<Rightarrow> bytes" and decode1 valid1 and encode2 :: "'b \<Rightarrow> bytes" and decode2 valid2
begin

lemma pair_round:
  assumes "valid1 (fst p) \<and> valid2 (snd p)"
  shows "decode_pair decode1 decode2 (pre @ (encode1 (fst p) @ encode2 (snd p)) @ post) (length pre) =
    Inr (p, length pre + length (encode1 (fst p) @ encode2 (snd p)))"
  using assms c1.decode_encode [of "fst p" pre "encode2 (snd p) @ post"]
    c2.decode_encode [of "snd p" "pre @ encode1 (fst p)" post]
  by (simp add: decode_pair_def)

end

sublocale codec_pair \<subseteq> pair: offset_codec
  "\<lambda>p. encode1 (fst p) @ encode2 (snd p)" "decode_pair decode1 decode2"
  "\<lambda>p. valid1 (fst p) \<and> valid2 (snd p)"
  by unfold_locales
    (rule pair_round, assumption, auto simp: decode_pair_def dest!: c1.decode_progress c2.decode_progress)

subsection \<open>The decoders satisfy the contract\<close>

lemma consumeUvarint_bytes [codec_simps]:
  "consumeUvarint (pre @ uvarint_bytes x @ post) (length pre) = Inr (x, length pre + length (uvarint_bytes x))"
  by (simp add: consumeUvarint_def Uvarint_AppendUvarint)

lemma appendSized_bytes:
  "appendSized [] v = uvarint_bytes (of_nat (length v)) @ v"
  by (simp add: appendSized_def uvarint_bytes_def)

lemma unat_length: "length v < 2 ^ 64 \<Longrightarrow> unat (of_nat (length v) :: uint64) = length v"
  by (rule unat_of_nat64)

lemma sized_appendSized [codec_simps]:
  assumes "length v < 2 ^ 64"
  shows "sized (pre @ appendSized [] v @ post) (length pre) = Inr (v, length pre + length (appendSized [] v))"
  using consumeUvarint_bytes [of pre "of_nat (length v)" "v @ post"]
  by (simp add: sized_def appendSized_bytes unat_length [OF assms])

interpretation uv: offset_codec uvarint_bytes consumeUvarint "\<lambda>_. True"
  by unfold_locales (auto simp: consumeUvarint_bytes dest: consumeUvarint_progress)

interpretation sz: offset_codec "appendSized []" sized "\<lambda>v. length v < 2 ^ 64"
  by unfold_locales (rule sized_appendSized, assumption, rule sized_progress)

interpretation entry: codec_pair "appendSized []" sized "\<lambda>v. length v < 2 ^ 64"
    uvarint_bytes consumeUvarint "\<lambda>_. True"
  by unfold_locales

subsection \<open>Namespace metadata\<close>

definition namespace_bytes :: "namespace \<Rightarrow> bytes" where
  "namespace_bytes ns =
     AppendUvarint (appendSized [] (bytes_of_string (Name ns))) (Records ns)"

definition namespace_file :: "namespace list \<Rightarrow> bytes" where
  "namespace_file nss =
     formatVersion # uvarint_bytes (of_nat (length nss)) @ concat (map namespace_bytes nss)"

text \<open>One iteration of the loop is the pair decoder of a name and a count.\<close>

definition namespace_of :: "bytes \<times> uint64 \<Rightarrow> namespace" where
  "namespace_of p = \<lparr>Name = string_of_bytes (fst p), Records = snd p\<rparr>"

lemma namespace_bytes_pair:
  "namespace_bytes ns = appendSized [] (bytes_of_string (Name ns)) @ uvarint_bytes (Records ns)"
  by (simp add: namespace_bytes_def AppendUvarint_append)

lemma namespace_of_pair [simp]: "namespace_of (bytes_of_string (Name ns), Records ns) = ns"
  by (simp add: namespace_of_def)

lemma decode_namespace_loop_Suc:
  "decode_namespace_loop name data (Suc n) offset result =
     rbind (wrapped [name] (decode_pair sized consumeUvarint data offset)) (\<lambda>(p, next).
       decode_namespace_loop name data n next (result @ [namespace_of p]))"
  by (cases "sized data offset"; cases "consumeUvarint data (snd (projr (sized data offset)))")
    (auto simp: decode_pair_def namespace_of_def split: prod.splits)

lemma decode_namespace_loop_bytes:
  "\<forall>ns \<in> set nss. length (Name ns) < 2 ^ 64 \<Longrightarrow>
   decode_namespace_loop name (pre @ concat (map namespace_bytes nss) @ post) (length nss) (length pre) acc =
     Inr (acc @ nss, length pre + length (concat (map namespace_bytes nss)))"
proof (induction nss arbitrary: pre acc)
  case (Cons ns nss)
  let ?p = "(bytes_of_string (Name ns), Records ns)"
  have "decode_pair sized consumeUvarint
      (pre @ namespace_bytes ns @ (concat (map namespace_bytes nss) @ post)) (length pre) =
      Inr (?p, length pre + length (namespace_bytes ns))"
    using entry.pair.decode_encode [of ?p pre] Cons.prems by (simp add: namespace_bytes_pair)
  with Cons.IH [of "pre @ namespace_bytes ns" "acc @ [ns]"] Cons.prems show ?case
    by (simp add: decode_namespace_loop_Suc add.assoc del: decode_namespace_loop.simps)
qed simp

lemma decode_namespace_loop_sound:
  "decode_namespace_loop name data n offset acc = Inr (nss, end) \<Longrightarrow> offset \<le> length data \<Longrightarrow>
   length nss = length acc + n \<and> offset + 2 * n \<le> end \<and> end \<le> length data"
proof (induction n arbitrary: offset acc)
  case (Suc n)
  then show ?case
    by (fastforce dest!: sized_progress consumeUvarint_progress)
qed simp

lemma length_namespace_bytes: "2 \<le> length (namespace_bytes ns)"
proof -
  have "1 \<le> length (uvarint_bytes x)" for x
    by (simp add: Suc_le_eq)
  from add_mono [OF this this] show ?thesis
    by (simp add: namespace_bytes_pair appendSized_bytes numeral_2_eq_2 trans_le_add1 trans_le_add2 add.left_commute)
qed

lemma length_concat_namespace_bytes: "2 * length nss \<le> length (concat (map namespace_bytes nss))"
proof (induction nss)
  case (Cons ns nss)
  with length_namespace_bytes [of ns] show ?case by simp
qed simp

lemma decodeNamespaces_file:
  assumes "length nss < 2 ^ 64" "\<forall>ns \<in> set nss. length (Name ns) < 2 ^ 64"
  shows "decodeNamespaces name (namespace_file nss @ extra) =
    (if extra = [] then Inr nss else Inl (New ''trailing bytes'' [name]))"
proof -
  define data where "data = namespace_file nss @ extra"
  let ?c = "uvarint_bytes (of_nat (length nss))" and ?body = "concat (map namespace_bytes nss)"
  have count: "consumeUvarint data 1 = Inr (of_nat (length nss), Suc (length ?c))"
    using consumeUvarint_bytes [of "[formatVersion]" "of_nat (length nss)" "?body @ extra"]
    by (simp add: data_def namespace_file_def)
  have loop: "decode_namespace_loop name data (length nss) (Suc (length ?c)) [] =
      Inr (nss, Suc (length ?c) + length ?body)"
    using decode_namespace_loop_bytes [OF assms(2), of name "formatVersion # ?c" extra "[]"]
    by (simp add: data_def namespace_file_def)
  have size: "data \<noteq> []" "hd data = formatVersion"
    "length data = Suc (length ?c) + length ?body + length extra"
    by (simp_all add: data_def namespace_file_def)
  have "length nss \<le> (length ?body + length extra) div 2"
    using length_concat_namespace_bytes [of nss] by linarith
  with count loop size show ?thesis
    unfolding data_def [symmetric]
    by (simp add: decodeNamespaces_def unat_length [OF assms(1)])
qed

subsection \<open>Records\<close>

text \<open>
  The fields of one record as the fixtures write them, in the order given: field number and
  content. Field numbers are 1 (key), 2 (value), 3 (metadata) and 4 (version).
\<close>

definition record_bytes :: "(byte \<times> bytes) list \<Rightarrow> bytes" where
  "record_bytes fs = fold (\<lambda>(f, v) out. appendField out f v) fs []"

lemma record_bytes_concat: "record_bytes fs = concat (map (\<lambda>(f, v). appendField [] f v) fs)"
proof -
  have "fold (\<lambda>(f, v) out. appendField out f v) fs acc = acc @ concat (map (\<lambda>(f, v). appendField [] f v) fs)" for acc
  proof (induction fs arbitrary: acc)
    case (Cons p fs)
    then show ?case by (cases p) (simp add: appendField_append [of acc])
  qed simp
  from this [of "[]"] show ?thesis by (simp add: record_bytes_def)
qed

lemma record_bytes_simps [codec_simps]:
  "record_bytes [] = []"
  "record_bytes ((f, v) # fs) = appendField [] f v @ record_bytes fs"
  by (simp_all add: record_bytes_concat)

definition field_number :: "byte \<Rightarrow> bool" where
  "field_number f \<longleftrightarrow> 1 \<le> f \<and> f \<le> 4"

lemma field_number_cases: "field_number f \<Longrightarrow> f = 1 \<or> f = 2 \<or> f = 3 \<or> f = 4"
proof -
  assume "field_number f"
  then have "1 \<le> unat f" "unat f \<le> 4" by (simp_all add: field_number_def word_le_nat_alt)
  then have "unat f = 1 \<or> unat f = 2 \<or> unat f = 3 \<or> unat f = 4" by linarith
  then show ?thesis by (auto simp: word_unat_eq_iff)
qed

lemma consumeUvarint_tag [codec_simps]:
  assumes "field_number f"
  shows "consumeUvarint (pre @ (push_bit 3 f OR 2) # post) (length pre) =
    Inr (push_bit 3 (ucast f) OR 2, Suc (length pre))"
  using field_number_cases [OF assms]
  by (auto simp: consumeUvarint_def Uvarint_def MaxVarintLen64_def)

lemma tag_fields:
  assumes "field_number f"
  shows "(push_bit 3 (ucast f) OR 2 :: uint64) AND 7 = 2"
    and "drop_bit 3 (push_bit 3 (ucast f) OR 2 :: uint64) = ucast f"
    and "(ucast f :: uint64) \<noteq> 0" "\<not> 4 < (ucast f :: uint64)"
  using field_number_cases [OF assms] by auto

lemma ucast_byte_inject: "(ucast (a::byte) :: uint64) = ucast b \<longleftrightarrow> a = b"
proof
  assume "(ucast a :: uint64) = ucast b"
  then have "unat (ucast a :: uint64) = unat (ucast b :: uint64)" by simp
  moreover have "unat (ucast c :: uint64) = unat c" for c :: byte
    using unsigned_less [of c, where 'a = nat] by (simp add: unsigned_ucast_eq take_bit_nat_eq_self)
  ultimately show "a = b" by (simp add: word_unat_eq_iff)
qed simp

text \<open>The map the code builds from a list of fields.\<close>

definition field_map :: "(byte \<times> bytes) list \<Rightarrow> (uint64 \<rightharpoonup> bytes)" where
  "field_map fs = map_of (map (\<lambda>(f, v). (ucast f, v)) fs)"

lemma field_map_simps [codec_simps]:
  "field_map [] = Map.empty"
  "field_map ((f, v) # fs) = (field_map fs)(ucast f \<mapsto> v)"
  by (simp_all add: field_map_def)

lemma field_map_None: "f \<notin> fst ` set fs \<Longrightarrow> field_map fs (ucast f) = None"
  by (force simp: field_map_def map_of_eq_None_iff ucast_byte_inject)

definition writable_fields :: "(byte \<times> bytes) list \<Rightarrow> bool" where
  "writable_fields fs \<longleftrightarrow> distinct (map fst fs) \<and>
     (\<forall>(f, v) \<in> set fs. field_number f \<and> length v < 2 ^ 64)"

lemma protobuf_loop_field:
  assumes "field_number f" "length v < 2 ^ 64" "\<not> seen (ucast f)"
  shows "protobuf_loop (pre @ appendField [] f v @ post) (length pre) flds seen =
    protobuf_loop (pre @ appendField [] f v @ post) (length pre + length (appendField [] f v))
      (flds(ucast f \<mapsto> v)) (seen(ucast f := True))"
proof -
  let ?tag = "push_bit 3 f OR 2"
  let ?data = "pre @ appendField [] f v @ post"
  have field: "appendField [] f v = ?tag # appendSized [] v"
    by (simp add: appendField_def appendSized_append [of "[_]"])
  have tag: "consumeUvarint ?data (length pre) = Inr (push_bit 3 (ucast f) OR 2, Suc (length pre))"
    using consumeUvarint_tag [OF assms(1), of pre "appendSized [] v @ post"] by (simp add: field)
  have body: "sized ?data (Suc (length pre)) = Inr (v, length pre + length (appendField [] f v))"
    using sized_appendSized [OF assms(2), of "pre @ [?tag]" post] by (simp add: field)
  have "length pre < length ?data" by (simp add: field)
  with tag body tag_fields [OF assms(1)] assms(3) show ?thesis
    by (subst protobuf_loop.simps) (simp add: Let_def)
qed

lemma protobuf_loop_bytes:
  "writable_fields fs \<Longrightarrow> (\<forall>f \<in> fst ` set fs. \<not> seen (ucast f)) \<Longrightarrow>
   protobuf_loop (pre @ record_bytes fs) (length pre) flds seen = Inr (flds ++ field_map fs)"
proof (induction fs arbitrary: pre flds seen)
  case Nil
  then show ?case by (subst protobuf_loop.simps) (simp add: codec_simps)
next
  case (Cons p fs)
  obtain f v where p: "p = (f, v)" by (cases p)
  from Cons.prems p have f: "field_number f" "length v < 2 ^ 64" "\<not> seen (ucast f)" "f \<notin> fst ` set fs"
    and rest: "writable_fields fs" by (auto simp: writable_fields_def)
  have unseen: "\<forall>g \<in> fst ` set fs. \<not> (seen(ucast f := True)) (ucast g)"
    using Cons.prems(2) f(4) by (auto simp: p ucast_byte_inject)
  have "protobuf_loop (pre @ record_bytes (p # fs)) (length pre) flds seen =
      Inr (flds(ucast f \<mapsto> v) ++ field_map fs)"
    using protobuf_loop_field [of f v seen pre "record_bytes fs" flds, OF f(1-3)]
      Cons.IH [OF rest unseen, of "pre @ appendField [] f v" "flds(ucast f \<mapsto> v)"]
    by (simp add: p codec_simps del: fun_upd_apply)
  moreover have "flds(ucast f \<mapsto> v) ++ field_map fs = flds ++ field_map (p # fs)"
    using field_map_None [OF f(4)] by (simp add: p codec_simps map_add_upd_left domIff)
  ultimately show ?case by simp
qed

lemma protobufBytes_record:
  "writable_fields fs \<Longrightarrow> protobufBytes (record_bytes fs) = Inr (field_map fs)"
  using protobuf_loop_bytes [of fs "\<lambda>_. False" "[]" Map.empty] by (simp add: protobufBytes_def)

text \<open>
  What a successful parse returns was in the input: only the four fields of the format, each a
  segment of the data.
\<close>

lemma sized_sublist: "sized data offset = Inr (v, next) \<Longrightarrow> sublist v data"
proof -
  assume "sized data offset = Inr (v, next)"
  then obtain a b where "v = take a (drop b data)"
    by (auto simp: sized_def Let_def)
  then show ?thesis
    by (metis prefix_imp_sublist sublist_order.order.trans suffix_drop suffix_imp_sublist take_is_prefix)
qed

lemma one_le_uint64: "1 \<le> (x::uint64) \<longleftrightarrow> x \<noteq> 0"
  by (simp add: word_le_nat_alt Suc_le_eq unat_gt_0)

lemma protobuf_loop_sound:
  assumes "protobuf_loop data offset flds seen = Inr m" "\<forall>f v. flds f = Some v \<longrightarrow> 1 \<le> f \<and> f \<le> 4 \<and> sublist v data"
  shows "m f = Some v \<Longrightarrow> 1 \<le> f \<and> f \<le> 4 \<and> sublist v data"
  using assms
proof (induction data offset flds seen rule: protobuf_loop.induct)
  case (1 data offset flds seen)
  show ?case
  proof (cases "offset < length data")
    case True
    with 1(3) obtain tag tail content tail' where step: "consumeUvarint data offset = Inr (tag, tail)"
      "drop_bit 3 tag \<ge> 1" "drop_bit 3 tag \<le> 4" "sized data tail = Inr (content, tail')"
      "\<not> (tag AND 7 \<noteq> 2 \<or> drop_bit 3 tag < 1 \<or> drop_bit 3 tag > 4 \<or> seen (drop_bit 3 tag))"
      "protobuf_loop data tail' (flds(drop_bit 3 tag \<mapsto> content)) (seen(drop_bit 3 tag := True)) = Inr m"
      by (auto simp: Let_def not_less one_le_uint64 protobuf_loop.simps [of data offset flds seen])
    show ?thesis
      using 1(1) [OF True step(1) refl refl step(5) step(4) refl 1(2) step(6)] 1(4) step(2,3)
        sized_sublist [OF step(4)] by (auto split: if_splits)
  next
    case False
    with 1(2-4) show ?thesis by (simp add: protobuf_loop.simps [of data offset flds seen])
  qed
qed

lemma protobufBytes_sound:
  "protobufBytes data = Inr m \<Longrightarrow> m f = Some v \<Longrightarrow> 1 \<le> f \<and> f \<le> 4 \<and> sublist v data"
  using protobuf_loop_sound [of data 0 Map.empty "\<lambda>_. False" m f v] by (simp add: protobufBytes_def)

subsection \<open>Heights\<close>

text \<open>Big-endian value of a byte string.\<close>

fun be_value :: "bytes \<Rightarrow> nat" where
  "be_value [] = 0"
| "be_value (b # bs) = unat b * 256 ^ length bs + be_value bs"

lemma be_value_bound: "be_value bs < 256 ^ length bs"
proof (induction bs)
  case (Cons b bs)
  have "unat b \<le> 255" using unsigned_less [of b, where 'a = nat] by simp
  then have "unat b * 256 ^ length bs \<le> 255 * 256 ^ length bs" by (rule mult_le_mono1)
  from add_le_less_mono [OF this Cons] show ?case by simp
qed simp

lemma be_fold:
  "unat acc * 256 ^ length bs + be_value bs < 2 ^ 64 \<Longrightarrow>
   unat (fold (\<lambda>b acc. push_bit 8 acc OR ucast b) bs (acc::uint64)) = unat acc * 256 ^ length bs + be_value bs"
proof (induction bs arbitrary: acc)
  case (Cons b bs)
  let ?acc = "push_bit 8 acc OR ucast b :: uint64"
  have disj: "push_bit 8 acc AND (ucast b :: uint64) = 0"
  proof (rule bit_word_eqI)
    fix n show "bit (push_bit 8 acc AND (ucast b :: uint64)) n = bit (0::uint64) n"
      using bit_imp_le_length [of b n] by (auto simp: bit_simps)
  qed
  have b: "unat (ucast b :: uint64) = unat b"
    using unsigned_less [of b, where 'a = nat] by (simp add: unsigned_ucast_eq take_bit_nat_eq_self)
  have "unat acc * 256 * 1 \<le> unat acc * 256 * 256 ^ length bs" "unat b * 1 \<le> unat b * 256 ^ length bs"
    by (rule mult_le_mono2, simp)+
  moreover have "unat acc * 256 * 256 ^ length bs + unat b * 256 ^ length bs + be_value bs < 2 ^ 64"
    using Cons.prems by (simp add: algebra_simps)
  ultimately have small: "unat acc * 256 + unat b < 2 ^ 64" by linarith
  have "?acc = push_bit 8 acc + ucast b"
    using disj by (simp add: disjunctive_add_eq_or)
  also have "\<dots> = of_nat (unat acc * 256 + unat b)"
    by (simp add: push_bit_eq_mult b [symmetric] ac_simps)
  finally have acc: "unat ?acc = unat acc * 256 + unat b"
    by (simp only: unat_of_nat64 [OF small])
  have "unat ?acc * 256 ^ length bs + be_value bs < 2 ^ 64"
    using Cons.prems by (simp add: acc algebra_simps)
  from Cons.IH [OF this] show ?case by (simp add: acc algebra_simps)
qed simp

lemma be_value_zeros: "be_value (replicate n 0 @ bs) = be_value bs"
  by (induction n) auto

lemma BigEndian_padded:
  assumes "length bs \<le> 8"
  shows "unat (BigEndian_Uint64 (replicate (8 - length bs) 0 @ bs)) = be_value bs"
proof -
  have "be_value bs < 256 ^ 8"
    using be_value_bound [of bs] power_increasing [OF assms, of "256::nat"] by linarith
  then show ?thesis
    using be_fold [of 0 "replicate (8 - length bs) 0 @ bs"] by (simp add: BigEndian_Uint64_def be_value_zeros)
qed

lemma orderPreservingUint_bytes:
  assumes "length bs \<le> 8"
  shows "orderPreservingUint (pre @ appendSized [] bs @ post) (length pre) =
    Inr (of_nat (be_value bs), length pre + length (appendSized [] bs))"
proof -
  have "BigEndian_Uint64 (replicate (8 - length bs) 0 @ bs) = of_nat (be_value bs)"
    using BigEndian_padded [OF assms] by (metis of_nat_unat ucast_id)
  then show ?thesis
    using consumeUvarint_bytes [of pre "of_nat (length bs)" "bs @ post"] assms
    by (simp add: orderPreservingUint_def appendSized_bytes unat_length Let_def)
qed

definition height_bytes :: "bytes \<Rightarrow> bytes \<Rightarrow> bytes" where
  "height_bytes block transaction = appendSized (appendSized [] block) transaction"

lemma decodeHeight_bytes:
  assumes "length block \<le> 8" "length transaction \<le> 8"
  shows "decodeHeight (height_bytes block transaction @ extra) =
    (if extra = [] then Inr (of_nat (be_value block), of_nat (be_value transaction))
     else Inl (New ''fabric height has trailing bytes'' []))"
proof -
  define data where "data = height_bytes block transaction @ extra"
  let ?a = "appendSized [] block" and ?b = "appendSized [] transaction"
  have "orderPreservingUint data 0 = Inr (of_nat (be_value block), length ?a)"
    using orderPreservingUint_bytes [OF assms(1), of "[]" "?b @ extra"]
    by (simp add: data_def height_bytes_def appendSized_append [of "appendSized [] block"])
  moreover have "orderPreservingUint data (length ?a) =
      Inr (of_nat (be_value transaction), length ?a + length ?b)"
    using orderPreservingUint_bytes [OF assms(2), of ?a extra]
    by (simp add: data_def height_bytes_def appendSized_append [of "appendSized [] block"])
  moreover have "length data = length ?a + length ?b + length extra"
    by (simp add: data_def height_bytes_def appendSized_append [of "appendSized [] block"])
  ultimately show ?thesis
    unfolding data_def [symmetric] by (simp add: decodeHeight_def)
qed

end
