(* ===== verification/GoLib.thy ===== *)
theory GoLib
  imports Prelude "HOL-Library.AList" "HOL-Library.Sublist"
begin

text \<open>
  The rest of the Go standard library the program calls: \<^verbatim>\<open>strings\<close>,
  \<^verbatim>\<open>path/filepath\<close> (Unix), \<^verbatim>\<open>encoding/hex\<close>,
  \<^verbatim>\<open>encoding/base64\<close> and Go maps. A Go map is an association list with distinct keys, in
  the order in which \<^verbatim>\<open>range\<close> visits it: the language leaves that order open, so every
  list is a possible one, and a result that does not depend on it is a theorem. The interface
  \<open>key_order\<close> says what the strict order check of a snapshot needs from the bytes it compares.
\<close>

subsection \<open>strings\<close>

definition HasPrefix :: "string \<Rightarrow> string \<Rightarrow> bool" where
  "HasPrefix s p \<longleftrightarrow> take (length p) s = p"

fun cut_at :: "string \<Rightarrow> string \<Rightarrow> (string \<times> string) option" where
  "cut_at sep [] = (if sep = [] then Some ([], []) else None)"
| "cut_at sep (c # cs) =
     (if HasPrefix (c # cs) sep then Some ([], drop (length sep) (c # cs))
      else map_option (\<lambda>(a, b). (c # a, b)) (cut_at sep cs))"

text \<open>\<^verbatim>\<open>strings.Cut(s, sep)\<close>: the text before and after the first \<open>sep\<close>, and whether there is one.\<close>

definition Cut :: "string \<Rightarrow> string \<Rightarrow> string \<times> string \<times> bool" where
  "Cut s sep = (case cut_at sep s of None \<Rightarrow> (s, [], False) | Some (a, b) \<Rightarrow> (a, b, True))"

definition Contains :: "string \<Rightarrow> string \<Rightarrow> bool" where
  "Contains s sub \<longleftrightarrow> cut_at sub s \<noteq> None"

definition CutPrefix :: "string \<Rightarrow> string \<Rightarrow> string \<times> bool" where
  "CutPrefix s p = (if HasPrefix s p then (drop (length p) s, True) else (s, False))"

fun strings_Join :: "string list \<Rightarrow> string \<Rightarrow> string" where
  "strings_Join [] sep = []"
| "strings_Join [x] sep = x"
| "strings_Join (x # y # zs) sep = x @ sep @ strings_Join (y # zs) sep"

lemma HasPrefix_iff: "HasPrefix s p \<longleftrightarrow> (\<exists>t. s = p @ t)"
  by (metis HasPrefix_def append_eq_conv_conj append_take_drop_id)

lemma HasPrefix_prefix: "HasPrefix s p \<longleftrightarrow> prefix p s"
  by (simp add: HasPrefix_iff prefix_def)

lemma cut_at_Some: "cut_at sep s = Some (a, b) \<Longrightarrow> s = a @ sep @ b"
proof (induction s arbitrary: a)
  case (Cons c s)
  then show ?case
    by (auto simp: HasPrefix_iff split: if_splits)
qed (auto split: if_splits)

lemma cut_at_None: "cut_at sep s = None \<longleftrightarrow> \<not> sublist sep s"
proof (induction s)
  case (Cons c s)
  then show ?case by (auto simp: HasPrefix_prefix sublist_Cons_right)
qed simp

lemma Contains_iff: "Contains s sub \<longleftrightarrow> (\<exists>a b. s = a @ sub @ b)"
  by (auto simp: Contains_def cut_at_None sublist_def)

text \<open>The cut is at the first occurrence.\<close>

lemma cut_at_first:
  "cut_at sep s = Some (a, b) \<Longrightarrow> s = u @ sep @ v \<Longrightarrow> length a \<le> length u"
proof (induction s arbitrary: a u)
  case Nil
  then show ?case by (auto split: if_splits)
next
  case (Cons c s)
  show ?case
  proof (cases "HasPrefix (c # s) sep")
    case True
    with Cons.prems(1) have "a = []" by simp
    then show ?thesis by simp
  next
    case False
    with Cons.prems(1) obtain a' where a: "a = c # a'" "cut_at sep s = Some (a', b)" by auto
    from False Cons.prems(2) obtain u' where u: "u = c # u'"
      by (cases u) (auto simp: HasPrefix_iff)
    with Cons.IH [OF a(2), of u'] Cons.prems(2) a(1) show ?thesis by simp
  qed
qed

lemma cut_at_append:
  assumes "\<And>u v. a @ sep @ b = u @ sep @ v \<Longrightarrow> length a \<le> length u"
  shows "cut_at sep (a @ sep @ b) = Some (a, b)"
proof -
  have "cut_at sep (a @ sep @ b) \<noteq> None" by (auto simp: cut_at_None sublist_def)
  then obtain c d where cd: "cut_at sep (a @ sep @ b) = Some (c, d)" by auto
  from cut_at_Some [OF cd] have eq: "a @ sep @ b = c @ sep @ d" .
  have "length a = length c"
    using assms [OF eq] cut_at_first [OF cd refl] by simp
  with eq cd show ?thesis by simp
qed

subsection \<open>path/filepath\<close>

definition strip_slashes :: "string \<Rightarrow> string" where
  "strip_slashes s = rev (dropWhile (\<lambda>c. c = CHR ''/'') (rev s))"

definition filepath_Base :: "string \<Rightarrow> string" where
  "filepath_Base path =
     (if path = [] then ''.''
      else let path = strip_slashes path;
               path = rev (takeWhile (\<lambda>c. c \<noteq> CHR ''/'') (rev path))
           in if path = [] then ''/'' else path)"

fun split_slash :: "string \<Rightarrow> string list" where
  "split_slash [] = [[]]"
| "split_slash (c # cs) =
     (if c = CHR ''/'' then [] # split_slash cs
      else case split_slash cs of [] \<Rightarrow> [[c]] | p # ps \<Rightarrow> (c # p) # ps)"

text \<open>The element loop of \<^verbatim>\<open>filepath.Clean\<close>; \<open>out\<close> holds the kept elements, last first.\<close>

fun clean_elems :: "bool \<Rightarrow> string list \<Rightarrow> string list \<Rightarrow> string list" where
  "clean_elems rooted [] out = rev out"
| "clean_elems rooted (p # ps) out =
     (if p = [] \<or> p = ''.'' then clean_elems rooted ps out
      else if p = ''..'' then
        (if out \<noteq> [] \<and> hd out \<noteq> ''..'' then clean_elems rooted ps (tl out)
         else if rooted then clean_elems rooted ps out
         else clean_elems rooted ps (p # out))
      else clean_elems rooted ps (p # out))"

definition filepath_Clean :: "string \<Rightarrow> string" where
  "filepath_Clean path =
     (if path = [] then ''.''
      else let rooted = (hd path = CHR ''/'');
               body = strings_Join (clean_elems rooted (split_slash path) []) ''/''
           in if rooted then CHR ''/'' # body else if body = [] then ''.'' else body)"

definition filepath_Join :: "string \<Rightarrow> string \<Rightarrow> string" where
  "filepath_Join dir name =
     (if dir \<noteq> [] then filepath_Clean (dir @ ''/'' @ name)
      else if name \<noteq> [] then filepath_Clean name else [])"

lemma filepath_Base_self:
  assumes "filepath_Base name = name"
  shows "name = ''/'' \<or> CHR ''/'' \<notin> set name"
proof (cases "name = []")
  case False
  then have "name = ''/'' \<or> name = rev (takeWhile (\<lambda>c. c \<noteq> CHR ''/'') (rev (strip_slashes name)))"
    using assms by (auto simp: filepath_Base_def Let_def split: if_splits)
  then show ?thesis by (metis (mono_tags, lifting) set_rev set_takeWhileD)
qed simp

lemma filepath_Base_plain:
  assumes "name \<noteq> []" "CHR ''/'' \<notin> set name"
  shows "filepath_Base name = name"
proof -
  have "last name \<noteq> CHR ''/''" using assms last_in_set by metis
  then have "strip_slashes name = name"
    by (simp add: strip_slashes_def dropWhile_eq_self_iff hd_rev rev_swap)
  moreover have "takeWhile (\<lambda>c. c \<noteq> CHR ''/'') (rev name) = rev name"
    using assms(2) by (auto simp: takeWhile_eq_all_conv)
  ultimately show ?thesis using assms(1)
    by (simp add: filepath_Base_def del: takeWhile_eq_all_conv)
qed

lemma split_slash_nonempty [simp]: "split_slash s \<noteq> []"
  by (cases s) (auto split: list.splits)

lemma split_slash_plain: "CHR ''/'' \<notin> set s \<Longrightarrow> split_slash s = [s]"
  by (induction s) auto

lemma split_slash_join: "split_slash (s @ CHR ''/'' # t) = split_slash s @ split_slash t"
  by (induction s) (auto split: list.splits)

lemma clean_elems_snoc:
  "name \<noteq> [] \<Longrightarrow> name \<noteq> ''.'' \<Longrightarrow> name \<noteq> ''..'' \<Longrightarrow>
   clean_elems rooted (ps @ [name]) out = clean_elems rooted ps out @ [name]"
  by (induction rooted ps out rule: clean_elems.induct) auto

lemma strings_Join_snoc:
  "strings_Join (xs @ [x]) sep = (if xs = [] then x else strings_Join xs sep @ sep @ x)"
proof (induction xs)
  case (Cons y ys)
  then show ?case by (cases ys) auto
qed simp

text \<open>
  Joining a plain file name to a directory gives an entry of that directory: the cleaned elements
  of the directory, then the name.
\<close>

definition join_prefix :: "string \<Rightarrow> string" where
  "join_prefix dir =
     (let rooted = (hd dir = CHR ''/''); es = clean_elems rooted (split_slash dir) [] in
      (if rooted then ''/'' else []) @ (if es = [] then [] else strings_Join es ''/'' @ ''/''))"

definition plain_name :: "string \<Rightarrow> bool" where
  "plain_name name \<longleftrightarrow> name \<noteq> [] \<and> name \<noteq> ''.'' \<and> name \<noteq> ''..'' \<and> CHR ''/'' \<notin> set name"

lemma filepath_Join_plain:
  assumes dir: "dir \<noteq> []" and name: "plain_name name"
  shows "filepath_Join dir name = join_prefix dir @ name"
proof -
  let ?rooted = "hd dir = CHR ''/''"
  let ?es = "clean_elems ?rooted (split_slash dir) []"
  have "split_slash (dir @ ''/'' @ name) = split_slash dir @ [name]"
    using split_slash_join [of dir name] split_slash_plain [of name] name by (simp add: plain_name_def)
  then have elems: "clean_elems ?rooted (split_slash (dir @ ''/'' @ name)) [] = ?es @ [name]"
    using name clean_elems_snoc [of name ?rooted "split_slash dir" "[]"] by (simp only: plain_name_def) simp
  have hd: "hd (dir @ ''/'' @ name) = hd dir" using dir by simp
  have "filepath_Join dir name = filepath_Clean (dir @ ''/'' @ name)"
    using dir by (simp add: filepath_Join_def)
  also have "\<dots> = (let body = strings_Join (?es @ [name]) ''/''
       in if ?rooted then CHR ''/'' # body else if body = [] then ''.'' else body)"
    unfolding filepath_Clean_def hd elems Let_def using dir by simp
  finally show ?thesis using name
    by (simp add: join_prefix_def Let_def strings_Join_snoc plain_name_def)
qed

lemma filepath_Join_inject:
  "dir \<noteq> [] \<Longrightarrow> plain_name a \<Longrightarrow> plain_name b \<Longrightarrow> filepath_Join dir a = filepath_Join dir b \<longleftrightarrow> a = b"
  by (simp add: filepath_Join_plain)

subsection \<open>encoding/hex\<close>

definition hex_digits :: string where
  "hex_digits = ''0123456789abcdef''"

definition hex_EncodeToString :: "bytes \<Rightarrow> string" where
  "hex_EncodeToString bs =
     concat (map (\<lambda>b. [hex_digits ! (unat b div 16), hex_digits ! (unat b mod 16)]) bs)"

lemma hex_digits_inject: "i < 16 \<Longrightarrow> j < 16 \<Longrightarrow> hex_digits ! i = hex_digits ! j \<longleftrightarrow> i = j"
  by (rule nth_eq_iff_index_eq) (simp_all add: hex_digits_def)

lemma hex_EncodeToString_inject: "hex_EncodeToString a = hex_EncodeToString b \<longleftrightarrow> a = b"
proof -
  have bound: "unat (c::byte) div 16 < 16" "unat c mod 16 < 16" for c
    using unsigned_less [of c, where 'a = nat] by auto
  have "hex_EncodeToString a = hex_EncodeToString b \<Longrightarrow> a = b"
  proof (induction a arbitrary: b)
    case Nil
    then show ?case by (cases b) (auto simp: hex_EncodeToString_def)
  next
    case (Cons x a)
    then obtain y b' where b: "b = y # b'" by (cases b) (auto simp: hex_EncodeToString_def)
    with Cons.prems have "unat x div 16 = unat y div 16" "unat x mod 16 = unat y mod 16"
      "hex_EncodeToString a = hex_EncodeToString b'"
      by (auto simp: hex_EncodeToString_def hex_digits_inject bound)
    then show ?case using Cons.IH b by (metis mult_div_mod_eq word_unat_eq_iff)
  qed
  then show ?thesis by auto
qed

subsection \<open>encoding/base64\<close>

definition b64_alphabet :: string where
  "b64_alphabet = ''ABCDEFGHIJKLMNOPQRSTUVWXYZabcdefghijklmnopqrstuvwxyz0123456789+/''"

definition b64_digit :: "nat \<Rightarrow> nat \<Rightarrow> char" where
  "b64_digit val shift = b64_alphabet ! (val div 2 ^ shift mod 64)"

text \<open>\<^verbatim>\<open>base64.StdEncoding.EncodeToString\<close>: three bytes to four digits, padded with \<^verbatim>\<open>=\<close>.\<close>

fun base64_EncodeToString :: "bytes \<Rightarrow> string" where
  "base64_EncodeToString (a # b # c # src) =
     (let val = unat a * 2 ^ 16 + unat b * 2 ^ 8 + unat c in
      [b64_digit val 18, b64_digit val 12, b64_digit val 6, b64_digit val 0] @ base64_EncodeToString src)"
| "base64_EncodeToString [a, b] =
     (let val = unat a * 2 ^ 16 + unat b * 2 ^ 8 in
      [b64_digit val 18, b64_digit val 12, b64_digit val 6, CHR ''='' ])"
| "base64_EncodeToString [a] =
     (let val = unat a * 2 ^ 16 in [b64_digit val 18, b64_digit val 12, CHR ''='', CHR ''='' ])"
| "base64_EncodeToString [] = []"

lemma b64_alphabet_inject: "i < 64 \<Longrightarrow> j < 64 \<Longrightarrow> b64_alphabet ! i = b64_alphabet ! j \<longleftrightarrow> i = j"
  by (rule nth_eq_iff_index_eq) (simp_all add: b64_alphabet_def)

lemma b64_digit_inject: "b64_digit v s = b64_digit w s \<longleftrightarrow> v div 2 ^ s mod 64 = w div 2 ^ s mod 64"
  by (simp add: b64_digit_def b64_alphabet_inject)

lemma b64_digit_pad [simp]: "b64_digit v s \<noteq> CHR ''=''" "CHR ''='' \<noteq> b64_digit v s"
proof -
  have "b64_alphabet ! i \<in> set b64_alphabet" if "i < 64" for i
    using that by (intro nth_mem) (simp add: b64_alphabet_def)
  moreover have "CHR ''='' \<notin> set b64_alphabet" by (simp add: b64_alphabet_def)
  ultimately show "b64_digit v s \<noteq> CHR ''=''" "CHR ''='' \<noteq> b64_digit v s"
    by (metis b64_digit_def mod_less_divisor zero_less_numeral)+
qed

lemma byte_less: "unat (b::byte) < 256"
  using unsigned_less [of b, where 'a = nat] by simp

text \<open>Four base-64 digits determine a 24-bit number, which determines its three bytes.\<close>

lemma digits24:
  assumes "v div 2 ^ 18 mod 64 = w div 2 ^ 18 mod 64" "v div 2 ^ 12 mod 64 = w div 2 ^ 12 mod 64"
    "v div 2 ^ 6 mod 64 = w div 2 ^ 6 mod 64" "v mod 64 = w mod 64" "v < 2 ^ 24" "w < 2 ^ 24"
  shows "v = (w::nat)"
proof -
  have split: "u = ((u div 2 ^ 18 mod 64 * 64 + u div 2 ^ 12 mod 64) * 64 + u div 2 ^ 6 mod 64) * 64 + u mod 64"
    if "u < 2 ^ 24" for u :: nat
  proof -
    have "u div 2 ^ 12 = u div 64 div 64" "u div 2 ^ 18 = u div 64 div 64 div 64"
      by (simp_all add: div_mult2_eq [symmetric])
    moreover have "u div 2 ^ 18 < 64" using that by (intro less_mult_imp_div_less) simp
    ultimately show ?thesis by (simp add: mod_less)
  qed
  from split [OF assms(5)] split [OF assms(6)] assms(1-4) show ?thesis by metis
qed

lemma split256: "x * 256 + c = x' * 256 + c' \<Longrightarrow> c < 256 \<Longrightarrow> c' < 256 \<Longrightarrow> x = x' \<and> c = (c'::nat)"
  by (metis div_mult_self3 div_less mod_less mod_mult_self3 add.right_neutral zero_neq_numeral)

lemma bytes24:
  assumes "unat (a::byte) * 2 ^ 16 + unat (b::byte) * 2 ^ 8 + unat (c::byte) =
    unat (a'::byte) * 2 ^ 16 + unat (b'::byte) * 2 ^ 8 + unat (c'::byte)"
  shows "a = a' \<and> b = b' \<and> c = c'"
proof -
  have "unat a = unat a' \<and> unat b = unat b' \<and> unat c = unat c'"
    using split256 [of "unat a * 256 + unat b" "unat c" "unat a' * 256 + unat b'" "unat c'"]
      split256 [of "unat a" "unat b" "unat a'" "unat b'"] assms byte_less by (simp add: algebra_simps)
  then show ?thesis by (simp add: word_unat_eq_iff)
qed

lemma bytes24_less: "unat (a::byte) * 2 ^ 16 + unat (b::byte) * 2 ^ 8 + unat (c::byte) < 2 ^ 24"
  using byte_less [of a] byte_less [of b] byte_less [of c] by simp

lemma b64_group_inject:
  assumes "b64_digit v 18 = b64_digit w 18" "b64_digit v 12 = b64_digit w 12"
    "b64_digit v 6 = b64_digit w 6" "b64_digit v 0 = b64_digit w 0"
    and v: "v = unat (a::byte) * 2 ^ 16 + unat (b::byte) * 2 ^ 8 + unat (c::byte)"
    and w: "w = unat (a'::byte) * 2 ^ 16 + unat (b'::byte) * 2 ^ 8 + unat (c'::byte)"
  shows "a = a' \<and> b = b' \<and> c = c'"
proof -
  have "v < 2 ^ 24" "w < 2 ^ 24" unfolding v w by (rule bytes24_less)+
  moreover have "v mod 64 = w mod 64" using assms(4) by (simp add: b64_digit_inject)
  ultimately have "v = w"
    using assms(1-3) digits24 [of v w] unfolding b64_digit_inject by blast
  then show ?thesis unfolding v w by (rule bytes24)
qed

lemma digit_zero:
  "b64_digit (x * 65536) 6 = b64_digit 0 6" "b64_digit (x * 65536) 0 = b64_digit 0 0"
  "b64_digit (x * 65536 + y * 256) 0 = b64_digit 0 0"
proof -
  have e: "x * 65536 = x * 1024 * 64" and e2: "x * 65536 + y * 256 = (x * 1024 + y * 4) * 64"
    and e': "x * 1024 = x * 16 * 64" by simp_all
  have d: "x * 65536 div 64 = x * 1024"
    unfolding e by (rule nonzero_mult_div_cancel_right) simp
  have m1: "x * 1024 mod 64 = 0" unfolding e' by (rule mod_mult_self2_is_0)
  have m2: "x * 65536 mod 64 = 0" unfolding e by (rule mod_mult_self2_is_0)
  have m3: "(x * 65536 + y * 256) mod 64 = 0" unfolding e2 by (rule mod_mult_self2_is_0)
  show "b64_digit (x * 65536) 6 = b64_digit 0 6" "b64_digit (x * 65536) 0 = b64_digit 0 0"
    "b64_digit (x * 65536 + y * 256) 0 = b64_digit 0 0"
    using d m1 m2 m3 by (simp_all add: b64_digit_inject)
qed

lemma base64_EncodeToString_inject:
  "base64_EncodeToString a = base64_EncodeToString b \<Longrightarrow> a = b"
proof (induction a arbitrary: b rule: base64_EncodeToString.induct)
  case (1 x y z src)
  note prems = 1
  show ?case
  proof (cases b rule: base64_EncodeToString.cases)
    case (1 x' y' z' src')
    with prems(2) b64_group_inject [of _ _ x y z x' y' z', OF _ _ _ _ refl refl] prems(1) [OF refl, of src']
    show ?thesis by (auto simp: Let_def)
  qed (use prems(2) in \<open>auto simp: Let_def\<close>)
next
  case (2 x y)
  note prems = 2
  show ?case
  proof (cases b rule: base64_EncodeToString.cases)
    case (2 x' y')
    with prems b64_group_inject [of _ _ x y 0 x' y' 0, OF _ _ _ _ refl refl] show ?thesis
      by (auto simp: Let_def digit_zero)
  qed (use prems in \<open>auto simp: Let_def\<close>)
next
  case (3 x)
  note prems = 3
  show ?case
  proof (cases b rule: base64_EncodeToString.cases)
    case (3 x')
    with prems b64_group_inject [of _ _ x 0 0 x' 0 0, OF _ _ _ _ refl refl] show ?thesis
      by (auto simp: Let_def digit_zero)
  qed (use prems in \<open>auto simp: Let_def\<close>)
next
  case 4
  then show ?case by (cases b rule: base64_EncodeToString.cases) (auto simp: Let_def)
qed

subsection \<open>Orders on keys\<close>

text \<open>
  A snapshot lists the records of a namespace in strictly increasing order of some rendering of
  their keys. All the reader needs of the rendering is that it keeps different keys apart: then a
  strictly ordered list has no key twice.
\<close>

locale key_order =
  fixes render :: "bytes \<Rightarrow> bytes"
  assumes render_inject: "render a = render b \<Longrightarrow> a = b"
begin

lemma ordered_distinct: "sorted_wrt (<) (map render ks) \<Longrightarrow> distinct ks"
  using sorted_wrt_less_distinct [of "map render ks"] by (simp add: distinct_map)

end

interpretation plain: key_order "\<lambda>k. k"
  by unfold_locales simp

text \<open>CouchDB sorts the Base64 text of the key.\<close>

interpretation couch: key_order "\<lambda>k. bytes_of_string (base64_EncodeToString k)"
proof unfold_locales
  fix a b
  assume "bytes_of_string (base64_EncodeToString a) = bytes_of_string (base64_EncodeToString b)"
  then have "base64_EncodeToString a = base64_EncodeToString b"
    by (metis string_of_bytes_of_string)
  then show "a = b" by (rule base64_EncodeToString_inject)
qed

subsection \<open>Maps\<close>

type_synonym ('k, 'v) gomap = "('k \<times> 'v) list"

definition keys :: "('k, 'v) gomap \<Rightarrow> 'k list" where
  "keys m = map fst m"

definition wf_map :: "('k, 'v) gomap \<Rightarrow> bool" where
  "wf_map m \<longleftrightarrow> distinct (keys m)"

definition has_key :: "('k, 'v) gomap \<Rightarrow> 'k \<Rightarrow> bool" where
  "has_key m k \<longleftrightarrow> map_of m k \<noteq> None"

text \<open>\<^verbatim>\<open>sortedKeys\<close> of \<^verbatim>\<open>config.go\<close>: the order of the map does not matter.\<close>

definition sortedKeys :: "(string, 'v) gomap \<Rightarrow> string list" where
  "sortedKeys m = sort (keys m)"

lemma set_keys: "set (keys m) = dom (map_of m)"
  by (simp add: keys_def dom_map_of_conv_image_fst)

lemma has_key_iff: "has_key m k \<longleftrightarrow> k \<in> set (keys m)"
  by (auto simp: has_key_def set_keys)

lemma wf_map_update [simp]: "wf_map m \<Longrightarrow> wf_map (AList.update k v m)"
  by (simp add: wf_map_def keys_def distinct_update)

lemma update_fresh: "k \<notin> set (keys m) \<Longrightarrow> AList.update k v m = m @ [(k, v)]"
  by (induction m) (auto simp: keys_def)

lemma map_of_update [simp]: "map_of (AList.update k v m) = (map_of m)(k \<mapsto> v)"
  by (simp add: update_conv')

lemma set_sortedKeys [simp]: "set (sortedKeys m) = set (keys m)"
  by (simp add: sortedKeys_def)

lemma sorted_sortedKeys [simp]: "sorted (sortedKeys m)"
  by (simp add: sortedKeys_def)

lemma distinct_sortedKeys [simp]: "wf_map m \<Longrightarrow> distinct (sortedKeys m)"
  by (simp add: sortedKeys_def wf_map_def)

lemma sortedKeys_order_independent:
  assumes "wf_map m" "wf_map m'" "map_of m = map_of m'"
  shows "sortedKeys m = sortedKeys m'"
proof -
  have "set (keys m) = set (keys m')" using assms(3) by (simp add: set_keys)
  with assms(1,2) have "mset (keys m) = mset (keys m')"
    by (simp add: wf_map_def set_eq_iff_mset_eq_distinct)
  then show ?thesis unfolding sortedKeys_def by (metis sorted_list_of_multiset_mset)
qed

text \<open>
  A \<^verbatim>\<open>range\<close> over a map visits its entries in an order that Go leaves open: any rearrangement of them.
\<close>

definition iteration_order :: "(('k, 'v) gomap \<Rightarrow> ('k, 'v) gomap) \<Rightarrow> bool" where
  "iteration_order rng \<longleftrightarrow> (\<forall>m. mset (rng m) = mset m)"

lemma iteration_order_set: "iteration_order rng \<Longrightarrow> set (rng m) = set m"
  unfolding iteration_order_def by (metis set_mset_mset)

lemma iteration_order_map: "iteration_order rng \<Longrightarrow> mset (map f (rng m)) = mset (map f m)"
  by (simp add: iteration_order_def)

lemma iteration_order_wf: "iteration_order rng \<Longrightarrow> wf_map (rng m) \<longleftrightarrow> wf_map m"
  unfolding wf_map_def keys_def by (metis iteration_order_map mset_eq_imp_distinct_iff)

lemma iteration_order_map_of: "iteration_order rng \<Longrightarrow> wf_map m \<Longrightarrow> map_of (rng m) = map_of m"
  by (rule map_of_inject_set [THEN iffD2])
    (simp_all add: iteration_order_set iteration_order_wf flip: wf_map_def keys_def)

lemma iteration_order_examples: "iteration_order (\<lambda>m. m)" "iteration_order rev"
  by (simp_all add: iteration_order_def)

end
