(* ===== verification/Files.thy ===== *)
theory Files
  imports GoLib
begin

text \<open>
  The files the program reads: \<^verbatim>\<open>openRegular\<close>, \<^verbatim>\<open>readRegular\<close>,
  \<^verbatim>\<open>hash\<close> and \<^verbatim>\<open>decodeJSON\<close> of
  \<^verbatim>\<open>internal/fabricsnapshot/snapshot.go\<close>, \<^verbatim>\<open>hashRegularFile\<close> of
  \<^verbatim>\<open>stream.go\<close>, and \<^verbatim>\<open>readInput\<close> and \<^verbatim>\<open>revalidate\<close> of
  \<^verbatim>\<open>internal/migrate/inputs.go\<close>.

  The operating system is what its calls returned: an \<open>fs\<close> gives, for each path, the result
  of \<^verbatim>\<open>Lstat\<close>, of \<^verbatim>\<open>Open\<close>, of \<^verbatim>\<open>ReadFile\<close> and of
  \<^verbatim>\<open>ReadDir\<close>. The four need not agree, so a file that is replaced between two calls is
  an \<open>fs\<close> too, and a file that changes between two phases of an import is two of them.
\<close>

subsection \<open>The operating system\<close>

record file_info =
  is_regular :: bool
  is_dir :: bool
  inode :: nat

text \<open>
  An open file: what \<^verbatim>\<open>Stat\<close> on the descriptor says, the bytes it yields, the error
  that ends the reading (none at the end of the file) and the error of \<^verbatim>\<open>Close\<close>.
\<close>

record opened_file =
  opened_stat :: "file_info res"
  contents :: bytes
  read_error :: "go_error option"
  close_error :: "go_error option"

record fs =
  Lstat :: "string \<Rightarrow> file_info res"
  Open :: "string \<Rightarrow> opened_file res"
  ReadFile :: "string \<Rightarrow> bytes res"
  ReadDir :: "string \<Rightarrow> string list res"

subsection \<open>Libraries\<close>

text \<open>
  \<open>Sum256\<close> stands for \<^verbatim>\<open>sha256.Sum256\<close>: every theorem holds for whatever
  function it is, and says so where it needs that two contents do not collide. A JSON decoder reads
  one value from the input that is left and returns it with the rest; \<open>decode_any\<close> is
  \<^verbatim>\<open>Decode\<close> into an \<^verbatim>\<open>any\<close>.
\<close>

record lib =
  Sum256 :: "bytes \<Rightarrow> bytes"
  decode_any :: "bytes \<Rightarrow> bytes res"

subsection \<open>snapshot.go\<close>

definition openRegular :: "fs \<Rightarrow> string \<Rightarrow> opened_file res" where
  "openRegular f path =
     rbind (Lstat f path) (\<lambda>info.
       if \<not> is_regular info then Inl (New ''snapshot entry is not a regular file'' [path])
       else rbind (Open f path) (\<lambda>file.
         let changed = Inl (the (errors_Join
               (Some (New ''snapshot entry changed while opening'' [path])) (close_error file)))
         in case opened_stat file of
              Inl _ \<Rightarrow> changed
            | Inr opened \<Rightarrow> if inode info \<noteq> inode opened then changed else Inr file))"

definition readRegular :: "fs \<Rightarrow> string \<Rightarrow> bytes res" where
  "readRegular f path =
     rbind (openRegular f path) (\<lambda>file.
       case errors_Join (read_error file) (close_error file) of
         Some e \<Rightarrow> Inl e
       | None \<Rightarrow> Inr (contents file))"

definition hash :: "'l lib_scheme \<Rightarrow> bytes \<Rightarrow> string" where
  "hash L data = hex_EncodeToString (Sum256 L data)"

text \<open>
  The deferred \<^verbatim>\<open>returnErr = errors.Join(returnErr, file.Close())\<close>.
\<close>

definition join_close :: "'a res \<Rightarrow> go_error option \<Rightarrow> 'a res" where
  "join_close r close =
     (case r of
        Inl e \<Rightarrow> Inl (the (errors_Join (Some e) close))
      | Inr x \<Rightarrow> (case errors_Join None close of None \<Rightarrow> Inr x | Some e \<Rightarrow> Inl e))"

definition hashRegularFile :: "'l lib_scheme \<Rightarrow> fs \<Rightarrow> string \<Rightarrow> string res" where
  "hashRegularFile L f path =
     rbind (openRegular f path) (\<lambda>file.
       join_close
         (case read_error file of
            Some e \<Rightarrow> Inl e
          | None \<Rightarrow> Inr (hex_EncodeToString (Sum256 L (contents file))))
         (close_error file))"

definition decodeJSON :: "'l lib_scheme \<Rightarrow> (bytes \<Rightarrow> ('a \<times> bytes) res) \<Rightarrow> bytes \<Rightarrow> 'a res" where
  "decodeJSON L decode data =
     rbind (decode data) (\<lambda>(target, rest).
       case decode_any L rest of
         Inl e \<Rightarrow> if errors_Is e EOF then Inr target else Inl (New ''multiple JSON values'' [])
       | Inr _ \<Rightarrow> Inl (New ''multiple JSON values'' []))"

subsection \<open>inputs.go\<close>

record input_file =
  input_path :: string
  input_data :: bytes

definition readInput :: "fs \<Rightarrow> string \<Rightarrow> input_file res" where
  "readInput f p =
     rbind (Lstat f p) (\<lambda>info.
       if \<not> is_regular info then Inl (New ''input is not a regular file'' [p])
       else rbind (ReadFile f p) (\<lambda>d. Inr \<lparr>input_path = p, input_data = d\<rparr>))"

definition input_revalidate :: "fs \<Rightarrow> input_file \<Rightarrow> unit res" where
  "input_revalidate f input =
     rbind (readInput f (input_path input)) (\<lambda>current.
       if input_data current \<noteq> input_data input then Inl (New ''input changed during import'' [input_path input])
       else Inr ())"

definition input_sha256 :: "'l lib_scheme \<Rightarrow> input_file \<Rightarrow> string" where
  "input_sha256 L input = hex_EncodeToString (Sum256 L (input_data input))"

subsection \<open>What success means\<close>

lemma openRegular_Inr [file_simps]:
  "openRegular f p = Inr file \<longleftrightarrow>
     (\<exists>info st. Lstat f p = Inr info \<and> is_regular info \<and> Open f p = Inr file \<and>
        opened_stat file = Inr st \<and> inode st = inode info)"
  by (auto simp: openRegular_def Let_def)

lemma errors_Join_None [simp]: "errors_Join a b = None \<longleftrightarrow> a = None \<and> b = None"
  by (cases a; cases b) auto

lemma readRegular_Inr [file_simps]:
  "readRegular f p = Inr bs \<longleftrightarrow>
     (\<exists>file. openRegular f p = Inr file \<and> read_error file = None \<and> close_error file = None \<and> contents file = bs)"
  by (auto simp: readRegular_def)

lemma join_close_Inr [simp]: "join_close r c = Inr x \<longleftrightarrow> r = Inr x \<and> c = None"
  by (cases r; cases c) (auto simp: join_close_def)

lemma hashRegularFile_Inr:
  "hashRegularFile L f p = Inr h \<longleftrightarrow> (\<exists>bs. readRegular f p = Inr bs \<and> h = hash L bs)"
  by (auto simp: hashRegularFile_def readRegular_Inr hash_def)

lemma decodeJSON_Inr [file_simps]:
  "decodeJSON L decode bs = Inr x \<longleftrightarrow>
     (\<exists>rest e. decode bs = Inr (x, rest) \<and> decode_any L rest = Inl e \<and> errors_Is e EOF)"
  by (auto simp: decodeJSON_def)

lemma readInput_Inr [file_simps]:
  "readInput f p = Inr i \<longleftrightarrow>
     input_path i = p \<and> ReadFile f p = Inr (input_data i) \<and> (\<exists>info. Lstat f p = Inr info \<and> is_regular info)"
  by (cases i) (auto simp: readInput_def)

lemma input_revalidate_Inr [file_simps]:
  "input_revalidate f i = Inr () \<longleftrightarrow>
     ReadFile f (input_path i) = Inr (input_data i) \<and> (\<exists>info. Lstat f (input_path i) = Inr info \<and> is_regular info)"
  by (auto simp: input_revalidate_def readInput_Inr)

end
