(* ===== verification/Stream.thy ===== *)
theory Stream
  imports Codec Files
begin

text \<open>
  \<^verbatim>\<open>internal/fabricsnapshot/stream.go\<close> with the types of \<^verbatim>\<open>metadata.go\<close>,
  \<^verbatim>\<open>additional_metadata.go\<close>, \<^verbatim>\<open>namespace.go\<close> and
  \<^verbatim>\<open>record.go\<close>: opening a snapshot directory, walking its records and checking it
  again. A walk hands each record to a callback that threads a state, as the closures of
  \<^verbatim>\<open>import.go\<close> and \<^verbatim>\<open>config.go\<close> do. The lemmas separate the two: a walk is
  the parse of the file followed by the callback on every parsed record, and the parse is what the
  later theories reason about.
\<close>

subsection \<open>Types\<close>

record metadata =
  ChannelName :: string
  LastBlockNumber :: uint64
  LastBlockHash :: string
  PreviousBlockHash :: string
  SnapshotFilesRawHashes :: "(string, string) gomap"
  StateDBType :: string

record additional_metadata =
  SnapshotHash :: string
  LastBlockCommitHash :: string

text \<open>\<open>Value\<close> and \<open>Metadata\<close> are nil (\<open>None\<close>) when the record has no such field.\<close>

record snapshot_record =
  rNamespace :: string
  rKey :: bytes
  rValue :: "bytes option"
  rMetadata :: "bytes option"

record snapshot_stream =
  Directory :: string
  Metadata :: metadata
  AdditionalMetadata :: additional_metadata
  PublicNamespaces :: "namespace list"
  PrivateHashNamespaces :: "namespace list"
  fileHashes :: "(string, string) gomap"

record snapshot_lib = lib +
  decode_metadata :: "bytes \<Rightarrow> (metadata \<times> bytes) res"
  decode_additional :: "bytes \<Rightarrow> (additional_metadata \<times> bytes) res"

text \<open>A Go map of strings returns the empty string for a missing key.\<close>

definition lookup_string :: "(string, string) gomap \<Rightarrow> string \<Rightarrow> string" where
  "lookup_string m k = (case map_of m k of None \<Rightarrow> [] | Some v \<Rightarrow> v)"

subsection \<open>Namespaces\<close>

definition SplitHashNamespace :: "string \<Rightarrow> (string \<times> string) res" where
  "SplitHashNamespace name =
     (case Cut name ''$$h'' of (namespace, collection, ok) \<Rightarrow>
       if \<not> ok \<or> namespace = [] \<or> collection = [] \<or> Contains collection ''$$''
       then Inl (New ''invalid private hash namespace'' [name])
       else Inr (namespace, collection))"

fun check_order :: "string \<Rightarrow> namespace list \<Rightarrow> unit res" where
  "check_order name (a # b # nss) =
     (if Name a \<ge> Name b then Inl (New ''namespaces are not strictly ordered'' [name])
      else check_order name (b # nss))"
| "check_order name nss = Inr ()"

definition readNamespaces :: "'l lib_scheme \<Rightarrow> fs \<Rightarrow> snapshot_stream \<Rightarrow> string \<Rightarrow> namespace list res" where
  "readNamespaces L f s pfx =
     (let name = pfx @ ''.metadata'' in
      rbind (readRegular f (filepath_Join (Directory s) name)) (\<lambda>bs.
        if hash L bs \<noteq> lookup_string (fileHashes s) name
        then Inl (New ''snapshot file hash mismatch'' [name])
        else rbind (decodeNamespaces name bs) (\<lambda>namespaces.
          rbind (check_order name namespaces) (\<lambda>_. Inr namespaces))))"

subsection \<open>OpenStream\<close>

definition signable_name :: string where
  "signable_name = ''_snapshot_signable_metadata.json''"

definition additional_name :: string where
  "additional_name = ''_snapshot_additional_metadata.json''"

text \<open>The checks on the two metadata files, before the directory is looked at.\<close>

definition check_metadata ::
  "'l lib_scheme \<Rightarrow> bytes \<Rightarrow> metadata \<Rightarrow> additional_metadata \<Rightarrow> unit res" where
  "check_metadata L signable m extra =
     (let raw = SnapshotFilesRawHashes m in
      if ChannelName m = [] \<or> StateDBType m = [] \<or> raw = [] then Inl (New ''incomplete snapshot metadata'' [])
      else if StateDBType m \<noteq> ''SimpleKeyValueDB'' \<and> StateDBType m \<noteq> ''CouchDB''
      then Inl (New ''unsupported Fabric state database'' [StateDBType m])
      else if hash L signable \<noteq> SnapshotHash extra
      then Inl (New ''snapshot signable metadata hash mismatch'' [])
      else if \<not> has_key raw ''public_state.data'' then Inl (New ''snapshot is missing public_state.data'' [])
      else if \<not> has_key raw ''public_state.metadata'' then Inl (New ''snapshot is missing public_state.metadata'' [])
      else if has_key raw ''private_state_hashes.data'' \<noteq> has_key raw ''private_state_hashes.metadata''
      then Inl (New ''snapshot has incomplete private_state_hashes file pair'' [])
      else Inr ())"

definition check_name :: "string \<Rightarrow> unit res" where
  "check_name name =
     (if name = [] \<or> name = ''.'' \<or> name = ''..'' \<or> filepath_Base name \<noteq> name \<or> HasPrefix name ''_snapshot_''
      then Inl (New ''invalid snapshot file name'' [name]) else Inr ())"

definition check_entry :: "string list \<Rightarrow> string \<Rightarrow> unit res" where
  "check_entry allowed entry =
     (if entry \<notin> set allowed then Inl (New ''unexpected snapshot entry'' [entry]) else Inr ())"

definition check_hash ::
  "'l lib_scheme \<Rightarrow> fs \<Rightarrow> string \<Rightarrow> (string, string) gomap \<Rightarrow> string \<Rightarrow> unit res" where
  "check_hash L f directory hashes name =
     rbind (hashRegularFile L f (filepath_Join directory name)) (\<lambda>actual.
       if actual \<noteq> lookup_string hashes name then Inl (New ''snapshot file hash mismatch'' [name])
       else Inr ())"

definition check_hash_namespace :: "namespace \<Rightarrow> unit res" where
  "check_hash_namespace ns = rbind (SplitHashNamespace (Name ns)) (\<lambda>_. Inr ())"

definition OpenStream :: "'l snapshot_lib_scheme \<Rightarrow> fs \<Rightarrow> string \<Rightarrow> snapshot_stream res" where
  "OpenStream L f directory =
     rbind (Lstat f directory) (\<lambda>info.
     if \<not> is_dir info then Inl (New ''snapshot path is not a directory'' [directory]) else
     rbind (readRegular f (filepath_Join directory signable_name)) (\<lambda>signable.
     rbind (readRegular f (filepath_Join directory additional_name)) (\<lambda>additional.
     rbind (wrapped [''decode signable metadata''] (decodeJSON L (decode_metadata L) signable)) (\<lambda>m.
     rbind (wrapped [''decode additional metadata''] (decodeJSON L (decode_additional L) additional)) (\<lambda>extra.
     rbind (check_metadata L signable m extra) (\<lambda>_.
     let raw = SnapshotFilesRawHashes m;
         hashData = has_key raw ''private_state_hashes.data'';
         allowed = signable_name # additional_name # keys raw in
     rbind (check_all check_name (keys raw)) (\<lambda>_.
     rbind (ReadDir f directory) (\<lambda>entries.
     rbind (check_all (check_entry allowed) entries) (\<lambda>_.
     rbind (check_all (check_hash L f directory raw) (sortedKeys raw)) (\<lambda>_.
     let hashes = AList.update additional_name (hash L additional)
                    (AList.update signable_name (hash L signable) raw);
         s = \<lparr>Directory = directory, Metadata = m, AdditionalMetadata = extra,
              PublicNamespaces = [], PrivateHashNamespaces = [], fileHashes = hashes\<rparr> in
     rbind (readNamespaces L f s ''public_state'') (\<lambda>public.
     let s = s\<lparr>PublicNamespaces := public\<rparr> in
     if hashData then
       rbind (readNamespaces L f s ''private_state_hashes'') (\<lambda>private.
       rbind (check_all check_hash_namespace private) (\<lambda>_.
         Inr (s\<lparr>PrivateHashNamespaces := private\<rparr>)))
     else Inr s)))))))))))"

subsection \<open>Revalidate\<close>

definition revalidate_entry ::
  "'l lib_scheme \<Rightarrow> fs \<Rightarrow> snapshot_stream \<Rightarrow> string \<Rightarrow> unit res" where
  "revalidate_entry L f s entry =
     (case map_of (fileHashes s) entry of
        None \<Rightarrow> Inl (New ''unexpected snapshot entry'' [entry])
      | Some expected \<Rightarrow>
          rbind (hashRegularFile L f (filepath_Join (Directory s) entry)) (\<lambda>actual.
            if actual \<noteq> expected then Inl (New ''snapshot file hash mismatch'' [entry]) else Inr ()))"

definition Revalidate :: "'l lib_scheme \<Rightarrow> fs \<Rightarrow> snapshot_stream \<Rightarrow> unit res" where
  "Revalidate L f s =
     rbind (ReadDir f (Directory s)) (\<lambda>entries.
       if length entries \<noteq> length (fileHashes s)
       then Inl (New ''snapshot file set changed after validation'' [])
       else check_all (revalidate_entry L f s) entries)"

subsection \<open>Walking the records\<close>

definition readSized :: "reader \<Rightarrow> (bytes \<times> reader) res" where
  "readSized r =
     rbind (ReadUvarint r) (\<lambda>(size, r).
       if size > 0x7FFFFFFFFFFFFFFF then Inl (New ''record is too large'' [])
       else if length (remaining r) < unat size then Inl (at_end r)
       else Inr (take (unat size) (remaining r), r\<lparr>remaining := drop (unat size) (remaining r)\<rparr>))"

definition private_prefix :: string where
  "private_prefix = ''private_state_hashes''"

text \<open>The bytes by which consecutive keys are compared.\<close>

definition order_key :: "snapshot_stream \<Rightarrow> string \<Rightarrow> bytes \<Rightarrow> bytes" where
  "order_key s pfx key =
     (if pfx = private_prefix \<and> StateDBType (Metadata s) = ''CouchDB''
      then bytes_of_string (base64_EncodeToString key) else key)"

text \<open>The body of the record loop up to the call of \<^verbatim>\<open>yield\<close>.\<close>

definition read_record ::
  "snapshot_stream \<Rightarrow> string \<Rightarrow> string \<Rightarrow> bytes option \<Rightarrow> reader \<Rightarrow> (snapshot_record \<times> bytes \<times> reader) res" where
  "read_record s pfx namespace previousKey r =
     (let name = pfx @ ''.data'' in
      rbind (wrapped [name] (readSized r)) (\<lambda>(raw, r).
      rbind (wrapped [name] (protobufBytes raw)) (\<lambda>fields.
        case (fields 1, fields 4) of
          (Some key, Some sourceVersion) \<Rightarrow>
            if length key = 0 then Inl (New ''incomplete snapshot record'' [name])
            else if pfx = private_prefix \<and>
              (length key \<noteq> 32 \<or> length (case fields 2 of None \<Rightarrow> [] | Some v \<Rightarrow> v) \<noteq> 32)
            then Inl (New ''key and value must be SHA-256 hashes'' [name])
            else let orderKey = order_key s pfx key in
              if (case previousKey of None \<Rightarrow> False | Some p \<Rightarrow> p \<ge> orderKey)
              then Inl (New ''keys are not strictly ordered in namespace'' [name, namespace])
              else rbind (wrapped [name] (decodeHeight sourceVersion)) (\<lambda>(block, _).
                if block > LastBlockNumber (Metadata s)
                then Inl (New ''key version is after the snapshot checkpoint'' [name])
                else Inr (\<lparr>rNamespace = namespace, rKey = key, rValue = fields 2, rMetadata = fields 3\<rparr>,
                          orderKey, r))
        | _ \<Rightarrow> Inl (New ''incomplete snapshot record'' [name]))))"

type_synonym 's callback = "(snapshot_record \<Rightarrow> 's \<Rightarrow> 's res) option"

definition call_yield :: "'s callback \<Rightarrow> snapshot_record \<Rightarrow> 's \<Rightarrow> 's res" where
  "call_yield yield record st = (case yield of None \<Rightarrow> Inr st | Some y \<Rightarrow> y record st)"

fun walk_namespace ::
  "snapshot_stream \<Rightarrow> string \<Rightarrow> string \<Rightarrow> 's callback \<Rightarrow> nat \<Rightarrow> bytes option \<Rightarrow> reader \<Rightarrow> 's \<Rightarrow> (reader \<times> 's) res" where
  "walk_namespace s pfx namespace yield 0 previousKey r st = Inr (r, st)"
| "walk_namespace s pfx namespace yield (Suc n) previousKey r st =
     rbind (read_record s pfx namespace previousKey r) (\<lambda>(record, orderKey, r).
     rbind (call_yield yield record st) (\<lambda>st.
       walk_namespace s pfx namespace yield n (Some orderKey) r st))"

definition walk_namespaces ::
  "snapshot_stream \<Rightarrow> string \<Rightarrow> 's callback \<Rightarrow> namespace list \<Rightarrow> reader \<Rightarrow> 's \<Rightarrow> (reader \<times> 's) res" where
  "walk_namespaces s pfx yield namespaces r st =
     rfold (\<lambda>ns (r, st). walk_namespace s pfx (Name ns) yield (unat (Records ns)) None r st)
       namespaces (r, st)"

text \<open>After the last record: nothing may follow, and the bytes read must have the recorded hash.\<close>

definition walk_end :: "'l lib_scheme \<Rightarrow> snapshot_stream \<Rightarrow> string \<Rightarrow> bytes \<Rightarrow> reader \<Rightarrow> unit res" where
  "walk_end L s name file_bytes r =
     (case ReadByte r of
        Inr _ \<Rightarrow> Inl (New ''trailing bytes'' [name])
      | Inl e \<Rightarrow>
          if \<not> errors_Is e EOF then Inl (Wrap [name] e)
          else if hex_EncodeToString (Sum256 L file_bytes) \<noteq> lookup_string (fileHashes s) name
          then Inl (New ''snapshot file hash mismatch'' [name])
          else Inr ())"

definition walkRecords ::
  "'l lib_scheme \<Rightarrow> fs \<Rightarrow> snapshot_stream \<Rightarrow> string \<Rightarrow> 's callback \<Rightarrow> 's \<Rightarrow> 's res" where
  "walkRecords L f s pfx yield st =
     rbind (readNamespaces L f s pfx) (\<lambda>namespaces.
     let name = pfx @ ''.data'' in
     rbind (openRegular f (filepath_Join (Directory s) name)) (\<lambda>file.
       join_close
         (let reader = \<lparr>remaining = contents file,
                        at_end = (case read_error file of None \<Rightarrow> EOF | Some e \<Rightarrow> e)\<rparr> in
          rbind (wrapped [name] (ReadByte reader)) (\<lambda>(version, r).
            if version \<noteq> formatVersion then Inl (New ''unsupported format byte'' [name])
            else rbind (walk_namespaces s pfx yield namespaces r st) (\<lambda>(r, st).
              rbind (walk_end L s name (contents file) r) (\<lambda>_. Inr st))))
         (close_error file)))"

definition WalkPublicRecords :: "'l lib_scheme \<Rightarrow> fs \<Rightarrow> snapshot_stream \<Rightarrow> 's callback \<Rightarrow> 's \<Rightarrow> 's res" where
  "WalkPublicRecords L f s yield st = walkRecords L f s ''public_state'' yield st"

definition WalkPrivateHashRecords :: "'l lib_scheme \<Rightarrow> fs \<Rightarrow> snapshot_stream \<Rightarrow> 's callback \<Rightarrow> 's \<Rightarrow> 's res" where
  "WalkPrivateHashRecords L f s yield st =
     (if \<not> has_key (fileHashes s) ''private_state_hashes.data'' then Inr st
      else walkRecords L f s private_prefix yield st)"

subsection \<open>A walk is a parse followed by the callback\<close>

text \<open>The parse of one namespace and of a file, with no callback.\<close>

fun parse_namespace ::
  "snapshot_stream \<Rightarrow> string \<Rightarrow> string \<Rightarrow> nat \<Rightarrow> bytes option \<Rightarrow> reader \<Rightarrow> (snapshot_record list \<times> reader) res" where
  "parse_namespace s pfx namespace 0 previousKey r = Inr ([], r)"
| "parse_namespace s pfx namespace (Suc n) previousKey r =
     rbind (read_record s pfx namespace previousKey r) (\<lambda>(record, orderKey, r).
     rbind (parse_namespace s pfx namespace n (Some orderKey) r) (\<lambda>(records, r).
       Inr (record # records, r)))"

fun parse_namespaces ::
  "snapshot_stream \<Rightarrow> string \<Rightarrow> namespace list \<Rightarrow> reader \<Rightarrow> (snapshot_record list \<times> reader) res" where
  "parse_namespaces s pfx [] r = Inr ([], r)"
| "parse_namespaces s pfx (ns # nss) r =
     rbind (parse_namespace s pfx (Name ns) (unat (Records ns)) None r) (\<lambda>(records, r).
     rbind (parse_namespaces s pfx nss r) (\<lambda>(more, r). Inr (records @ more, r)))"

lemma walk_namespace_iff:
  "walk_namespace s pfx ns yield n prev r st = Inr (r', st') \<longleftrightarrow>
     (\<exists>recs. parse_namespace s pfx ns n prev r = Inr (recs, r') \<and>
             rfold (call_yield yield) recs st = Inr st')"
proof (induction n arbitrary: prev r st)
  case 0
  then show ?case by auto
next
  case (Suc n)
  show ?case by (auto simp: Suc.IH)
qed

lemma walk_namespaces_iff:
  "walk_namespaces s pfx yield nss r st = Inr (r', st') \<longleftrightarrow>
     (\<exists>recs. parse_namespaces s pfx nss r = Inr (recs, r') \<and>
             rfold (call_yield yield) recs st = Inr st')"
proof (induction nss arbitrary: r st)
  case Nil
  then show ?case by (auto simp: walk_namespaces_def)
next
  case (Cons ns nss)
  have "walk_namespaces s pfx yield (ns # nss) r st = Inr (r', st') \<longleftrightarrow>
      (\<exists>r1 st1. walk_namespace s pfx (Name ns) yield (unat (Records ns)) None r st = Inr (r1, st1) \<and>
         walk_namespaces s pfx yield nss r1 st1 = Inr (r', st'))"
    by (auto simp: walk_namespaces_def)
  then show ?case
    by (auto simp: Cons.IH walk_namespace_iff rfold_append)
qed

text \<open>What the file at \<open>pfx\<close> holds: the result of walking it with a callback that collects.\<close>

definition collect :: "snapshot_record \<Rightarrow> snapshot_record list \<Rightarrow> snapshot_record list res" where
  "collect record acc = Inr (acc @ [record])"

definition snapshot_records :: "'l lib_scheme \<Rightarrow> fs \<Rightarrow> snapshot_stream \<Rightarrow> string \<Rightarrow> snapshot_record list res" where
  "snapshot_records L f s pfx = walkRecords L f s pfx (Some collect) []"

lemma rfold_collect [simp]: "rfold (call_yield (Some collect)) recs acc = Inr (acc @ recs)"
  by (induction recs arbitrary: acc) (auto simp: call_yield_def collect_def)

definition file_reader :: "opened_file \<Rightarrow> bytes \<Rightarrow> reader" where
  "file_reader file rest =
     \<lparr>remaining = rest, at_end = (case read_error file of None \<Rightarrow> EOF | Some e \<Rightarrow> e)\<rparr>"

lemma walkRecords_parse:
  "walkRecords L f s pfx yield st = Inr st' \<longleftrightarrow>
     (\<exists>nss file body recs r. readNamespaces L f s pfx = Inr nss \<and>
        openRegular f (filepath_Join (Directory s) (pfx @ ''.data'')) = Inr file \<and>
        close_error file = None \<and> contents file = formatVersion # body \<and>
        parse_namespaces s pfx nss (file_reader file body) = Inr (recs, r) \<and>
        walk_end L s (pfx @ ''.data'') (contents file) r = Inr () \<and>
        rfold (call_yield yield) recs st = Inr st')"
  by (auto simp: walkRecords_def Let_def walk_namespaces_iff file_reader_def)

theorem walkRecords_iff:
  "walkRecords L f s pfx yield st = Inr st' \<longleftrightarrow>
     (\<exists>recs. snapshot_records L f s pfx = Inr recs \<and> rfold (call_yield yield) recs st = Inr st')"
  unfolding snapshot_records_def walkRecords_parse by auto

subsection \<open>What a successful parse has checked\<close>

definition record_wf :: "snapshot_stream \<Rightarrow> string \<Rightarrow> snapshot_record \<Rightarrow> bool" where
  "record_wf s pfx rec \<longleftrightarrow> rKey rec \<noteq> [] \<and>
     (pfx = private_prefix \<longrightarrow> length (rKey rec) = 32 \<and> (\<exists>v. rValue rec = Some v \<and> length v = 32))"

definition rOrder :: "snapshot_stream \<Rightarrow> string \<Rightarrow> snapshot_record \<Rightarrow> bytes" where
  "rOrder s pfx rec = order_key s pfx (rKey rec)"

lemma readSized_Inr:
  "readSized r = Inr (v, r') \<Longrightarrow>
     length (remaining r') < length (remaining r) \<and> at_end r' = at_end r \<and> sublist v (remaining r)"
proof -
  assume "readSized r = Inr (v, r')"
  then obtain size r1 where r1: "ReadUvarint r = Inr (size, r1)" and v: "v = take (unat size) (remaining r1)"
    and r': "r' = r1\<lparr>remaining := drop (unat size) (remaining r1)\<rparr>"
    by (auto simp: readSized_def)
  from r1 obtain k where k: "Uvarint (remaining r) = (size, int k)" "0 < k"
    "r1 = r\<lparr>remaining := drop k (remaining r)\<rparr>"
    by (auto simp: ReadUvarint_iff)
  have "k \<le> length (remaining r)" using Uvarint_bounds [OF k(1)] k(2) by simp
  moreover have "sublist (take (unat size) (drop k (remaining r))) (remaining r)"
    by (meson prefix_imp_sublist sublist_order.order.trans suffix_drop suffix_imp_sublist take_is_prefix)
  ultimately show ?thesis using k(2,3) v r' by simp
qed

lemma read_record_Inr:
  assumes "read_record s pfx ns prev r = Inr (rec, ok, r')"
  shows "rNamespace rec = ns" "record_wf s pfx rec" "ok = rOrder s pfx rec"
    "\<And>p. prev = Some p \<Longrightarrow> p < ok" "length (remaining r') < length (remaining r)"
  using assms
  by (auto simp: read_record_def Let_def record_wf_def rOrder_def not_le
      dest!: readSized_Inr split: option.splits if_splits)

lemma parse_namespace_sound:
  "parse_namespace s pfx ns n prev r = Inr (recs, r') \<Longrightarrow>
     length recs = n \<and> (\<forall>rec \<in> set recs. rNamespace rec = ns \<and> record_wf s pfx rec) \<and>
     sorted_wrt (<) ((case prev of None \<Rightarrow> [] | Some p \<Rightarrow> [p]) @ map (rOrder s pfx) recs) \<and>
     length (remaining r') + n \<le> length (remaining r)"
proof (induction n arbitrary: prev r recs)
  case 0
  then show ?case by (simp split: option.splits)
next
  case (Suc n)
  then obtain rec ok r1 recs1 where step: "read_record s pfx ns prev r = Inr (rec, ok, r1)"
    and rest: "parse_namespace s pfx ns n (Some ok) r1 = Inr (recs1, r')" and recs: "recs = rec # recs1"
    by auto
  note rec = read_record_Inr [OF step]
  from Suc.IH [OF rest] rec(1-3,5) recs show ?case
    by (auto split: option.splits dest: rec(4) intro: less_trans)
qed

lemma parse_namespaces_sound:
  "parse_namespaces s pfx nss r = Inr (recs, r') \<Longrightarrow>
     map rNamespace recs = concat (map (\<lambda>ns. replicate (unat (Records ns)) (Name ns)) nss) \<and>
     (\<forall>rec \<in> set recs. record_wf s pfx rec) \<and>
     length (remaining r') + length recs \<le> length (remaining r)"
proof (induction nss arbitrary: r recs)
  case (Cons ns nss)
  then obtain recs1 r1 recs2 where 1: "parse_namespace s pfx (Name ns) (unat (Records ns)) None r = Inr (recs1, r1)"
    and 2: "parse_namespaces s pfx nss r1 = Inr (recs2, r')" and recs: "recs = recs1 @ recs2"
    by auto
  have "map rNamespace recs1 = replicate (unat (Records ns)) (Name ns)"
    using parse_namespace_sound [OF 1] by (intro replicate_eqI) auto
  with parse_namespace_sound [OF 1] Cons.IH [OF 2] recs show ?case by auto
qed simp

text \<open>The code's choice of rendering keeps keys apart in every snapshot and file.\<close>

interpretation stream_order: key_order "order_key s pfx" for s pfx
  by unfold_locales (auto simp: order_key_def split: if_splits dest: couch.render_inject)

definition record_id :: "snapshot_record \<Rightarrow> string \<times> bytes" where
  "record_id rec = (rNamespace rec, rKey rec)"

lemma parse_namespace_distinct:
  assumes "parse_namespace s pfx ns n None r = Inr (recs, r')"
  shows "distinct (map record_id recs)"
proof -
  have "sorted_wrt (<) (map (order_key s pfx) (map rKey recs))"
    using parse_namespace_sound [OF assms] by (simp add: rOrder_def [abs_def] comp_def)
  then have "distinct (map rKey recs)" by (rule stream_order.ordered_distinct)
  then have "distinct (map (snd \<circ> record_id) recs)" by (simp add: record_id_def comp_def)
  then show ?thesis by (metis distinct_map list.map_comp)
qed

lemma parse_namespaces_distinct:
  "parse_namespaces s pfx nss r = Inr (recs, r') \<Longrightarrow> distinct (map Name nss) \<Longrightarrow>
   distinct (map record_id recs) \<and> rNamespace ` set recs \<subseteq> Name ` set nss"
proof (induction nss arbitrary: r recs)
  case (Cons ns nss)
  then obtain recs1 r1 recs2 where 1: "parse_namespace s pfx (Name ns) (unat (Records ns)) None r = Inr (recs1, r1)"
    and 2: "parse_namespaces s pfx nss r1 = Inr (recs2, r')" and recs: "recs = recs1 @ recs2"
    by auto
  have ns: "\<forall>rec \<in> set recs1. rNamespace rec = Name ns" using parse_namespace_sound [OF 1] by blast
  moreover have IH: "distinct (map record_id recs2)" "rNamespace ` set recs2 \<subseteq> Name ` set nss"
    using Cons.IH [OF 2] Cons.prems(2) by auto
  ultimately have "record_id ` set recs1 \<inter> record_id ` set recs2 = {}"
    using Cons.prems(2) by (auto simp: record_id_def)
  with IH ns parse_namespace_distinct [OF 1] recs show ?case by auto
qed simp

lemma check_order_Inr: "check_order name nss = Inr u \<longleftrightarrow> sorted_wrt (<) (map Name nss)"
  by (induction name nss rule: check_order.induct) (auto simp: not_le, meson less_trans)

lemma readNamespaces_Inr [file_simps]:
  "readNamespaces L f s pfx = Inr nss \<longleftrightarrow>
     (\<exists>bs. readRegular f (filepath_Join (Directory s) (pfx @ ''.metadata'')) = Inr bs \<and>
        hash L bs = lookup_string (fileHashes s) (pfx @ ''.metadata'') \<and>
        decodeNamespaces (pfx @ ''.metadata'') bs = Inr nss \<and> sorted_wrt (<) (map Name nss))"
  by (auto simp: readNamespaces_def Let_def check_order_Inr)

lemma readNamespaces_distinct: "readNamespaces L f s pfx = Inr nss \<Longrightarrow> distinct (map Name nss)"
  by (auto simp: readNamespaces_Inr intro: sorted_wrt_less_distinct)

lemma snapshot_records_parse:
  "snapshot_records L f s pfx = Inr recs \<longleftrightarrow>
     (\<exists>nss file body r. readNamespaces L f s pfx = Inr nss \<and>
        openRegular f (filepath_Join (Directory s) (pfx @ ''.data'')) = Inr file \<and>
        close_error file = None \<and> contents file = formatVersion # body \<and>
        parse_namespaces s pfx nss (file_reader file body) = Inr (recs, r) \<and>
        walk_end L s (pfx @ ''.data'') (contents file) r = Inr ())"
  unfolding snapshot_records_def walkRecords_parse by auto

lemma ReadByte_Inr: "ReadByte r = Inr (b, r') \<longleftrightarrow> (\<exists>bs. remaining r = b # bs \<and> r' = r\<lparr>remaining := bs\<rparr>)"
  by (auto split: list.splits)

lemma walk_end_Inr [file_simps]:
  "walk_end L s name bs r = Inr u \<longleftrightarrow>
     remaining r = [] \<and> errors_Is (at_end r) EOF \<and> hash L bs = lookup_string (fileHashes s) name"
  by (auto simp: walk_end_def hash_def split: list.splits)

lemma snapshot_records_sound:
  assumes "snapshot_records L f s pfx = Inr recs" "readNamespaces L f s pfx = Inr nss"
  shows "map rNamespace recs = concat (map (\<lambda>ns. replicate (unat (Records ns)) (Name ns)) nss)"
    and "\<forall>rec \<in> set recs. record_wf s pfx rec"
    and "distinct (map record_id recs)"
proof -
  from assms obtain r r' where "parse_namespaces s pfx nss r = Inr (recs, r')"
    by (auto simp: snapshot_records_parse)
  with parse_namespaces_sound [OF this] parse_namespaces_distinct [OF this readNamespaces_distinct [OF assms(2)]]
  show "map rNamespace recs = concat (map (\<lambda>ns. replicate (unat (Records ns)) (Name ns)) nss)"
    "\<forall>rec \<in> set recs. record_wf s pfx rec" "distinct (map record_id recs)" by auto
qed

text \<open>The bytes that were walked have the hash the snapshot recorded for the file.\<close>

lemma snapshot_records_hash:
  assumes "snapshot_records L f s pfx = Inr recs"
  shows "\<exists>file. openRegular f (filepath_Join (Directory s) (pfx @ ''.data'')) = Inr file \<and>
    hash L (contents file) = lookup_string (fileHashes s) (pfx @ ''.data'') \<and>
    length recs < length (contents file)"
proof -
  from assms obtain nss opened body r where
    opened: "openRegular f (filepath_Join (Directory s) (pfx @ ''.data'')) = Inr opened"
      "contents opened = formatVersion # body"
    and parse: "parse_namespaces s pfx nss (file_reader opened body) = Inr (recs, r)"
    and finish: "walk_end L s (pfx @ ''.data'') (contents opened) r = Inr ()"
    by (auto simp: snapshot_records_parse)
  have "length recs \<le> length body"
    using parse_namespaces_sound [OF parse] by (simp add: file_reader_def)
  with opened finish show ?thesis by (intro exI [of _ opened]) (simp add: file_simps)
qed

subsection \<open>Every well-formed file is accepted\<close>

text \<open>
  The fixtures' writer of a data file: the format byte, then each record with its version as a
  sized message. The version is the pair of big-endian byte strings of a height.
\<close>

type_synonym versioned_record = "snapshot_record \<times> bytes \<times> bytes"

definition optional_field :: "byte \<Rightarrow> bytes option \<Rightarrow> (byte \<times> bytes) list" where
  "optional_field n v = (case v of None \<Rightarrow> [] | Some bs \<Rightarrow> [(n, bs)])"

definition message_fields :: "versioned_record \<Rightarrow> (byte \<times> bytes) list" where
  "message_fields vr = (case vr of (rec, block, transaction) \<Rightarrow>
     [(1, rKey rec)] @ optional_field 2 (rValue rec) @ optional_field 3 (rMetadata rec) @
     [(4, height_bytes block transaction)])"

definition data_file :: "versioned_record list \<Rightarrow> bytes" where
  "data_file vrs = formatVersion # concat (map (\<lambda>vr. appendSized [] (record_bytes (message_fields vr))) vrs)"

text \<open>What a peer that exports a snapshot guarantees of each record.\<close>

definition writable_record :: "snapshot_stream \<Rightarrow> string \<Rightarrow> versioned_record \<Rightarrow> bool" where
  "writable_record s pfx vr = (case vr of (rec, block, transaction) \<Rightarrow>
     record_wf s pfx rec \<and> length block \<le> 8 \<and> length transaction \<le> 8 \<and>
     of_nat (be_value block) \<le> LastBlockNumber (Metadata s) \<and>
     length (record_bytes (message_fields vr)) < 2 ^ 63)"

lemma readSized_bytes:
  assumes "length v < 2 ^ 63"
  shows "readSized \<lparr>remaining = appendSized [] v @ rest, at_end = e\<rparr> = Inr (v, \<lparr>remaining = rest, at_end = e\<rparr>)"
proof -
  have len: "unat (of_nat (length v) :: uint64) = length v" using assms by (intro unat_of_nat64) simp
  with assms have "\<not> of_nat (length v) > (0x7FFFFFFFFFFFFFFF :: uint64)"
    by (simp add: word_less_nat_alt)
  with len show ?thesis
    by (simp add: readSized_def appendSized_bytes ReadUvarint_bytes)
qed

lemma length_appendSized: "length v \<le> length (appendSized [] v)"
  by (simp add: appendSized_bytes)

lemma length_record_bytes: "(f, v) \<in> set fs \<Longrightarrow> length v \<le> length (record_bytes fs)"
proof (induction fs)
  case (Cons p fs)
  obtain g w where p: "p = (g, w)" by (cases p)
  have "length w \<le> length (appendField [] g w)"
    using length_appendSized [of w] by (simp add: appendField_def appendSized_append [of "[_]"])
  with Cons p show ?case by (auto simp: codec_simps)
qed simp

lemma message_writable:
  assumes "writable_record s pfx vr"
  shows "writable_fields (message_fields vr)"
proof -
  have "length v < 2 ^ 64" if "(f, v) \<in> set (message_fields vr)" for f v
    using length_record_bytes [OF that] assms by (auto simp: writable_record_def split: prod.splits)
  then have len: "\<forall>(f, v) \<in> set (message_fields vr). length v < 2 ^ 64" by blast
  have "distinct (map fst (message_fields vr)) \<and> (\<forall>(f, v) \<in> set (message_fields vr). field_number f)"
    by (auto simp: message_fields_def optional_field_def field_number_def split: prod.splits option.splits)
  with len show ?thesis by (fastforce simp: writable_fields_def)
qed

lemma message_field_map:
  "field_map (message_fields (rec, block, transaction)) 1 = Some (rKey rec)"
  "field_map (message_fields (rec, block, transaction)) 2 = rValue rec"
  "field_map (message_fields (rec, block, transaction)) 3 = rMetadata rec"
  "field_map (message_fields (rec, block, transaction)) 4 = Some (height_bytes block transaction)"
  by (auto simp: message_fields_def optional_field_def codec_simps split: option.splits)

lemma read_record_bytes:
  assumes "writable_record s pfx (rec, block, transaction)" "rNamespace rec = ns"
    "\<And>p. prev = Some p \<Longrightarrow> p < rOrder s pfx rec"
  shows "read_record s pfx ns prev
      \<lparr>remaining = appendSized [] (record_bytes (message_fields (rec, block, transaction))) @ rest, at_end = e\<rparr> =
    Inr (rec, rOrder s pfx rec, \<lparr>remaining = rest, at_end = e\<rparr>)"
proof -
  let ?m = "record_bytes (message_fields (rec, block, transaction))"
  note wr = assms(1) [unfolded writable_record_def, simplified]
  have parse: "protobufBytes ?m = Inr (field_map (message_fields (rec, block, transaction)))"
    by (rule protobufBytes_record [OF message_writable [OF assms(1)]])
  have size: "readSized \<lparr>remaining = appendSized [] ?m @ rest, at_end = e\<rparr> = Inr (?m, \<lparr>remaining = rest, at_end = e\<rparr>)"
    using wr by (intro readSized_bytes) simp
  have height: "decodeHeight (height_bytes block transaction) = Inr (of_nat (be_value block), of_nat (be_value transaction))"
    using decodeHeight_bytes [of block transaction "[]"] wr by simp
  have rec: "\<lparr>rNamespace = ns, rKey = rKey rec, rValue = rValue rec, rMetadata = rMetadata rec\<rparr> = rec"
    using assms(2) by simp
  have order: "\<not> (case prev of None \<Rightarrow> False | Some p \<Rightarrow> p \<ge> order_key s pfx (rKey rec))"
    using assms(3) by (auto simp: rOrder_def not_le split: option.splits)
  show ?thesis
    using wr order unfolding read_record_def Let_def size
    by (auto simp: parse message_field_map height rec rOrder_def record_wf_def not_less)
qed

lemma parse_namespace_bytes:
  "\<forall>vr \<in> set vrs. writable_record s pfx vr \<and> rNamespace (fst vr) = ns \<Longrightarrow>
   sorted_wrt (<) ((case prev of None \<Rightarrow> [] | Some p \<Rightarrow> [p]) @ map (rOrder s pfx \<circ> fst) vrs) \<Longrightarrow>
   parse_namespace s pfx ns (length vrs) prev
     \<lparr>remaining = concat (map (\<lambda>vr. appendSized [] (record_bytes (message_fields vr))) vrs) @ rest, at_end = e\<rparr> =
   Inr (map fst vrs, \<lparr>remaining = rest, at_end = e\<rparr>)"
proof (induction vrs arbitrary: prev)
  case (Cons vr vrs)
  obtain rec b t where vr: "vr = (rec, b, t)" by (cases vr)
  let ?rest = "concat (map (\<lambda>vr. appendSized [] (record_bytes (message_fields vr))) vrs) @ rest"
  have "read_record s pfx ns prev
      \<lparr>remaining = appendSized [] (record_bytes (message_fields vr)) @ ?rest, at_end = e\<rparr> =
      Inr (rec, rOrder s pfx rec, \<lparr>remaining = ?rest, at_end = e\<rparr>)"
    unfolding vr by (rule read_record_bytes) (use Cons.prems vr in \<open>auto split: option.splits\<close>)
  moreover have "parse_namespace s pfx ns (length vrs) (Some (rOrder s pfx rec)) \<lparr>remaining = ?rest, at_end = e\<rparr> =
      Inr (map fst vrs, \<lparr>remaining = rest, at_end = e\<rparr>)"
    by (rule Cons.IH) (use Cons.prems vr in \<open>auto split: option.splits\<close>)
  ultimately show ?case by (simp add: vr)
qed simp

definition writable_group :: "snapshot_stream \<Rightarrow> string \<Rightarrow> namespace \<times> versioned_record list \<Rightarrow> bool" where
  "writable_group s pfx g = (case g of (ns, vrs) \<Rightarrow>
     length (Name ns) < 2 ^ 64 \<and> unat (Records ns) = length vrs \<and>
     (\<forall>vr \<in> set vrs. writable_record s pfx vr \<and> rNamespace (fst vr) = Name ns) \<and>
     sorted_wrt (<) (map (rOrder s pfx \<circ> fst) vrs))"

lemma parse_namespaces_bytes:
  "\<forall>g \<in> set groups. writable_group s pfx g \<Longrightarrow>
   parse_namespaces s pfx (map fst groups)
     \<lparr>remaining = concat (map (\<lambda>vr. appendSized [] (record_bytes (message_fields vr))) (concat (map snd groups))), at_end = e\<rparr> =
   Inr (map fst (concat (map snd groups)), \<lparr>remaining = [], at_end = e\<rparr>)"
proof (induction groups)
  case (Cons g groups)
  obtain ns vrs where g: "g = (ns, vrs)" by (cases g)
  from Cons.prems g have wf: "unat (Records ns) = length vrs"
    "\<forall>vr \<in> set vrs. writable_record s pfx vr \<and> rNamespace (fst vr) = Name ns"
    "sorted_wrt (<) ((case None of None \<Rightarrow> [] | Some p \<Rightarrow> [p]) @ map (rOrder s pfx \<circ> fst) vrs)"
    by (auto simp: writable_group_def)
  from Cons.IH Cons.prems show ?case
    by (simp add: g wf(1) parse_namespace_bytes [OF wf(2,3)])
qed simp

theorem snapshot_records_complete:
  assumes meta: "readRegular f (filepath_Join (Directory s) (pfx @ ''.metadata'')) = Inr (namespace_file (map fst groups))"
    and data: "readRegular f (filepath_Join (Directory s) (pfx @ ''.data'')) = Inr (data_file (concat (map snd groups)))"
    and hashes: "hash L (namespace_file (map fst groups)) = lookup_string (fileHashes s) (pfx @ ''.metadata'')"
      "hash L (data_file (concat (map snd groups))) = lookup_string (fileHashes s) (pfx @ ''.data'')"
    and groups: "\<forall>g \<in> set groups. writable_group s pfx g" "length groups < 2 ^ 64"
      "sorted_wrt (<) (map (Name \<circ> fst) groups)"
  shows "snapshot_records L f s pfx = Inr (map fst (concat (map snd groups)))"
proof -
  have "\<forall>ns \<in> set (map fst groups). length (Name ns) < 2 ^ 64"
    using groups(1) by (auto simp: writable_group_def)
  then have "decodeNamespaces (pfx @ ''.metadata'') (namespace_file (map fst groups)) = Inr (map fst groups)"
    using decodeNamespaces_file [of "map fst groups" "pfx @ ''.metadata''" "[]"] groups(2) by simp
  then have "readNamespaces L f s pfx = Inr (map fst groups)"
    using meta hashes(1) groups(3) by (simp add: readNamespaces_Inr comp_def)
  with data hashes(2) parse_namespaces_bytes [OF groups(1)] show ?thesis
    by (auto simp: snapshot_records_parse readRegular_Inr file_reader_def walk_end_Inr data_file_def)
qed

subsection \<open>Hash namespaces\<close>

lemma Cut_unique:
  assumes "\<not> Contains ns ''$$''"
  shows "Cut (ns @ ''$$h'' @ collection) ''$$h'' = (ns, collection, True)"
proof -
  have "cut_at ''$$h'' (ns @ ''$$h'' @ collection) = Some (ns, collection)"
  proof (rule cut_at_append)
    fix u v
    assume eq: "ns @ ''$$h'' @ collection = u @ ''$$h'' @ v"
    show "length ns \<le> length u"
    proof (rule ccontr)
      assume "\<not> length ns \<le> length u"
      moreover obtain w where "ns = u @ w \<and> w @ ''$$h'' @ collection = ''$$h'' @ v \<or> ns @ w = u"
        using eq by (auto simp: append_eq_append_conv2)
      ultimately have ns: "ns = u @ w" and "w \<noteq> []" and w: "w @ ''$$h'' @ collection = ''$$h'' @ v"
        by auto
      then obtain w' where "w = CHR ''$'' # w'" using \<open>w \<noteq> []\<close> by (cases w) auto
      with w have "w' @ ''$$h'' @ collection = ''$h'' @ v" by simp
      then obtain w'' where "w' = CHR ''$'' # w''" "w = ''$$'' @ w''"
        using \<open>w = CHR ''$'' # w'\<close> by (cases w') auto
      with ns assms show False by (auto simp: Contains_iff)
    qed
  qed
  then show ?thesis by (simp add: Cut_def)
qed

lemma SplitHashNamespace_Inr:
  "SplitHashNamespace name = Inr (ns, collection) \<Longrightarrow>
     name = ns @ ''$$h'' @ collection \<and> ns \<noteq> [] \<and> collection \<noteq> [] \<and> \<not> Contains collection ''$$''"
  by (auto simp: SplitHashNamespace_def Cut_def dest: cut_at_Some split: option.splits if_splits)

theorem SplitHashNamespace_join:
  assumes "ns \<noteq> []" "collection \<noteq> []" "\<not> Contains ns ''$$''" "\<not> Contains collection ''$$''"
  shows "SplitHashNamespace (ns @ ''$$h'' @ collection) = Inr (ns, collection)"
  using Cut_unique [OF assms(3), of collection] assms by (simp add: SplitHashNamespace_def)

subsection \<open>What opening a snapshot establishes\<close>

lemma check_name_Inr [file_simps]:
  "check_name name = Inr u \<longleftrightarrow>
     (plain_name name \<or> name = ''/'') \<and> \<not> HasPrefix name ''_snapshot_''"
proof -
  have "HasPrefix ''/'' ''_snapshot_'' = False" by (simp add: HasPrefix_def)
  moreover have "filepath_Base ''/'' = ''/''" by (simp add: filepath_Base_def strip_slashes_def)
  ultimately show ?thesis
    using filepath_Base_self [of name] filepath_Base_plain [of name]
    by (auto simp: check_name_def plain_name_def)
qed

lemma metadata_names:
  "plain_name signable_name" "plain_name additional_name" "signable_name \<noteq> additional_name"
  "HasPrefix signable_name ''_snapshot_''" "HasPrefix additional_name ''_snapshot_''"
  by (simp_all add: plain_name_def signable_name_def additional_name_def HasPrefix_def)

lemma check_hash_Inr [file_simps]:
  "check_hash L f dir hashes name = Inr u \<longleftrightarrow>
     (\<exists>bs. readRegular f (filepath_Join dir name) = Inr bs \<and> hash L bs = lookup_string hashes name)"
  by (auto simp: check_hash_def hashRegularFile_Inr)

lemma check_entry_Inr [file_simps]: "check_entry allowed entry = Inr u \<longleftrightarrow> entry \<in> set allowed"
  by (simp add: check_entry_def)

text \<open>The facts about a freshly opened stream, for the directory as it was.\<close>

definition opened_from :: "'l lib_scheme \<Rightarrow> fs \<Rightarrow> snapshot_stream \<Rightarrow> bool" where
  "opened_from L f s \<longleftrightarrow>
     (let raw = SnapshotFilesRawHashes (Metadata s); dir = Directory s in
      (\<forall>name \<in> set (keys raw). (plain_name name \<or> name = ''/'') \<and> \<not> HasPrefix name ''_snapshot_'') \<and>
      (\<forall>name \<in> set (keys raw). \<exists>bs. readRegular f (filepath_Join dir name) = Inr bs \<and>
         hash L bs = lookup_string raw name) \<and>
      (\<exists>entries. ReadDir f dir = Inr entries \<and> set entries \<subseteq> {signable_name, additional_name} \<union> set (keys raw)) \<and>
      (\<exists>signable additional.
         readRegular f (filepath_Join dir signable_name) = Inr signable \<and>
         readRegular f (filepath_Join dir additional_name) = Inr additional \<and>
         hash L signable = SnapshotHash (AdditionalMetadata s) \<and>
         fileHashes s = AList.update additional_name (hash L additional)
                          (AList.update signable_name (hash L signable) raw)))"

lemma readNamespaces_update [simp]:
  "readNamespaces L f (s\<lparr>PublicNamespaces := a\<rparr>) pfx = readNamespaces L f s pfx"
  "readNamespaces L f (s\<lparr>PrivateHashNamespaces := a\<rparr>) pfx = readNamespaces L f s pfx"
  by (simp_all add: readNamespaces_def)

lemma check_hash_namespace_Inr [file_simps]:
  "check_hash_namespace ns = Inr u \<longleftrightarrow> (\<exists>p. SplitHashNamespace (Name ns) = Inr p)"
  by (simp add: check_hash_namespace_def)

text \<open>The stream before its namespaces are read.\<close>

definition bare_stream :: "string \<Rightarrow> metadata \<Rightarrow> additional_metadata \<Rightarrow> (string, string) gomap \<Rightarrow> snapshot_stream" where
  "bare_stream dir m extra hashes = \<lparr>Directory = dir, Metadata = m, AdditionalMetadata = extra,
     PublicNamespaces = [], PrivateHashNamespaces = [], fileHashes = hashes\<rparr>"

lemma bare_stream_sel [simp]:
  "Directory (bare_stream dir m extra hashes) = dir" "Metadata (bare_stream dir m extra hashes) = m"
  "AdditionalMetadata (bare_stream dir m extra hashes) = extra"
  "PrivateHashNamespaces (bare_stream dir m extra hashes) = []"
  "fileHashes (bare_stream dir m extra hashes) = hashes"
  by (simp_all add: bare_stream_def)

lemma OpenStream_Inr:
  assumes "OpenStream L f dir = Inr s"
  obtains signable additional m extra entries pub priv b where
    "readRegular f (filepath_Join dir signable_name) = Inr signable"
    "readRegular f (filepath_Join dir additional_name) = Inr additional"
    "check_metadata L signable m extra = Inr ()"
    "\<forall>name \<in> set (keys (SnapshotFilesRawHashes m)). check_name name = Inr ()"
    "ReadDir f dir = Inr entries"
    "\<forall>e \<in> set entries. check_entry (signable_name # additional_name # keys (SnapshotFilesRawHashes m)) e = Inr ()"
    "\<forall>name \<in> set (keys (SnapshotFilesRawHashes m)). check_hash L f dir (SnapshotFilesRawHashes m) name = Inr ()"
    "b = bare_stream dir m extra (AList.update additional_name (hash L additional)
       (AList.update signable_name (hash L signable) (SnapshotFilesRawHashes m)))"
    "readNamespaces L f b ''public_state'' = Inr pub"
    "if has_key (SnapshotFilesRawHashes m) ''private_state_hashes.data''
     then readNamespaces L f b private_prefix = Inr priv \<and> (\<forall>ns \<in> set priv. check_hash_namespace ns = Inr ())
     else priv = []"
    "s = b\<lparr>PublicNamespaces := pub, PrivateHashNamespaces := priv\<rparr>"
  using assms unfolding OpenStream_def Let_def bare_stream_def [symmetric] private_prefix_def [symmetric]
  by (auto split: if_splits) (auto simp: bare_stream_def)

lemma OpenStream_opened:
  assumes "OpenStream L f dir = Inr s"
  shows "Directory s = dir" "opened_from L f s"
    "readNamespaces L f s ''public_state'' = Inr (PublicNamespaces s)"
    "if has_key (fileHashes s) ''private_state_hashes.data''
     then readNamespaces L f s private_prefix = Inr (PrivateHashNamespaces s) \<and>
       (\<forall>ns \<in> set (PrivateHashNamespaces s). \<exists>p. SplitHashNamespace (Name ns) = Inr p)
     else PrivateHashNamespaces s = []"
    "StateDBType (Metadata s) = ''SimpleKeyValueDB'' \<or> StateDBType (Metadata s) = ''CouchDB''"
proof -
  obtain signable additional m extra entries pub priv b where *:
    "readRegular f (filepath_Join dir signable_name) = Inr signable"
    "readRegular f (filepath_Join dir additional_name) = Inr additional"
    "check_metadata L signable m extra = Inr ()"
    "\<forall>name \<in> set (keys (SnapshotFilesRawHashes m)). check_name name = Inr ()"
    "ReadDir f dir = Inr entries"
    "\<forall>e \<in> set entries. check_entry (signable_name # additional_name # keys (SnapshotFilesRawHashes m)) e = Inr ()"
    "\<forall>name \<in> set (keys (SnapshotFilesRawHashes m)). check_hash L f dir (SnapshotFilesRawHashes m) name = Inr ()"
    "b = bare_stream dir m extra (AList.update additional_name (hash L additional)
       (AList.update signable_name (hash L signable) (SnapshotFilesRawHashes m)))"
    "readNamespaces L f b ''public_state'' = Inr pub"
    "if has_key (SnapshotFilesRawHashes m) ''private_state_hashes.data''
     then readNamespaces L f b private_prefix = Inr priv \<and> (\<forall>ns \<in> set priv. check_hash_namespace ns = Inr ())
     else priv = []"
    "s = b\<lparr>PublicNamespaces := pub, PrivateHashNamespaces := priv\<rparr>"
    by (rule OpenStream_Inr [OF assms], rule that)
  from * show "Directory s = dir" "readNamespaces L f s ''public_state'' = Inr (PublicNamespaces s)"
    by simp_all
  show "StateDBType (Metadata s) = ''SimpleKeyValueDB'' \<or> StateDBType (Metadata s) = ''CouchDB''"
    using *(3,8,11) by (auto simp: check_metadata_def Let_def split: if_splits)
  have "hash L signable = SnapshotHash extra"
    using *(3) by (auto simp: check_metadata_def Let_def split: if_splits)
  with * show "opened_from L f s"
    by (auto simp: opened_from_def Let_def file_simps)
  have "has_key (fileHashes s) ''private_state_hashes.data'' = has_key (SnapshotFilesRawHashes m) ''private_state_hashes.data''"
    using *(8,11) by (simp add: has_key_def signable_name_def additional_name_def)
  with *(8,10,11) show "if has_key (fileHashes s) ''private_state_hashes.data''
     then readNamespaces L f s private_prefix = Inr (PrivateHashNamespaces s) \<and>
       (\<forall>ns \<in> set (PrivateHashNamespaces s). \<exists>p. SplitHashNamespace (Name ns) = Inr p)
     else PrivateHashNamespaces s = []"
    by (simp add: file_simps split: if_splits)
qed

text \<open>The hashes an opened stream keeps: for every file of the directory, the one it was read with.\<close>

lemma OpenStream_hashes:
  assumes "OpenStream L f dir = Inr s"
  defines "raw \<equiv> SnapshotFilesRawHashes (Metadata s)"
  shows "set (keys (fileHashes s)) = {signable_name, additional_name} \<union> set (keys raw)"
    and "wf_map raw \<Longrightarrow> wf_map (fileHashes s)"
    and "\<forall>name \<in> set (keys (fileHashes s)). \<exists>bs. readRegular f (filepath_Join dir name) = Inr bs \<and>
      hash L bs = lookup_string (fileHashes s) name"
proof -
  from OpenStream_opened(1,2) [OF assms(1)] obtain signable additional where
    names: "\<forall>name \<in> set (keys raw). \<not> HasPrefix name ''_snapshot_''"
    and read: "\<forall>name \<in> set (keys raw). \<exists>bs. readRegular f (filepath_Join dir name) = Inr bs \<and>
         hash L bs = lookup_string raw name"
    and meta: "readRegular f (filepath_Join dir signable_name) = Inr signable"
      "readRegular f (filepath_Join dir additional_name) = Inr additional"
    and hashes: "fileHashes s = AList.update additional_name (hash L additional)
        (AList.update signable_name (hash L signable) raw)"
    unfolding raw_def by (auto simp: opened_from_def Let_def)
  show "wf_map raw \<Longrightarrow> wf_map (fileHashes s)" using hashes by simp
  have hmap: "map_of (fileHashes s) = (map_of raw)(signable_name \<mapsto> hash L signable, additional_name \<mapsto> hash L additional)"
    using hashes by simp
  show keys_eq: "set (keys (fileHashes s)) = {signable_name, additional_name} \<union> set (keys raw)"
    by (auto simp: set_keys hmap)
  have fresh: "signable_name \<notin> set (keys raw)" "additional_name \<notin> set (keys raw)"
    using names metadata_names(4,5) by auto
  have "lookup_string (fileHashes s) name = lookup_string raw name" if "name \<in> set (keys raw)" for name
    using that fresh by (auto simp: lookup_string_def hmap)
  then show "\<forall>name \<in> set (keys (fileHashes s)). \<exists>bs. readRegular f (filepath_Join dir name) = Inr bs \<and>
      hash L bs = lookup_string (fileHashes s) name"
    unfolding keys_eq using read meta metadata_names(3) by (auto simp: lookup_string_def hmap)
qed

subsection \<open>Checking a snapshot again\<close>

lemma revalidate_entry_Inr [file_simps]:
  "revalidate_entry L f s e = Inr u \<longleftrightarrow>
     (\<exists>h bs. map_of (fileHashes s) e = Some h \<and>
        readRegular f (filepath_Join (Directory s) e) = Inr bs \<and> hash L bs = h)"
  by (auto simp: revalidate_entry_def hashRegularFile_Inr)

lemma Revalidate_Inr:
  "Revalidate L f s = Inr () \<longleftrightarrow>
     (\<exists>entries. ReadDir f (Directory s) = Inr entries \<and> length entries = length (fileHashes s) \<and>
        (\<forall>e \<in> set entries. \<exists>h bs. map_of (fileHashes s) e = Some h \<and>
           readRegular f (filepath_Join (Directory s) e) = Inr bs \<and> hash L bs = h))"
  by (auto simp: Revalidate_def revalidate_entry_Inr)

text \<open>A directory lists each entry once, and lists an entry exactly when \<^verbatim>\<open>Lstat\<close> finds it.\<close>

definition lists_entries :: "fs \<Rightarrow> string \<Rightarrow> bool" where
  "lists_entries f dir \<longleftrightarrow>
     (\<exists>entries. ReadDir f dir = Inr entries \<and> distinct entries \<and>
        (\<forall>name. plain_name name \<longrightarrow> (name \<in> set entries \<longleftrightarrow> (\<exists>info. Lstat f (filepath_Join dir name) = Inr info))) \<and>
        (\<forall>info. Lstat f (filepath_Join dir ''/'') = Inr info \<longrightarrow> \<not> is_regular info))"

lemma Revalidate_exact:
  assumes "Revalidate L f s = Inr ()" "wf_map (fileHashes s)"
    and "\<forall>entries. ReadDir f (Directory s) = Inr entries \<longrightarrow> distinct entries"
  shows "\<exists>entries. ReadDir f (Directory s) = Inr entries \<and> set entries = set (keys (fileHashes s))"
    and "\<forall>name \<in> set (keys (fileHashes s)). \<exists>bs.
      readRegular f (filepath_Join (Directory s) name) = Inr bs \<and>
      hash L bs = lookup_string (fileHashes s) name"
proof -
  from assms(1) obtain entries where e: "ReadDir f (Directory s) = Inr entries"
    "length entries = length (fileHashes s)"
    "\<forall>e \<in> set entries. \<exists>h bs. map_of (fileHashes s) e = Some h \<and>
       readRegular f (filepath_Join (Directory s) e) = Inr bs \<and> hash L bs = h"
    by (auto simp: Revalidate_Inr)
  have sub: "set entries \<subseteq> set (keys (fileHashes s))"
    using e(3) by (auto simp: set_keys)
  have "card (set entries) = length (fileHashes s)"
    using distinct_card [of entries] assms(3) e(1,2) by simp
  moreover have "card (set (keys (fileHashes s))) = length (fileHashes s)"
    using distinct_card [of "keys (fileHashes s)"] assms(2) by (simp add: wf_map_def keys_def)
  ultimately have eq: "set entries = set (keys (fileHashes s))"
    using card_subset_eq [OF finite_set sub] by simp
  with e(1) show "\<exists>entries. ReadDir f (Directory s) = Inr entries \<and> set entries = set (keys (fileHashes s))"
    by blast
  show "\<forall>name \<in> set (keys (fileHashes s)). \<exists>bs.
      readRegular f (filepath_Join (Directory s) name) = Inr bs \<and>
      hash L bs = lookup_string (fileHashes s) name"
    using e(3) eq by (fastforce simp: lookup_string_def)
qed

theorem Revalidate_unchanged:
  assumes "OpenStream L f dir = Inr s" "lists_entries f dir"
    and "wf_map (SnapshotFilesRawHashes (Metadata s))"
  shows "Revalidate L f s = Inr ()"
proof -
  let ?raw = "SnapshotFilesRawHashes (Metadata s)"
  from OpenStream_opened(1,2) [OF assms(1)] obtain signable additional entries where
    dir: "Directory s = dir"
    and names: "\<forall>name \<in> set (keys ?raw). (plain_name name \<or> name = ''/'') \<and> \<not> HasPrefix name ''_snapshot_''"
    and raw: "\<forall>name \<in> set (keys ?raw). \<exists>bs. readRegular f (filepath_Join dir name) = Inr bs \<and>
         hash L bs = lookup_string ?raw name"
    and entries: "ReadDir f dir = Inr entries" "set entries \<subseteq> {signable_name, additional_name} \<union> set (keys ?raw)"
    and meta: "readRegular f (filepath_Join dir signable_name) = Inr signable"
      "readRegular f (filepath_Join dir additional_name) = Inr additional"
    and hashes: "fileHashes s = AList.update additional_name (hash L additional)
        (AList.update signable_name (hash L signable) ?raw)"
    by (auto simp: opened_from_def Let_def)
  have listed: "distinct entries" "\<And>name. plain_name name \<Longrightarrow> name \<in> set entries \<longleftrightarrow> (\<exists>info. Lstat f (filepath_Join dir name) = Inr info)"
    "\<And>info. Lstat f (filepath_Join dir ''/'') = Inr info \<Longrightarrow> \<not> is_regular info"
    using assms(2) entries(1) by (auto simp: lists_entries_def)
  have exists: "\<exists>info. Lstat f p = Inr info \<and> is_regular info" if "readRegular f p = Inr bs" for p bs
    using that by (auto simp: readRegular_Inr openRegular_Inr)
  have plain: "plain_name name" if "name \<in> set (keys ?raw)" for name
    using that names raw exists listed(3) by metis
  have hmap: "map_of (fileHashes s) = (map_of ?raw)(signable_name \<mapsto> hash L signable, additional_name \<mapsto> hash L additional)"
    using hashes by simp
  have fresh: "signable_name \<notin> set (keys ?raw)" "additional_name \<notin> set (keys ?raw)"
    using names metadata_names(4,5) by auto
  have keys_eq: "set (keys (fileHashes s)) = {signable_name, additional_name} \<union> set (keys ?raw)"
    by (auto simp: set_keys hmap)
  have all: "set (keys (fileHashes s)) \<subseteq> set entries"
    unfolding keys_eq using listed(2) plain metadata_names(1,2) raw meta exists by blast
  have sets: "set entries = set (keys (fileHashes s))"
    using all entries(2) keys_eq by blast
  have wf: "wf_map (fileHashes s)" using assms(3) hashes by simp
  have "length entries = length (fileHashes s)"
    using distinct_card [OF listed(1)] distinct_card [of "keys (fileHashes s)"] sets wf
    by (simp add: wf_map_def keys_def)
  moreover have "\<exists>h bs. map_of (fileHashes s) e = Some h \<and>
      readRegular f (filepath_Join dir e) = Inr bs \<and> hash L bs = h" if "e \<in> set entries" for e
  proof (cases "e \<in> set (keys ?raw)")
    case True
    then obtain h where h: "map_of ?raw e = Some h" by (auto simp: set_keys)
    from True raw obtain bs where "readRegular f (filepath_Join dir e) = Inr bs" "hash L bs = h"
      by (auto simp: lookup_string_def h dest!: bspec)
    with True fresh h show ?thesis by (intro exI [of _ h]) (auto simp: hmap)
  next
    case False
    with that entries(2) have "e = signable_name \<or> e = additional_name" by blast
    with meta metadata_names(3) show ?thesis by (auto simp: hmap)
  qed
  ultimately show ?thesis using entries(1) by (simp add: Revalidate_Inr dir)
qed

lemma call_yield_Some [simp]: "call_yield (Some y) = y"
  by (intro ext) (simp add: call_yield_def)

end
