(* ===== verification/CodecProps.thy ===== *)
theory CodecProps
  imports Stream
begin

text \<open>
  The properties of the byte-level decoders (theories Varint, GoLib and Codec) and of the splitting
  of private hash namespace names. Encoders are the writers of the repository's fixtures.
\<close>

subsection \<open>Varints\<close>

text \<open>
  C27. The varint decoder of the slice reader inverts the writer's varint at every offset, consumes
  exactly its bytes (never more than ten), and the stream reader \<^verbatim>\<open>binary.ReadUvarint\<close>
  agrees with it: it accepts the same inputs, with the same value and the same bytes consumed.
\<close>

theorem varints_agree:
  "consumeUvarint (pre @ AppendUvarint [] x @ post) (length pre) =
     Inr (x, length pre + length (AppendUvarint [] x)) \<and>
   length (AppendUvarint [] x) \<le> 10 \<and>
   (ReadUvarint r = Inr (v, r') \<longleftrightarrow>
     (\<exists>k. consumeUvarint (remaining r) 0 = Inr (v, k) \<and> r' = r\<lparr>remaining := drop k (remaining r)\<rparr>))"
proof -
  have "consumeUvarint (pre @ AppendUvarint [] x @ post) (length pre) =
      Inr (x, length pre + length (AppendUvarint [] x))"
    using consumeUvarint_bytes [of pre x post] by (simp add: uvarint_bytes_def)
  moreover have "length (AppendUvarint [] x) \<le> 10"
    using length_uvarint_bytes [of x] by (simp add: uvarint_bytes_def MaxVarintLen64_def)
  moreover have "(\<exists>k. consumeUvarint (remaining r) 0 = Inr (v, k) \<and> r' = r\<lparr>remaining := drop k (remaining r)\<rparr>) \<longleftrightarrow>
      (\<exists>k. Uvarint (remaining r) = (v, int k) \<and> 0 < k \<and> r' = r\<lparr>remaining := drop k (remaining r)\<rparr>)"
    if "remaining r \<noteq> []"
  proof -
    have "consumeUvarint (remaining r) 0 = Inr (v, k) \<longleftrightarrow> Uvarint (remaining r) = (v, int k) \<and> 0 < k" for k
      using that by (auto simp: consumeUvarint_def split: prod.splits)
    then show ?thesis by simp
  qed
  moreover have "Uvarint [] = (v, int k) \<Longrightarrow> \<not> 0 < k" for k by (simp add: Uvarint_def)
  ultimately show ?thesis
    by (cases "remaining r = []") (auto simp: ReadUvarint_iff consumeUvarint_def)
qed

subsection \<open>Namespaces\<close>

text \<open>
  Round trip of a namespace metadata file: the decoder returns exactly the namespaces the writer
  wrote, and rejects the file when any byte follows.
\<close>

lemma namespace_file_roundtrip:
  assumes "length nss < 2 ^ 64" "\<forall>ns \<in> set nss. length (Name ns) < 2 ^ 64"
  shows "decodeNamespaces name (namespace_file nss @ extra) =
    (if extra = [] then Inr nss else Inl (New ''trailing bytes'' [name]))"
  by (rule decodeNamespaces_file [OF assms])

lemma namespace_file_roundtrip_witness:
  "decodeNamespaces ''m'' (namespace_file [\<lparr>Name = ''b'', Records = 300\<rparr>] @ [0]) =
     Inl (New ''trailing bytes'' [''m''])"
  using namespace_file_roundtrip [of "[\<lparr>Name = ''b'', Records = 300\<rparr>]" "''m''" "[0]"] by simp

text \<open>
  The number of namespaces a decoder returns is bounded by the size of the input, whatever count
  the file announces, so that an untrusted count cannot make it allocate more than it was given: each
  namespace takes at least two bytes after the format byte.
\<close>

lemma namespace_count_bounded:
  assumes "decodeNamespaces name bs = Inr nss"
  shows "2 * length nss < length bs"
proof -
  from assms obtain count offset offset' where data: "bs \<noteq> []"
    and c: "consumeUvarint bs 1 = Inr (count, offset)"
    and loop: "decode_namespace_loop name bs (unat count) offset [] = Inr (nss, offset')"
    and fin: "offset' = length bs"
    by (auto simp: decodeNamespaces_def split: if_splits prod.splits)
  from decode_namespace_loop_sound [OF loop] consumeUvarint_progress [OF c] fin show ?thesis by simp
qed

theorem namespace_count_bounded_witness: "2 * length [\<lparr>Name = ''b'', Records = 1\<rparr>] < length [1, 1, 1, 98, 1 :: byte]"
proof (rule namespace_count_bounded)
  show "decodeNamespaces ''m'' [1, 1, 1, 98, 1] = Inr [\<lparr>Name = ''b'', Records = 1\<rparr>]" by code_simp
qed

subsection \<open>Records\<close>

text \<open>
  Round trip of a record message: fields written in any order, each at most once, are read back
  as the map from field number to content.
\<close>

lemma record_message_roundtrip:
  assumes "distinct (map fst fs)" "\<forall>(n, v) \<in> set fs. n \<in> {1, 2, 3, 4} \<and> length v < 2 ^ 64"
  shows "protobufBytes (fold (\<lambda>(n, v) out. appendField out n v) fs []) =
    Inr (map_of (map (\<lambda>(n, v). (ucast n, v)) fs))"
proof -
  have "writable_fields fs"
    using assms by (fastforce simp: writable_fields_def field_number_def)
  from protobufBytes_record [OF this] show ?thesis by (simp add: record_bytes_def field_map_def)
qed

lemma record_message_roundtrip_witness:
  "protobufBytes (fold (\<lambda>(n, v) out. appendField out n v) [(4, [3]), (1, [97])] []) =
     Inr (map_of (map (\<lambda>(n, v). (ucast (n :: byte), v)) [(4, [3]), (1, [97])]))"
  by (rule record_message_roundtrip) simp_all

text \<open>
  Whatever the input, a record that is accepted has only the four fields of the format, each a
  contiguous piece of the input: no field is invented and none reaches past the record.
\<close>

lemma record_message_sound:
  assumes "protobufBytes bs = Inr m" "m n = Some v"
  shows "1 \<le> n \<and> n \<le> 4 \<and> (\<exists>before after. bs = before @ v @ after)"
  using protobufBytes_sound [OF assms] by (auto simp: sublist_def)

theorem record_message_sound_witness:
  "\<exists>m. protobufBytes [10, 1, 97] = Inr m \<and> (\<exists>before after. [10, 1, 97] = before @ [97 :: byte] @ after)"
proof -
  have "protobufBytes (record_bytes [(1, [97])]) = Inr (field_map [(1, [97])])"
    by (rule protobufBytes_record) (simp add: writable_fields_def field_number_def)
  moreover have "record_bytes [(1, [97])] = [10, 1, 97]" by code_simp
  ultimately have "protobufBytes [10, 1, 97] = Inr (field_map [(1, [97])])" by simp
  moreover have "field_map [(1, [97])] 1 = Some [97]"
    using codec_simps(4) [of 1 "[97]" "[]"] by (simp add: field_map_def)
  ultimately show ?thesis using record_message_sound by blast
qed

subsection \<open>Heights\<close>

text \<open>
  A height of two order-preserving integers of at most eight bytes decodes to their big-endian
  values, and a longer integer or a byte after the second is an error.
\<close>

lemma height_decodes:
  assumes "length block \<le> 8" "length transaction \<le> 8"
  shows "decodeHeight (appendSized (appendSized [] block) transaction @ extra) =
    (if extra = [] then Inr (of_nat (be_value block), of_nat (be_value transaction))
     else Inl (New ''fabric height has trailing bytes'' []))"
  using decodeHeight_bytes [OF assms, of extra] by (simp add: height_bytes_def)

theorem height_decodes_witness:
  "decodeHeight (appendSized (appendSized [] [1, 2]) [] @ []) = Inr (258, 0)"
  using height_decodes [of "[1, 2]" "[]" "[]"] by simp

subsection \<open>Names\<close>

text \<open>
  Splitting a private hash namespace: an accepted name is its two parts joined by
  \<^verbatim>\<open>$$h\<close>, both nonempty and the collection free of \<^verbatim>\<open>$$\<close>, and every
  chaincode and collection name without \<^verbatim>\<open>$$\<close> is recovered from the joined name, so the
  mapping of hash namespaces to chaincodes is unambiguous.
\<close>

lemma split_hash_namespace:
  "(SplitHashNamespace name = Inr (ns, coll) \<longrightarrow>
      name = ns @ ''$$h'' @ coll \<and> ns \<noteq> [] \<and> coll \<noteq> [] \<and> \<not> Contains coll ''$$'') \<and>
   (a \<noteq> [] \<and> b \<noteq> [] \<and> \<not> Contains a ''$$'' \<and> \<not> Contains b ''$$'' \<longrightarrow>
      SplitHashNamespace (a @ ''$$h'' @ b) = Inr (a, b))"
  using SplitHashNamespace_Inr SplitHashNamespace_join by blast

text \<open>The root directory is the one listed name that is not a plain one.\<close>

lemma slash_is_accepted: "check_name ''/'' = Inr () \<and> filepath_Join ''d'' ''/'' = ''d''"
  by code_simp

text \<open>
  C28. A file name the snapshot may list stays inside the snapshot directory: joined to the directory
  it names the entry of that name, and different names give different paths. The one other name the
  check accepts is \<^verbatim>\<open>/\<close>.
\<close>

theorem snapshot_names_confined:
  assumes "check_name name = Inr ()" "name \<noteq> ''/''" "dir \<noteq> []"
  shows "CHR ''/'' \<notin> set name \<and> filepath_Join dir name = join_prefix dir @ name \<and>
    (\<forall>other. check_name other = Inr () \<and> other \<noteq> ''/'' \<and> filepath_Join dir other = filepath_Join dir name
       \<longrightarrow> other = name)"
proof -
  have plain: "plain_name n" if "check_name n = Inr ()" "n \<noteq> ''/''" for n
    using that by (simp add: check_name_Inr)
  note here = plain [OF assms(1,2)]
  have "CHR ''/'' \<notin> set name" using here by (simp add: plain_name_def)
  moreover have "filepath_Join dir name = join_prefix dir @ name"
    by (rule filepath_Join_plain [OF assms(3) here])
  moreover have "other = name"
    if "check_name other = Inr ()" "other \<noteq> ''/''" "filepath_Join dir other = filepath_Join dir name" for other
    using filepath_Join_inject [OF assms(3) plain [OF that(1,2)] here] that(3) by simp
  ultimately show ?thesis by blast
qed

theorem snapshot_names_confined_witness:
  "filepath_Join ''/a/../b'' ''public_state.data'' = ''/b/public_state.data''"
proof -
  have "check_name ''public_state.data'' = Inr ()" by code_simp
  moreover have "join_prefix ''/a/../b'' = ''/b/''" by code_simp
  ultimately show ?thesis using snapshot_names_confined [of "''public_state.data''" "''/a/../b''"] by simp
qed

end
