(* ===== verification/Wire.thy ===== *)
theory Wire
  imports Codec
begin

text \<open>
  The formats the decoders of theory Codec read, as grammars: relations between values and byte strings
  that mention no decoder. A varint is a little-endian string of seven-bit groups, a sized value its
  length as a varint and its bytes, a message a sequence of sized values under their field tags. The
  locale \<open>grammar\<close> is the contract of a decoder for such a relation, and every decoder of the file is
  an interpretation of it.
\<close>

subsection \<open>The grammars\<close>

text \<open>All bytes but the last have the high bit set.\<close>

fun varint_bytes :: "bytes \<Rightarrow> bool" where
  "varint_bytes [] = False"
| "varint_bytes (b # bs) = (if unat b < 128 then bs = [] else varint_bytes bs)"

fun varint_value :: "bytes \<Rightarrow> nat" where
  "varint_value [] = 0"
| "varint_value (b # bs) = unat b mod 128 + 128 * varint_value bs"

text \<open>The varints of at most ten bytes and 64 bits; leading zero groups are allowed.\<close>

definition varint_form :: "nat \<Rightarrow> bytes \<Rightarrow> bool" where
  "varint_form n bs \<longleftrightarrow> varint_bytes bs \<and> length bs \<le> 10 \<and> varint_value bs = n \<and> n < 2 ^ 64"

definition sized_form :: "bytes \<Rightarrow> bytes \<Rightarrow> bool" where
  "sized_form v bs \<longleftrightarrow> (\<exists>size. varint_form (length v) size \<and> bs = size @ v)"

text \<open>A field of wire type 2: its number and its content.\<close>

definition field_form :: "nat \<times> bytes \<Rightarrow> bytes \<Rightarrow> bool" where
  "field_form fld bs \<longleftrightarrow> (\<exists>tag body. varint_form (8 * fst fld + 2) tag \<and> sized_form (snd fld) body \<and> bs = tag @ body)"

definition message_form :: "(nat \<times> bytes) list \<Rightarrow> bytes \<Rightarrow> bool" where
  "message_form flds bs \<longleftrightarrow> (\<exists>parts. list_all2 field_form flds parts \<and> bs = concat parts)"

text \<open>Fabric's order-preserving integers: the length and the big-endian bytes.\<close>

definition uint_form :: "nat \<Rightarrow> bytes \<Rightarrow> bool" where
  "uint_form n bs \<longleftrightarrow> (\<exists>v. sized_form v bs \<and> length v \<le> 8 \<and> be_value v = n)"

definition height_form :: "nat \<Rightarrow> bytes \<Rightarrow> bool" where
  "height_form block bs \<longleftrightarrow> (\<exists>a b transaction. uint_form block a \<and> uint_form transaction b \<and> bs = a @ b)"

lemma varint_form_nonempty: "varint_form n bs \<Longrightarrow> bs \<noteq> []"
  by (auto simp: varint_form_def)

lemma sized_form_nonempty: "sized_form v bs \<Longrightarrow> bs \<noteq> []"
  by (auto simp: sized_form_def dest: varint_form_nonempty)

lemma field_form_nonempty: "field_form fld bs \<Longrightarrow> bs \<noteq> []"
  by (auto simp: field_form_def dest: varint_form_nonempty)

lemma message_form_simps:
  "message_form [] bs \<longleftrightarrow> bs = []"
  "message_form (fld # flds) bs \<longleftrightarrow> (\<exists>a b. bs = a @ b \<and> field_form fld a \<and> message_form flds b)"
proof -
  show "message_form [] bs \<longleftrightarrow> bs = []" by (simp add: message_form_def)
  show "message_form (fld # flds) bs \<longleftrightarrow> (\<exists>a b. bs = a @ b \<and> field_form fld a \<and> message_form flds b)"
  proof
    assume "message_form (fld # flds) bs"
    then obtain a parts where "bs = a @ concat parts" "field_form fld a" "list_all2 field_form flds parts"
      by (auto simp: message_form_def list_all2_Cons1)
    then show "\<exists>a b. bs = a @ b \<and> field_form fld a \<and> message_form flds b" unfolding message_form_def by blast
  next
    assume "\<exists>a b. bs = a @ b \<and> field_form fld a \<and> message_form flds b"
    then obtain a parts where "bs = a @ concat parts" "field_form fld a" "list_all2 field_form flds parts"
      by (auto simp: message_form_def)
    then show "message_form (fld # flds) bs" unfolding message_form_def by (intro exI [of _ "a # parts"]) simp
  qed
qed

lemma message_form_empty: "message_form flds [] \<Longrightarrow> flds = []"
  by (cases flds) (auto simp: message_form_simps dest: field_form_nonempty)

subsection \<open>The contract of a decoder\<close>

locale grammar =
  fixes decode :: "bytes \<Rightarrow> nat \<Rightarrow> ('a \<times> nat) res"
    and form :: "'a \<Rightarrow> bytes \<Rightarrow> bool"
  assumes decode_iff: "decode data offset = Inr (x, next) \<longleftrightarrow>
      (\<exists>bs rest. drop offset data = bs @ rest \<and> form x bs \<and> next = offset + length bs)"
begin

text \<open>The grammar is unambiguous, also as a prefix of a longer input.\<close>

lemma form_unique:
  assumes "form x a" "form y b" "a @ s = b @ t"
  shows "x = y \<and> a = b \<and> s = t"
proof -
  have "decode (a @ s) 0 = Inr (x, length a)" "decode (b @ t) 0 = Inr (y, length b)"
    using assms(1,2) by (fastforce simp: decode_iff)+
  with assms(3) show ?thesis by (metis Pair_inject append_eq_append_conv sum.inject(2))
qed

end

subsection \<open>Varints\<close>

lemma unat_or_disjoint:
  assumes "unat x < 2 ^ s" "unat x + 2 ^ s * unat y < 2 ^ 64"
  shows "unat ((x::uint64) OR push_bit s y) = unat x + 2 ^ s * unat y"
proof -
  have "x AND push_bit s y = 0"
  proof (rule bit_word_eqI)
    fix n
    have "\<not> bit x n" if "s \<le> n"
    proof -
      have "2 ^ s \<le> (2::nat) ^ n" using that by (rule power_increasing) simp
      with assms(1) have "unat x < 2 ^ n" by linarith
      then have "\<not> bit (unat x) n" by (simp add: bit_iff_odd)
      then show ?thesis using bit_imp_le_length [of x n] by (auto simp: bit_unsigned_iff)
    qed
    then show "bit (x AND push_bit s y) n = bit (0::uint64) n" by (auto simp: bit_simps)
  qed
  then have "x OR push_bit s y = x + push_bit s y" by (simp add: disjunctive_add_eq_or)
  also have "\<dots> = of_nat (unat x + 2 ^ s * unat y)" by (simp add: push_bit_eq_mult mult.commute)
  finally show ?thesis by (simp only: unat_of_nat64 [OF assms(2)])
qed

lemma unat_ucast_byte: "unat (ucast (b::byte) :: uint64) = unat b"
  using unsigned_less [of b, where 'a = nat] by (simp add: unsigned_ucast_eq take_bit_nat_eq_self)

lemma unat_low_bits: "unat (ucast ((b::byte) AND 0x7f) :: uint64) = unat b mod 128"
proof -
  have "(0x7f :: byte) = mask 7" by (simp add: mask_eq_exp_minus_1)
  then have "b AND 0x7f = take_bit 7 b" by (simp only: take_bit_eq_mask)
  then show ?thesis by (simp only: unat_ucast_byte unsigned_take_bit_eq) (simp only: take_bit_eq_mod, simp)
qed

lemma varint_bytes_split:
  "(\<exists>bs rest. b # buf = bs @ rest \<and> varint_bytes bs \<and> P bs) \<longleftrightarrow>
     (if unat b < 128 then P [b] else (\<exists>bs rest. buf = bs @ rest \<and> varint_bytes bs \<and> P (b # bs)))"
proof (cases "unat b < 128")
  case True
  have one: "(b # buf = bs @ rest \<and> varint_bytes bs) = (bs = [b] \<and> rest = buf)" for bs rest
  proof (cases bs)
    case (Cons c cs)
    then show ?thesis using True by (cases "c = b") auto
  qed simp
  have "(\<exists>bs rest. (b # buf = bs @ rest \<and> varint_bytes bs) \<and> P bs) \<longleftrightarrow> P [b]" unfolding one by simp
  then show ?thesis using True by (simp only: conj_assoc if_True)
next
  case False
  have more: "(b # buf = bs @ rest \<and> varint_bytes bs) = (\<exists>bs'. bs = b # bs' \<and> buf = bs' @ rest \<and> varint_bytes bs')" for bs rest
  proof (cases bs)
    case (Cons c cs)
    then show ?thesis using False by (cases "c = b") auto
  qed simp
  have "(\<exists>bs rest. (b # buf = bs @ rest \<and> varint_bytes bs) \<and> P bs) \<longleftrightarrow>
      (\<exists>bs rest. buf = bs @ rest \<and> varint_bytes bs \<and> P (b # bs))" unfolding more by blast
  then show ?thesis using False by (simp only: conj_assoc if_False)
qed

text \<open>The loop of \<open>Uvarint\<close> reads exactly the varints; \<open>x\<close> holds the value of the groups before.\<close>

lemma uvarint_loop_form:
  "i \<le> 9 \<Longrightarrow> unat x < 2 ^ (7 * i) \<Longrightarrow>
   uvarint_loop buf i x (7 * i) = (v, int k) \<and> i < k \<longleftrightarrow>
     (\<exists>bs rest. buf = bs @ rest \<and> varint_bytes bs \<and> k = i + length bs \<and> k \<le> 10 \<and>
        unat x + 2 ^ (7 * i) * varint_value bs < 2 ^ 64 \<and> unat v = unat x + 2 ^ (7 * i) * varint_value bs)"
proof (induction buf arbitrary: i x)
  case Nil
  then show ?case by auto
next
  case (Cons b buf)
  note split = varint_bytes_split [of b buf]
  have x: "unat x < 2 ^ (7 * i)" by (rule Cons.prems(2))
  have b80: "b < 0x80 \<longleftrightarrow> unat b < 128" by (simp add: word_less_nat_alt)
  have b1: "b > 1 \<longleftrightarrow> 1 < unat b" by (simp add: word_less_nat_alt)
  have room: "unat x + 2 ^ (7 * i) * c < 2 ^ 64" if "i \<le> 8" "c < 128" for c
  proof -
    have "unat x + 2 ^ (7 * i) * c < 2 ^ (7 * i) * (1 + c)" using x by simp
    also have "\<dots> \<le> 2 ^ (7 * i) * 2 ^ 7" using that(2) by (intro mult_le_mono2) simp
    also have "\<dots> = 2 ^ (7 * i + 7)" by (simp only: power_add)
    also have "\<dots> \<le> 2 ^ 64" using that(1) by (intro power_increasing) simp_all
    finally show ?thesis .
  qed
  show ?case
  proof (cases "unat b < 128")
    case True
    have fits: "\<not> (i = 9 \<and> 1 < unat b) \<longleftrightarrow> unat x + 2 ^ (7 * i) * unat b < 2 ^ 64"
    proof (cases "i = 9")
      case True
      then show ?thesis using x by auto
    next
      case False
      with Cons.prems(1) True room [of "unat b"] show ?thesis by simp
    qed
    have "uvarint_loop (b # buf) i x (7 * i) =
        (if i = 9 \<and> 1 < unat b then (0, - (int i + 1)) else (x OR push_bit (7 * i) (ucast b), int i + 1))"
      using Cons.prems(1) True by (simp add: b80 b1 MaxVarintLen64_def)
    moreover have "v = x OR push_bit (7 * i) (ucast b) \<longleftrightarrow> unat v = unat x + 2 ^ (7 * i) * unat b"
      if "unat x + 2 ^ (7 * i) * unat b < 2 ^ 64"
      using unat_or_disjoint [OF x, of "ucast b"] that by (auto simp: unat_ucast_byte word_unat_eq_iff)
    ultimately show ?thesis
      unfolding split using True fits Cons.prems(1) by (auto split: if_splits)
  next
    case False
    let ?x = "x OR push_bit (7 * i) (ucast (b AND 0x7f))"
    have step: "uvarint_loop (b # buf) i x (7 * i) = uvarint_loop buf (Suc i) ?x (7 * Suc i)"
      using Cons.prems(1) False by (simp add: b80 MaxVarintLen64_def add.commute)
    show ?thesis
    proof (cases "i = 9")
      case True
      have "\<not> (\<exists>bs rest. buf = bs @ rest \<and> varint_bytes bs \<and> k = i + length (b # bs) \<and> k \<le> 10 \<and> P bs)" for P
        using True by auto
      then show ?thesis
        unfolding split step using True False by (cases buf) (auto simp: MaxVarintLen64_def)
    next
      case False': False
      then have i: "i \<le> 8" using Cons.prems(1) by simp
      have x': "unat ?x = unat x + 2 ^ (7 * i) * (unat b mod 128)"
        using unat_or_disjoint [OF x, of "ucast (b AND 0x7f)"] room [OF i, of "unat b mod 128"]
        by (simp add: unat_low_bits)
      have "unat ?x < 2 ^ (7 * Suc i)"
      proof -
        have "unat ?x < 2 ^ (7 * i) * (1 + unat b mod 128)" using x by (simp add: x')
        also have "\<dots> \<le> 2 ^ (7 * i) * 2 ^ 7" by (intro mult_le_mono2) (simp add: Suc_leI)
        also have "\<dots> = 2 ^ (7 * Suc i)" by (simp only: power_add [symmetric]) simp
        finally show ?thesis .
      qed
      note IH = Cons.IH [OF _ this]
      have weight: "unat ?x + 2 ^ (7 * Suc i) * n = unat x + 2 ^ (7 * i) * (unat b mod 128 + 128 * n)" for n
        unfolding x' by (simp add: power_add algebra_simps)
      have "Suc i < k \<longleftrightarrow> i < k" if "uvarint_loop buf (Suc i) ?x (7 * Suc i) = (v, int k)"
        using uvarint_loop_bounds [OF that] by (cases k) auto
      then have "uvarint_loop (b # buf) i x (7 * i) = (v, int k) \<and> i < k \<longleftrightarrow>
          uvarint_loop buf (Suc i) ?x (7 * Suc i) = (v, int k) \<and> Suc i < k"
        unfolding step by blast
      also have "\<dots> \<longleftrightarrow> (\<exists>bs rest. b # buf = bs @ rest \<and> varint_bytes bs \<and> k = i + length bs \<and> k \<le> 10 \<and>
          unat x + 2 ^ (7 * i) * varint_value bs < 2 ^ 64 \<and> unat v = unat x + 2 ^ (7 * i) * varint_value bs)"
        unfolding split using IH [unfolded weight] i False by simp
      finally show ?thesis .
    qed
  qed
qed

lemma Uvarint_form:
  "Uvarint buf = (v, int k) \<and> 0 < k \<longleftrightarrow> (\<exists>bs rest. buf = bs @ rest \<and> varint_form (unat v) bs \<and> k = length bs)"
proof -
  have "unat v < 2 ^ 64" using unsigned_less [of v, where 'a = nat] by simp
  then have "(varint_bytes bs \<and> k = 0 + length bs \<and> k \<le> 10 \<and> unat (0::uint64) + 2 ^ (7 * 0) * varint_value bs < 2 ^ 64 \<and>
      unat v = unat (0::uint64) + 2 ^ (7 * 0) * varint_value bs) \<longleftrightarrow> varint_form (unat v) bs \<and> k = length bs" for bs
    by (auto simp: varint_form_def)
  with uvarint_loop_form [of 0 0 buf v k] show ?thesis by (simp add: Uvarint_def)
qed

interpretation varint: grammar consumeUvarint "\<lambda>n bs. varint_form (unat n) bs"
proof
  fix data offset n "next"
  have "consumeUvarint data offset = Inr (n, next) \<longleftrightarrow>
      (\<exists>k. Uvarint (drop offset data) = (n, int k) \<and> 0 < k \<and> next = offset + k)"
  proof -
    have empty: "Uvarint (drop offset data) = (0, 0)" if "length data \<le> offset"
      using that by (simp add: Uvarint_def)
    obtain v read where r: "Uvarint (drop offset data) = (v, read)" by (cases "Uvarint (drop offset data)")
    show ?thesis
    proof (cases "0 < read")
      case True
      then have "read = int (nat read)" by simp
      moreover have "offset < length data" using True r empty by (cases "offset < length data") simp_all
      ultimately show ?thesis using True r by (auto simp: consumeUvarint_def)
    next
      case False
      with r show ?thesis by (auto simp: consumeUvarint_def)
    qed
  qed
  also have "\<dots> \<longleftrightarrow> (\<exists>k. (\<exists>bs rest. drop offset data = bs @ rest \<and> varint_form (unat n) bs \<and> k = length bs) \<and> next = offset + k)"
    unfolding Uvarint_form [symmetric] by simp
  finally show "consumeUvarint data offset = Inr (n, next) \<longleftrightarrow>
      (\<exists>bs rest. drop offset data = bs @ rest \<and> varint_form (unat n) bs \<and> next = offset + length bs)" by blast
qed

lemma drop_after: "drop offset data = bs @ rest \<Longrightarrow> drop (offset + length bs) data = rest"
  by (metis add.commute append_eq_conv_conj drop_drop)

lemma length_after: "drop offset data = bs @ rest \<Longrightarrow> bs \<noteq> [] \<Longrightarrow> length data = offset + length bs + length rest"
  by (metis add.assoc drop_all le_add_diff_inverse length_append length_drop linorder_linear append_is_Nil_conv)

text \<open>A length prefix and the bytes it announces.\<close>

lemma sized_steps:
  "(\<exists>size next. consumeUvarint data offset = Inr (size, next) \<and> \<not> unat size > length data - next \<and> P (unat size) \<and>
      v = take (unat size) (drop next data) \<and> after = next + unat size) \<longleftrightarrow>
   (\<exists>bs rest. drop offset data = bs @ rest \<and> sized_form v bs \<and> P (length v) \<and> after = offset + length bs)"
proof
  assume "\<exists>size next. consumeUvarint data offset = Inr (size, next) \<and> \<not> unat size > length data - next \<and> P (unat size) \<and>
      v = take (unat size) (drop next data) \<and> after = next + unat size"
  then obtain size tl where fits: "consumeUvarint data offset = Inr (size, tl)"
    "unat size \<le> length data - tl" "P (unat size)" "v = take (unat size) (drop tl data)" "after = tl + unat size"
    by (auto simp: not_less)
  from fits(1) obtain bs rest where bs: "drop offset data = bs @ rest" "varint_form (unat size) bs" "tl = offset + length bs"
    unfolding varint.decode_iff by blast
  have rest: "drop tl data = rest" using drop_after [OF bs(1)] bs(3) by simp
  with fits have v: "length v = unat size" "rest = v @ drop (unat size) rest" by auto
  with bs fits show "\<exists>bs rest. drop offset data = bs @ rest \<and> sized_form v bs \<and> P (length v) \<and> after = offset + length bs"
    by (intro exI [of _ "bs @ v"] exI [of _ "drop (unat size) rest"]) (auto simp: sized_form_def)
next
  assume "\<exists>bs rest. drop offset data = bs @ rest \<and> sized_form v bs \<and> P (length v) \<and> after = offset + length bs"
  then obtain size rest where bs: "drop offset data = size @ v @ rest" "varint_form (length v) size" "P (length v)"
    "after = offset + length size + length v"
    by (auto simp: sized_form_def)
  from bs(2) have u: "unat (of_nat (length v) :: uint64) = length v" by (simp add: varint_form_def unat_of_nat64)
  have "consumeUvarint data offset = Inr (of_nat (length v), offset + length size)"
    unfolding varint.decode_iff u using bs(1,2) by blast
  moreover have "length data = offset + length size + (length v + length rest)"
    using length_after [OF bs(1) varint_form_nonempty [OF bs(2)]] by simp
  moreover have "drop (offset + length size) data = v @ rest" by (rule drop_after [OF bs(1)])
  ultimately show "\<exists>size next. consumeUvarint data offset = Inr (size, next) \<and> \<not> unat size > length data - next \<and> P (unat size) \<and>
      v = take (unat size) (drop next data) \<and> after = next + unat size"
    using bs(3,4) by (intro exI [of _ "of_nat (length v)"] exI [of _ "offset + length size"]) (simp add: u)
qed

interpretation sized_value: grammar sized sized_form
proof
  fix data offset v after
  have "sized data offset = Inr (v, after) \<longleftrightarrow>
      (\<exists>size next. consumeUvarint data offset = Inr (size, next) \<and> \<not> unat size > length data - next \<and> True \<and>
        v = take (unat size) (drop next data) \<and> after = next + unat size)"
    by (auto simp: sized_def Let_def)
  then show "sized data offset = Inr (v, after) \<longleftrightarrow>
      (\<exists>bs rest. drop offset data = bs @ rest \<and> sized_form v bs \<and> after = offset + length bs)"
    unfolding sized_steps [where P = "\<lambda>_. True"] by simp
qed

lemma unat_BigEndian:
  "length v \<le> 8 \<Longrightarrow> BigEndian_Uint64 (replicate (8 - length v) 0 @ v) = n \<longleftrightarrow> be_value v = unat n"
  by (metis BigEndian_padded word_unat_eq_iff)

interpretation uint_value: grammar orderPreservingUint "\<lambda>n bs. uint_form (unat n) bs"
proof
  fix data offset n after
  have "orderPreservingUint data offset = Inr (n, after) \<longleftrightarrow>
      (\<exists>size next. consumeUvarint data offset = Inr (size, next) \<and> \<not> unat size > length data - next \<and> unat size \<le> 8 \<and>
        n = BigEndian_Uint64 (replicate (8 - unat size) 0 @ take (unat size) (drop next data)) \<and> after = next + unat size)"
    by (auto simp: orderPreservingUint_def Let_def not_less)
  also have "\<dots> \<longleftrightarrow> (\<exists>v. (\<exists>size next. consumeUvarint data offset = Inr (size, next) \<and> \<not> unat size > length data - next \<and> unat size \<le> 8 \<and>
        v = take (unat size) (drop next data) \<and> after = next + unat size) \<and>
      n = BigEndian_Uint64 (replicate (8 - length v) 0 @ v))"
  proof -
    have "length (take (unat size) (drop next data)) = unat size" if "\<not> unat size > length data - next" for size :: uint64 and "next"
      using that by simp
    then show ?thesis by metis
  qed
  also have "\<dots> \<longleftrightarrow> (\<exists>v. (\<exists>bs rest. drop offset data = bs @ rest \<and> sized_form v bs \<and> length v \<le> 8 \<and> after = offset + length bs) \<and>
      n = BigEndian_Uint64 (replicate (8 - length v) 0 @ v))"
    unfolding sized_steps [where P = "\<lambda>k. k \<le> 8"] ..
  also have "\<dots> \<longleftrightarrow> (\<exists>bs rest. drop offset data = bs @ rest \<and> uint_form (unat n) bs \<and> after = offset + length bs)"
    unfolding uint_form_def by (metis unat_BigEndian)
  finally show "orderPreservingUint data offset = Inr (n, after) \<longleftrightarrow>
      (\<exists>bs rest. drop offset data = bs @ rest \<and> uint_form (unat n) bs \<and> after = offset + length bs)" .
qed

text \<open>A height fills its bytes, and so does a transaction number, whatever it is.\<close>

lemma uint_form_less: "uint_form n bs \<Longrightarrow> n < 2 ^ 64"
proof -
  assume "uint_form n bs"
  then obtain v where v: "length v \<le> 8" "be_value v = n" by (auto simp: uint_form_def)
  have "(256::nat) ^ length v \<le> 256 ^ 8" using v(1) by (intro power_increasing) auto
  with be_value_bound [of v] v(2) show ?thesis by simp
qed

lemma decodeHeight_form:
  "(\<exists>transaction. decodeHeight data = Inr (block, transaction)) \<longleftrightarrow> height_form (unat block) data"
proof
  assume "\<exists>transaction. decodeHeight data = Inr (block, transaction)"
  then obtain transaction offset where steps: "orderPreservingUint data 0 = Inr (block, offset)"
    "orderPreservingUint data offset = Inr (transaction, length data)"
    by (auto simp: decodeHeight_def)
  from steps(1) obtain a rest where a: "data = a @ rest" "uint_form (unat block) a" "offset = length a"
    unfolding uint_value.decode_iff by auto
  from steps(2) a obtain b rest' where "rest = b @ rest'" "uint_form (unat transaction) b" "length data = length a + length b"
    unfolding uint_value.decode_iff by auto
  with a show "height_form (unat block) data" unfolding height_form_def by auto
next
  assume "height_form (unat block) data"
  then obtain a b t where form: "uint_form (unat block) a" "uint_form t b" "data = a @ b"
    unfolding height_form_def by blast
  have "orderPreservingUint data 0 = Inr (block, length a)"
    unfolding uint_value.decode_iff using form by auto
  moreover have "orderPreservingUint data (length a) = Inr (of_nat t, length data)"
    unfolding uint_value.decode_iff unat_of_nat64 [OF uint_form_less [OF form(2)]] using form(2,3) by auto
  ultimately show "\<exists>transaction. decodeHeight data = Inr (block, transaction)" by (simp add: decodeHeight_def)
qed

subsection \<open>Messages\<close>

text \<open>The map the code builds from the fields, which are at most once in the message.\<close>

definition field_table :: "(nat \<times> bytes) list \<Rightarrow> (uint64 \<rightharpoonup> bytes)" where
  "field_table flds = map_of (map (\<lambda>(f, v). (of_nat f, v)) flds)"

definition message_fields_ok :: "(uint64 \<Rightarrow> bool) \<Rightarrow> (nat \<times> bytes) list \<Rightarrow> bool" where
  "message_fields_ok seen flds \<longleftrightarrow> distinct (map fst flds) \<and> (\<forall>f \<in> fst ` set flds. 1 \<le> f \<and> f \<le> 4 \<and> \<not> seen (of_nat f))"

lemma of_nat_small_inject: "f < 2 ^ 64 \<Longrightarrow> g < 2 ^ 64 \<Longrightarrow> (of_nat f :: uint64) = of_nat g \<longleftrightarrow> f = g"
  by (metis unat_of_nat64)

lemma field_table_simps: "field_table [] = Map.empty" "field_table ((f, v) # flds) = (field_table flds)(of_nat f \<mapsto> v)"
  by (simp_all add: field_table_def)

lemma dom_field_table: "dom (field_table flds) = of_nat ` fst ` set flds"
  by (simp add: field_table_def dom_map_of_conv_image_fst image_comp comp_def case_prod_beta)

lemma field_table_lookup:
  assumes "\<forall>f \<in> fst ` set flds. f \<le> 4" "g \<le> 4"
  shows "field_table flds (of_nat g) = map_of flds g"
  using assms(1)
proof (induction flds)
  case (Cons p flds)
  obtain f v where p: "p = (f, v)" by (cases p)
  with Cons.prems assms(2) have "(of_nat g :: uint64) = of_nat f \<longleftrightarrow> g = f" by (intro of_nat_small_inject) auto
  with Cons p show ?case by (simp add: field_table_simps)
qed (simp add: field_table_simps)

lemma message_fields_ok_Cons:
  "message_fields_ok seen ((f, v) # flds) \<longleftrightarrow>
     1 \<le> f \<and> f \<le> 4 \<and> \<not> seen (of_nat f) \<and> message_fields_ok (seen(of_nat f := True)) flds"
proof -
  have "g \<noteq> f \<longleftrightarrow> (of_nat g :: uint64) \<noteq> of_nat f" if "g \<le> 4" "f \<le> 4" for g
    using that of_nat_small_inject [of g f] by simp
  then show ?thesis unfolding message_fields_ok_def by (auto simp: image_iff)
qed

lemma tag_iff:
  assumes "1 \<le> f" "f \<le> 4"
  shows "unat (tag::uint64) = 8 * f + 2 \<longleftrightarrow> tag AND 7 = 2 \<and> drop_bit 3 tag = of_nat f"
proof -
  have f: "unat (of_nat f :: uint64) = f" using assms by (intro unat_of_nat64) simp
  have "(7::uint64) = mask 3" by (simp add: mask_eq_exp_minus_1)
  then have low: "tag AND 7 = take_bit 3 tag" by (simp only: take_bit_eq_mask)
  have "unat (take_bit 3 tag) = unat tag mod 8" by (simp only: unsigned_take_bit_eq) (simp add: take_bit_eq_mod)
  with word_unat_eq_iff [of "take_bit 3 tag" 2] have a: "tag AND 7 = 2 \<longleftrightarrow> unat tag mod 8 = 2" by (simp only: low) simp
  have b: "drop_bit 3 tag = of_nat f \<longleftrightarrow> unat tag div 8 = f"
    by (simp add: word_unat_eq_iff f drop_bit_eq_div unat_div_distrib)
  have "n = 8 * f + 2 \<longleftrightarrow> n mod 8 = 2 \<and> n div 8 = f" for n :: nat
  proof
    show "n mod 8 = 2 \<and> n div 8 = f" if "n = 8 * f + 2"
      using div_mult_self4 [of 8 f 2] mod_mult_self4 [of 8 f 2] that by (simp del: add_2_eq_Suc')
    show "n = 8 * f + 2" if "n mod 8 = 2 \<and> n div 8 = f"
      using mult_div_mod_eq [of 8 n] that by linarith
  qed
  then show ?thesis unfolding a b .
qed

lemma field_range: "\<not> (drop_bit 3 (tag::uint64) < 1 \<or> drop_bit 3 tag > 4) \<longleftrightarrow> (\<exists>f. 1 \<le> f \<and> f \<le> 4 \<and> drop_bit 3 tag = of_nat f)"
proof
  assume "\<not> (drop_bit 3 tag < 1 \<or> drop_bit 3 tag > 4)"
  then show "\<exists>f. 1 \<le> f \<and> f \<le> 4 \<and> drop_bit 3 tag = of_nat f"
    by (intro exI [of _ "unat (drop_bit 3 tag)"]) (simp add: not_less word_le_nat_alt Suc_le_eq unat_gt_0)
next
  assume "\<exists>f. 1 \<le> f \<and> f \<le> 4 \<and> drop_bit 3 tag = of_nat f"
  then obtain f where f: "1 \<le> f" "f \<le> 4" "drop_bit 3 tag = of_nat f" by blast
  have "unat (of_nat f :: uint64) = f" using f by (intro unat_of_nat64) simp
  with f have "1 \<le> unat (drop_bit 3 tag)" "unat (drop_bit 3 tag) \<le> 4" by simp_all
  then have "1 \<le> drop_bit 3 tag" "drop_bit 3 tag \<le> 4" unfolding word_le_nat_alt by simp_all
  then show "\<not> (drop_bit 3 tag < 1 \<or> drop_bit 3 tag > 4)" by (simp only: not_less de_Morgan_disj simp_thms)
qed

text \<open>One iteration of the loop: a tag of an unseen field and its value.\<close>

lemma protobuf_loop_step:
  assumes "offset < length data"
  shows "protobuf_loop data offset flds seen = Inr m \<longleftrightarrow>
    (\<exists>f v bs rest. drop offset data = bs @ rest \<and> field_form (f, v) bs \<and> 1 \<le> f \<and> f \<le> 4 \<and> \<not> seen (of_nat f) \<and>
       protobuf_loop data (offset + length bs) (flds(of_nat f \<mapsto> v)) (seen(of_nat f := True)) = Inr m)"
proof -
  have "protobuf_loop data offset flds seen = Inr m \<longleftrightarrow>
      (\<exists>tag next f v after. consumeUvarint data offset = Inr (tag, next) \<and> unat tag = 8 * f + 2 \<and> 1 \<le> f \<and> f \<le> 4 \<and>
         \<not> seen (of_nat f) \<and> sized data next = Inr (v, after) \<and>
         protobuf_loop data after (flds(of_nat f \<mapsto> v)) (seen(of_nat f := True)) = Inr m)"
    (is "_ \<longleftrightarrow> ?steps")
  proof -
    have "protobuf_loop data offset flds seen = Inr m \<longleftrightarrow>
      (\<exists>tag next v after. consumeUvarint data offset = Inr (tag, next) \<and> tag AND 7 = 2 \<and>
         \<not> (drop_bit 3 tag < 1 \<or> drop_bit 3 tag > 4) \<and> \<not> seen (drop_bit 3 tag) \<and> sized data next = Inr (v, after) \<and>
         protobuf_loop data after (flds(drop_bit 3 tag \<mapsto> v)) (seen(drop_bit 3 tag := True)) = Inr m)"
      using assms by (auto simp: Let_def protobuf_loop.simps [of data offset flds seen])
    also have "\<dots> \<longleftrightarrow> ?steps"
      unfolding field_range using tag_iff by metis
    finally show ?thesis .
  qed
  also have "\<dots> \<longleftrightarrow> (\<exists>f v bs rest. drop offset data = bs @ rest \<and> field_form (f, v) bs \<and> 1 \<le> f \<and> f \<le> 4 \<and> \<not> seen (of_nat f) \<and>
       protobuf_loop data (offset + length bs) (flds(of_nat f \<mapsto> v)) (seen(of_nat f := True)) = Inr m)"
    (is "_ \<longleftrightarrow> ?form")
  proof
    assume ?steps
    then obtain tag tl f v after where st: "consumeUvarint data offset = Inr (tag, tl)" "unat tag = 8 * f + 2" "1 \<le> f" "f \<le> 4"
      "\<not> seen (of_nat f)" "sized data tl = Inr (v, after)"
      "protobuf_loop data after (flds(of_nat f \<mapsto> v)) (seen(of_nat f := True)) = Inr m" by blast
    from st(1) obtain a rest where a: "drop offset data = a @ rest" "varint_form (unat tag) a" "tl = offset + length a"
      unfolding varint.decode_iff by blast
    from st(6) a(3) drop_after [OF a(1)] obtain b rest' where b: "rest = b @ rest'" "sized_form v b" "after = tl + length b"
      unfolding sized_value.decode_iff by auto
    have "field_form (f, v) (a @ b)" using a(2) b(2) st(2) by (auto simp: field_form_def)
    moreover have "drop offset data = (a @ b) @ rest'" "after = offset + length (a @ b)" using a b by simp_all
    ultimately show ?form using st(3-5,7) by blast
  next
    assume ?form
    then obtain f v bs rest where fm: "drop offset data = bs @ rest" "field_form (f, v) bs" "1 \<le> f" "f \<le> 4" "\<not> seen (of_nat f)"
      "protobuf_loop data (offset + length bs) (flds(of_nat f \<mapsto> v)) (seen(of_nat f := True)) = Inr m" by blast
    from fm(2) obtain a b where ab: "varint_form (8 * f + 2) a" "sized_form v b" "bs = a @ b" by (auto simp: field_form_def)
    have u: "unat (of_nat (8 * f + 2) :: uint64) = 8 * f + 2" using fm(4) by (intro unat_of_nat64) simp
    have "consumeUvarint data offset = Inr (of_nat (8 * f + 2), offset + length a)"
      unfolding varint.decode_iff u using fm(1) ab by auto
    moreover have "drop (offset + length a) data = b @ rest" using drop_after [of offset data a "b @ rest"] fm(1) ab(3) by simp
    then have "sized data (offset + length a) = Inr (v, offset + length bs)"
      unfolding sized_value.decode_iff using ab by auto
    ultimately show ?steps using fm(3-6) u by blast
  qed
  finally show ?thesis .
qed

lemma protobuf_loop_form:
  "protobuf_loop data offset flds seen = Inr m \<longleftrightarrow>
     (\<exists>fs. message_form fs (drop offset data) \<and> message_fields_ok seen fs \<and> m = flds ++ field_table fs)"
proof (induction "length data - offset" arbitrary: offset flds seen rule: less_induct)
  case less
  show ?case
  proof (cases "offset < length data")
    case False
    then have "protobuf_loop data offset flds seen = Inr m \<longleftrightarrow> m = flds"
      by (subst protobuf_loop.simps) auto
    moreover have "(\<exists>fs. message_form fs (drop offset data) \<and> message_fields_ok seen fs \<and> m = flds ++ field_table fs) \<longleftrightarrow> m = flds"
      using False by (auto dest: message_form_empty simp: message_form_simps message_fields_ok_def field_table_simps intro!: exI [of _ "[]"])
    ultimately show ?thesis by simp
  next
    case True
    have IH: "protobuf_loop data (offset + length bs) (flds(of_nat f \<mapsto> v)) (seen(of_nat f := True)) = Inr m \<longleftrightarrow>
        (\<exists>fs. message_form fs rest \<and> message_fields_ok (seen(of_nat f := True)) fs \<and> m = flds(of_nat f \<mapsto> v) ++ field_table fs)"
      if "drop offset data = bs @ rest" "field_form (f, v) bs" for f v bs rest
    proof -
      have "bs \<noteq> []" by (rule field_form_nonempty [OF that(2)])
      then have "length data - (offset + length bs) < length data - offset" using True by (cases bs) auto
      from less [OF this, of "flds(of_nat f \<mapsto> v)" "seen(of_nat f := True)"] show ?thesis
        by (simp add: drop_after [OF that(1)])
    qed
    have add: "flds(of_nat f \<mapsto> v) ++ field_table fs = flds ++ field_table ((f, v) # fs)"
      if "message_fields_ok (seen(of_nat f := True)) fs" "f \<le> 4" for f v fs
    proof -
      have "(of_nat f :: uint64) \<notin> of_nat ` fst ` set fs" using that by (auto simp: message_fields_ok_def)
      then have "of_nat f \<notin> dom (field_table fs)" by (simp add: dom_field_table)
      then show ?thesis by (simp add: field_table_simps map_add_upd_left)
    qed
    show ?thesis
    proof
      assume "protobuf_loop data offset flds seen = Inr m"
      then obtain f v bs rest where bs: "drop offset data = bs @ rest" "field_form (f, v) bs" "1 \<le> f" "f \<le> 4" "\<not> seen (of_nat f)"
        and loop: "protobuf_loop data (offset + length bs) (flds(of_nat f \<mapsto> v)) (seen(of_nat f := True)) = Inr m"
        unfolding protobuf_loop_step [OF True] by blast
      from IH [THEN iffD1, OF bs(1,2) loop] obtain fs where
        fs: "message_form fs rest" "message_fields_ok (seen(of_nat f := True)) fs" "m = flds(of_nat f \<mapsto> v) ++ field_table fs"
        by (elim exE conjE)
      have "message_form ((f, v) # fs) (drop offset data)" using bs(1,2) fs(1) unfolding message_form_simps by blast
      moreover have "message_fields_ok seen ((f, v) # fs)" unfolding message_fields_ok_Cons by (intro conjI bs(3-5) fs(2))
      moreover have "m = flds ++ field_table ((f, v) # fs)" using fs(3) add [OF fs(2) bs(4)] by (simp only:)
      ultimately show "\<exists>fs. message_form fs (drop offset data) \<and> message_fields_ok seen fs \<and> m = flds ++ field_table fs"
        by blast
    next
      assume "\<exists>fs. message_form fs (drop offset data) \<and> message_fields_ok seen fs \<and> m = flds ++ field_table fs"
      then obtain fs where fs: "message_form fs (drop offset data)" "message_fields_ok seen fs" "m = flds ++ field_table fs" by blast
      then obtain f v fs' where Cons: "fs = (f, v) # fs'" using True by (cases fs) (auto simp: message_form_simps)
      with fs(1) obtain bs rest where bs: "drop offset data = bs @ rest" "field_form (f, v) bs" "message_form fs' rest"
        by (auto simp: message_form_simps)
      have ok: "1 \<le> f" "f \<le> 4" "\<not> seen (of_nat f)" "message_fields_ok (seen(of_nat f := True)) fs'"
        using fs(2) by (auto simp: Cons message_fields_ok_Cons)
      have "m = flds(of_nat f \<mapsto> v) ++ field_table fs'" using fs(3) add [OF ok(4,2)] by (simp add: Cons)
      with IH [OF bs(1,2)] bs(3) ok(4)
      have "protobuf_loop data (offset + length bs) (flds(of_nat f \<mapsto> v)) (seen(of_nat f := True)) = Inr m" by blast
      with bs(1,2) ok show "protobuf_loop data offset flds seen = Inr m" unfolding protobuf_loop_step [OF True] by blast
    qed
  qed
qed

lemma protobufBytes_form:
  "protobufBytes data = Inr m \<longleftrightarrow>
     (\<exists>fs. message_form fs data \<and> distinct (map fst fs) \<and> fst ` set fs \<subseteq> {1..4} \<and> m = field_table fs)"
  by (auto simp: protobufBytes_def protobuf_loop_form message_fields_ok_def subset_iff)

subsection \<open>Namespace metadata\<close>

definition namespace_form :: "namespace \<Rightarrow> bytes \<Rightarrow> bool" where
  "namespace_form ns bs \<longleftrightarrow>
     (\<exists>name count. sized_form (bytes_of_string (Name ns)) name \<and> varint_form (unat (Records ns)) count \<and> bs = name @ count)"

text \<open>A metadata file: the format byte, the number of namespaces, the namespaces.\<close>

definition namespaces_form :: "namespace list \<Rightarrow> bytes \<Rightarrow> bool" where
  "namespaces_form nss bs \<longleftrightarrow>
     (\<exists>count entries. varint_form (length nss) count \<and> list_all2 namespace_form nss entries \<and> bs = 1 # count @ concat entries)"

lemma decode_namespace_step:
  "decode_namespace_loop name data (Suc n) offset acc = Inr (result, after) \<longleftrightarrow>
     (\<exists>ns bs rest. drop offset data = bs @ rest \<and> namespace_form ns bs \<and>
        decode_namespace_loop name data n (offset + length bs) (acc @ [ns]) = Inr (result, after))"
proof -
  have "decode_namespace_loop name data (Suc n) offset acc = Inr (result, after) \<longleftrightarrow>
      (\<exists>v next records tl. sized data offset = Inr (v, next) \<and> consumeUvarint data next = Inr (records, tl) \<and>
         decode_namespace_loop name data n tl (acc @ [\<lparr>Name = string_of_bytes v, Records = records\<rparr>]) = Inr (result, after))"
    by (auto simp: split_beta)
  also have "\<dots> \<longleftrightarrow> (\<exists>ns bs rest. drop offset data = bs @ rest \<and> namespace_form ns bs \<and>
        decode_namespace_loop name data n (offset + length bs) (acc @ [ns]) = Inr (result, after))" (is "?steps \<longleftrightarrow> ?form")
  proof
    assume ?steps
    then obtain v tl records tl' where st: "sized data offset = Inr (v, tl)" "consumeUvarint data tl = Inr (records, tl')"
      "decode_namespace_loop name data n tl' (acc @ [\<lparr>Name = string_of_bytes v, Records = records\<rparr>]) = Inr (result, after)"
      by blast
    from st(1) obtain a rest where a: "drop offset data = a @ rest" "sized_form v a" "tl = offset + length a"
      unfolding sized_value.decode_iff by blast
    from st(2) a(3) drop_after [OF a(1)] obtain b rest' where
      b: "rest = b @ rest'" "varint_form (unat records) b" "tl' = tl + length b"
      unfolding varint.decode_iff by auto
    have "namespace_form \<lparr>Name = string_of_bytes v, Records = records\<rparr> (a @ b)"
      using a(2) b(2) by (auto simp: namespace_form_def)
    moreover have "drop offset data = (a @ b) @ rest'" "tl' = offset + length (a @ b)" using a b by simp_all
    ultimately show ?form using st(3) by blast
  next
    assume ?form
    then obtain ns bs rest where fm: "drop offset data = bs @ rest" "namespace_form ns bs"
      "decode_namespace_loop name data n (offset + length bs) (acc @ [ns]) = Inr (result, after)" by blast
    from fm(2) obtain a b where ab: "sized_form (bytes_of_string (Name ns)) a" "varint_form (unat (Records ns)) b" "bs = a @ b"
      unfolding namespace_form_def by blast
    have "sized data offset = Inr (bytes_of_string (Name ns), offset + length a)"
      unfolding sized_value.decode_iff using fm(1) ab by auto
    moreover have "drop (offset + length a) data = b @ rest" using drop_after [of offset data a "b @ rest"] fm(1) ab(3) by simp
    then have "consumeUvarint data (offset + length a) = Inr (Records ns, offset + length bs)"
      unfolding varint.decode_iff using ab by auto
    moreover have "\<lparr>Name = string_of_bytes (bytes_of_string (Name ns)), Records = Records ns\<rparr> = ns" by simp
    ultimately show ?steps using fm(3) by metis
  qed
  finally show ?thesis .
qed

lemma decode_namespace_loop_form:
  "decode_namespace_loop name data n offset acc = Inr (result, after) \<longleftrightarrow>
     (\<exists>nss entries rest. length nss = n \<and> list_all2 namespace_form nss entries \<and> drop offset data = concat entries @ rest \<and>
        result = acc @ nss \<and> after = offset + length (concat entries))"
proof (induction n arbitrary: offset acc)
  case 0
  then show ?case by auto
next
  case (Suc n)
  show ?case
  proof
    assume "decode_namespace_loop name data (Suc n) offset acc = Inr (result, after)"
    then obtain ns bs rest where 1: "drop offset data = bs @ rest" "namespace_form ns bs"
      "decode_namespace_loop name data n (offset + length bs) (acc @ [ns]) = Inr (result, after)"
      unfolding decode_namespace_step by blast
    from 1(3) obtain nss entries rest' where 2: "length nss = n" "list_all2 namespace_form nss entries"
      "drop (offset + length bs) data = concat entries @ rest'" "result = (acc @ [ns]) @ nss"
      "after = offset + length bs + length (concat entries)"
      unfolding Suc by blast
    show "\<exists>nss entries rest. length nss = Suc n \<and> list_all2 namespace_form nss entries \<and> drop offset data = concat entries @ rest \<and>
        result = acc @ nss \<and> after = offset + length (concat entries)"
      using 1(1,2) 2 drop_after [OF 1(1)] by (intro exI [of _ "ns # nss"] exI [of _ "bs # entries"] exI [of _ rest']) simp
  next
    assume "\<exists>nss entries rest. length nss = Suc n \<and> list_all2 namespace_form nss entries \<and> drop offset data = concat entries @ rest \<and>
        result = acc @ nss \<and> after = offset + length (concat entries)"
    then obtain ns nss bs entries rest where 1: "length nss = n" "namespace_form ns bs" "list_all2 namespace_form nss entries"
      "drop offset data = bs @ concat entries @ rest" "result = acc @ ns # nss" "after = offset + length bs + length (concat entries)"
      by (auto simp: length_Suc_conv list_all2_Cons1)
    have "decode_namespace_loop name data n (offset + length bs) (acc @ [ns]) = Inr (result, after)"
      unfolding Suc using 1 drop_after [OF 1(4)] by (intro exI [of _ nss] exI [of _ entries] exI [of _ rest]) simp
    with 1(2,4) show "decode_namespace_loop name data (Suc n) offset acc = Inr (result, after)"
      unfolding decode_namespace_step by blast
  qed
qed

lemma namespace_form_length: "namespace_form ns bs \<Longrightarrow> 2 \<le> length bs"
proof -
  assume "namespace_form ns bs"
  then obtain a b where "a \<noteq> []" "b \<noteq> []" "bs = a @ b"
    by (auto simp: namespace_form_def dest: sized_form_nonempty varint_form_nonempty)
  then show ?thesis by (cases a; cases b) auto
qed

lemma namespace_forms_length: "list_all2 namespace_form nss entries \<Longrightarrow> 2 * length nss \<le> length (concat entries)"
  by (induction rule: list_all2_induct) (auto dest: namespace_form_length)

theorem decodeNamespaces_form: "decodeNamespaces name data = Inr nss \<longleftrightarrow> namespaces_form nss data"
proof (cases data)
  case Nil
  then show ?thesis by (auto simp: decodeNamespaces_def namespaces_form_def)
next
  case (Cons b body)
  have "decodeNamespaces name data = Inr nss \<longleftrightarrow> b = 1 \<and>
      (\<exists>count offset. consumeUvarint data 1 = Inr (count, offset) \<and> unat count \<le> (length data - offset) div 2 \<and>
         decode_namespace_loop name data (unat count) offset [] = Inr (nss, length data))"
    by (auto simp: decodeNamespaces_def formatVersion_def Cons not_less)
  also have "\<dots> \<longleftrightarrow> namespaces_form nss data"
  proof
    assume "b = 1 \<and> (\<exists>count offset. consumeUvarint data 1 = Inr (count, offset) \<and> unat count \<le> (length data - offset) div 2 \<and>
         decode_namespace_loop name data (unat count) offset [] = Inr (nss, length data))"
    then obtain count offset where 1: "b = 1" "consumeUvarint data 1 = Inr (count, offset)"
      "decode_namespace_loop name data (unat count) offset [] = Inr (nss, length data)" by blast
    from 1(2) obtain c rest where c: "drop 1 data = c @ rest" "varint_form (unat count) c" "offset = 1 + length c"
      unfolding varint.decode_iff by blast
    from 1(3) obtain entries rest' where e: "length nss = unat count" "list_all2 namespace_form nss entries"
      "drop offset data = concat entries @ rest'" "length data = offset + length (concat entries)"
      unfolding decode_namespace_loop_form by auto
    have "length (drop offset data) = length (concat entries)" using e(4) by simp
    then have "rest' = []" using e(3) by simp
    then have "rest = concat entries" using drop_after [OF c(1)] c(3) e(3) by simp
    with 1(1) c(1,2) e(1,2) show "namespaces_form nss data"
      unfolding namespaces_form_def by (intro exI [of _ c] exI [of _ entries]) (simp add: Cons)
  next
    assume "namespaces_form nss data"
    then obtain c entries where 1: "varint_form (length nss) c" "list_all2 namespace_form nss entries" "b = 1" "body = c @ concat entries"
      by (auto simp: namespaces_form_def Cons)
    have u: "unat (of_nat (length nss) :: uint64) = length nss" using 1(1) by (simp add: varint_form_def unat_of_nat64)
    have "consumeUvarint data 1 = Inr (of_nat (length nss), 1 + length c)"
      unfolding varint.decode_iff u using 1 by (auto simp: Cons)
    moreover have "length nss \<le> (length data - (1 + length c)) div 2"
      using namespace_forms_length [OF 1(2)] by (simp add: Cons 1(4))
    moreover have "decode_namespace_loop name data (length nss) (1 + length c) [] = Inr (nss, length data)"
      unfolding decode_namespace_loop_form using 1 by (intro exI [of _ nss] exI [of _ entries] exI [of _ "[]"]) (simp add: Cons)
    ultimately show "b = 1 \<and> (\<exists>count offset. consumeUvarint data 1 = Inr (count, offset) \<and> unat count \<le> (length data - offset) div 2 \<and>
         decode_namespace_loop name data (unat count) offset [] = Inr (nss, length data))"
      using 1(3) by (intro conjI exI [of _ "of_nat (length nss)"] exI [of _ "1 + length c"]) (simp_all add: u)
  qed
  finally show ?thesis .
qed

subsection \<open>The writers produce the grammar, and it is unambiguous\<close>

lemma sized_form_appendSized:
  assumes "length v < 2 ^ 64"
  shows "sized_form v (appendSized [] v)"
proof -
  have "sized (appendSized [] v) 0 = Inr (v, length (appendSized [] v))"
    using sized_appendSized [OF assms, of "[]" "[]"] by simp
  then show ?thesis unfolding sized_value.decode_iff by auto
qed

lemma field_form_appendField:
  assumes "field_number f" "length v < 2 ^ 64"
  shows "field_form (unat f, v) (appendField [] f v)"
proof -
  have "varint_form (8 * unat f + 2) [push_bit 3 f OR 2]"
    using field_number_cases [OF assms(1)] by (auto simp: varint_form_def)
  moreover have "appendField [] f v = [push_bit 3 f OR 2] @ appendSized [] v"
    by (simp add: appendField_def appendSized_append [of "[_]"])
  ultimately show ?thesis
    unfolding field_form_def fst_conv snd_conv using sized_form_appendSized [OF assms(2)] by blast
qed

lemma message_form_record_bytes:
  "writable_fields fs \<Longrightarrow> message_form (map (\<lambda>(f, v). (unat f, v)) fs) (record_bytes fs)"
proof (induction fs)
  case (Cons p fs)
  obtain f v where p: "p = (f, v)" by (cases p)
  from Cons.prems p have "field_number f" "length v < 2 ^ 64" "writable_fields fs" by (auto simp: writable_fields_def)
  with Cons.IH field_form_appendField show ?case by (auto simp: p codec_simps message_form_simps)
qed (simp add: codec_simps message_form_simps)

lemma varint_form_unique: "varint_form m a \<Longrightarrow> varint_form n b \<Longrightarrow> a @ s = b @ t \<Longrightarrow> m = n \<and> s = t"
  using varint.form_unique [of "of_nat m" a "of_nat n" b s t]
  by (auto simp: varint_form_def unat_of_nat64 dest: of_nat_small_inject [THEN iffD1, rotated 2])

lemma field_form_unique:
  assumes "field_form fld a" "field_form fld' b" "a @ s = b @ t"
  shows "fld = fld' \<and> s = t"
proof -
  from assms(1) obtain t1 b1 where 1: "varint_form (8 * fst fld + 2) t1" "sized_form (snd fld) b1" "a = t1 @ b1"
    by (auto simp: field_form_def)
  from assms(2) obtain t2 b2 where 2: "varint_form (8 * fst fld' + 2) t2" "sized_form (snd fld') b2" "b = t2 @ b2"
    by (auto simp: field_form_def)
  have "8 * fst fld + 2 = 8 * fst fld' + 2 \<and> b1 @ s = b2 @ t"
    using assms(3) by (intro varint_form_unique [OF 1(1) 2(1)]) (simp add: 1(3) 2(3))
  with sized_value.form_unique [OF 1(2) 2(2), of s t] show ?thesis by (simp add: prod_eq_iff)
qed

lemma message_form_unique: "message_form flds bs \<Longrightarrow> message_form flds' bs \<Longrightarrow> flds' = flds"
proof (induction flds arbitrary: flds' bs)
  case Nil
  then show ?case by (auto simp: message_form_simps dest: message_form_empty)
next
  case (Cons fld flds)
  from Cons.prems(1) obtain a b where ab: "bs = a @ b" "field_form fld a" "message_form flds b"
    by (auto simp: message_form_simps)
  then have "bs \<noteq> []" by (auto dest: field_form_nonempty)
  with Cons.prems(2) obtain fld' rest where flds': "flds' = fld' # rest" by (cases flds') (auto simp: message_form_simps)
  with Cons.prems(2) obtain a' b' where ab': "bs = a' @ b'" "field_form fld' a'" "message_form rest b'"
    by (auto simp: message_form_simps)
  have "fld = fld' \<and> b = b'" using ab(1) ab'(1) by (intro field_form_unique [OF ab(2) ab'(2)]) simp
  with Cons.IH [OF ab(3), of rest] ab'(3) flds' show ?case by simp
qed

end
