(* ===== verification/Grammar.thy ===== *)
theory Grammar
  imports Stream Wire
begin

text \<open>
  The data file of a snapshot as a grammar, on top of the formats of theory Wire: what a record is, in
  which order the records come, and what the file is. The walk of theory Stream accepts exactly these
  files (\<open>walk_form\<close>).
\<close>

subsection \<open>The grammar\<close>

text \<open>
  A record: a sized message with each of the fields 1 (key), 2 (value), 3 (metadata) and 4 (version) at
  most once; the key is there and not empty, the version is there and its block is not after \<open>checkpoint\<close>.
  In a file of private hashes key and value are 32 bytes.
\<close>

definition record_form :: "bool \<Rightarrow> uint64 \<Rightarrow> snapshot_record \<Rightarrow> bytes \<Rightarrow> bool" where
  "record_form private checkpoint rec bs \<longleftrightarrow>
     (\<exists>message flds version block. sized_form message bs \<and> length message < 2 ^ 63 \<and>
        message_form flds message \<and> distinct (map fst flds) \<and> fst ` set flds \<subseteq> {1, 2, 3, 4} \<and>
        map_of flds 1 = Some (rKey rec) \<and> map_of flds 2 = rValue rec \<and> map_of flds 3 = rMetadata rec \<and>
        map_of flds 4 = Some version \<and> height_form block version \<and>
        rKey rec \<noteq> [] \<and> block \<le> unat checkpoint \<and>
        (private \<longrightarrow> length (rKey rec) = 32 \<and> (\<exists>v. rValue rec = Some v \<and> length v = 32)))"

text \<open>CouchDB orders private keys by their Base64 text.\<close>

definition file_key :: "bool \<Rightarrow> snapshot_record \<Rightarrow> bytes" where
  "file_key base64 rec = (if base64 then bytes_of_string (base64_EncodeToString (rKey rec)) else rKey rec)"

text \<open>
  A data file: the format byte, then for each announced namespace its announced number of records in
  strictly ascending order, and nothing else.
\<close>

definition data_form :: "bool \<Rightarrow> bool \<Rightarrow> uint64 \<Rightarrow> namespace list \<Rightarrow> snapshot_record list \<Rightarrow> bytes \<Rightarrow> bool" where
  "data_form private base64 checkpoint nss recs bs \<longleftrightarrow>
     (\<exists>groups parts. recs = concat groups \<and>
        list_all2 (\<lambda>ns group. length group = unat (Records ns) \<and> (\<forall>rec \<in> set group. rNamespace rec = Name ns) \<and>
          sorted_wrt (<) (map (file_key base64) group)) nss groups \<and>
        list_all2 (record_form private checkpoint) recs parts \<and> bs = 1 # concat parts)"

subsection \<open>Records\<close>

lemma at_least_64: "(n::uint64) > 0x7FFFFFFFFFFFFFFF \<longleftrightarrow> \<not> unat n < 2 ^ 63"
  by (auto simp: word_less_nat_alt not_less)

lemma readSized_form:
  "readSized r = Inr (v, r') \<longleftrightarrow>
     (\<exists>bs rest. remaining r = bs @ rest \<and> sized_form v bs \<and> length v < 2 ^ 63 \<and> r' = r\<lparr>remaining := rest\<rparr>)"
proof -
  have "readSized r = Inr (v, r') \<longleftrightarrow>
      (\<exists>size k. Uvarint (remaining r) = (size, int k) \<and> 0 < k \<and> unat size < 2 ^ 63 \<and> unat size \<le> length (drop k (remaining r)) \<and>
         v = take (unat size) (drop k (remaining r)) \<and> r' = r\<lparr>remaining := drop (unat size) (drop k (remaining r))\<rparr>)"
  proof -
    have "readSized r = Inr (v, r') \<longleftrightarrow>
        (\<exists>size r1. ReadUvarint r = Inr (size, r1) \<and> \<not> size > 0x7FFFFFFFFFFFFFFF \<and> unat size \<le> length (remaining r1) \<and>
           v = take (unat size) (remaining r1) \<and> r' = r1\<lparr>remaining := drop (unat size) (remaining r1)\<rparr>)"
      by (auto simp: readSized_def not_less)
    also have "\<dots> \<longleftrightarrow> (\<exists>size k. Uvarint (remaining r) = (size, int k) \<and> 0 < k \<and> unat size < 2 ^ 63 \<and> unat size \<le> length (drop k (remaining r)) \<and>
         v = take (unat size) (drop k (remaining r)) \<and> r' = r\<lparr>remaining := drop (unat size) (drop k (remaining r))\<rparr>)"
    proof -
      have "\<not> size > 0x7FFFFFFFFFFFFFFF \<longleftrightarrow> unat size < 2 ^ 63" for size :: uint64 by (simp only: at_least_64 not_not)
      then show ?thesis unfolding ReadUvarint_iff by (simp add: ex_simps(1,2) [symmetric] del: ex_simps length_drop drop_drop)
    qed
    finally show ?thesis .
  qed
  also have "\<dots> \<longleftrightarrow> (\<exists>bs rest. remaining r = bs @ rest \<and> sized_form v bs \<and> length v < 2 ^ 63 \<and> r' = r\<lparr>remaining := rest\<rparr>)"
    (is "?read \<longleftrightarrow> ?form")
  proof
    assume ?read
    then obtain size k where 1: "Uvarint (remaining r) = (size, int k) \<and> 0 < k" "unat size < 2 ^ 63"
      "unat size \<le> length (drop k (remaining r))" "v = take (unat size) (drop k (remaining r))"
      "r' = r\<lparr>remaining := drop (unat size) (drop k (remaining r))\<rparr>" by blast
    from 1(1) obtain bs rest where bs: "remaining r = bs @ rest" "varint_form (unat size) bs" "k = length bs"
      unfolding Uvarint_form by blast
    have v: "v = take (unat size) rest" "length v = unat size" using 1(3,4) bs by simp_all
    have "remaining r = (bs @ v) @ drop (unat size) rest" using bs(1) v(1) by simp
    moreover have "sized_form v (bs @ v)" using bs(2) v(2) by (auto simp: sized_form_def)
    ultimately show ?form using 1(2,5) v(2) bs
      by (intro exI [of _ "bs @ v"] exI [of _ "drop (unat size) rest"]) simp
  next
    assume ?form
    then obtain size rest where 1: "remaining r = size @ v @ rest" "varint_form (length v) size" "length v < 2 ^ 63"
      "r' = r\<lparr>remaining := rest\<rparr>" by (auto simp: sized_form_def)
    have u: "unat (of_nat (length v) :: uint64) = length v" using 1(2) by (simp add: varint_form_def unat_of_nat64)
    have "Uvarint (remaining r) = (of_nat (length v), int (length size)) \<and> 0 < length size"
      unfolding Uvarint_form u using 1(1,2) by blast
    then show ?read using 1 by (intro exI [of _ "of_nat (length v)"] exI [of _ "length size"]) (simp add: u)
  qed
  finally show ?thesis .
qed

lemma four_fields: "fst ` set flds \<subseteq> {1..4} \<longleftrightarrow> fst ` set flds \<subseteq> {1, 2, 3, 4 :: nat}"
proof -
  have "{1..4} = {1, 2, 3, 4 :: nat}" by auto
  then show ?thesis by simp
qed

lemma field_table_lookups:
  assumes "fst ` set flds \<subseteq> {1, 2, 3, 4}"
  shows "field_table flds 1 = map_of flds 1" "field_table flds 2 = map_of flds 2"
    "field_table flds 3 = map_of flds 3" "field_table flds 4 = map_of flds 4"
proof -
  have "\<forall>f \<in> fst ` set flds. f \<le> 4" using assms by auto
  from field_table_lookup [OF this, of 1] field_table_lookup [OF this, of 2]
    field_table_lookup [OF this, of 3] field_table_lookup [OF this, of 4]
  show "field_table flds 1 = map_of flds 1" "field_table flds 2 = map_of flds 2"
    "field_table flds 3 = map_of flds 3" "field_table flds 4 = map_of flds 4" by simp_all
qed

text \<open>The reader's flags: is the file the private one, and is it sorted by Base64 keys.\<close>

definition is_private :: "string \<Rightarrow> bool" where
  "is_private pfx \<longleftrightarrow> pfx = ''private_state_hashes''"

definition is_base64 :: "snapshot_stream \<Rightarrow> string \<Rightarrow> bool" where
  "is_base64 s pfx \<longleftrightarrow> pfx = ''private_state_hashes'' \<and> StateDBType (Metadata s) = ''CouchDB''"

lemma order_key_file_key: "order_key s pfx (rKey rec) = file_key (is_base64 s pfx) rec"
  by (simp add: order_key_def file_key_def is_base64_def private_prefix_def)

lemma message_record:
  "(\<exists>m. protobufBytes raw = Inr m \<and> P (m 1) (m 2) (m 3) (m 4)) \<longleftrightarrow>
   (\<exists>flds. message_form flds raw \<and> distinct (map fst flds) \<and> fst ` set flds \<subseteq> {1, 2, 3, 4} \<and>
      P (map_of flds 1) (map_of flds 2) (map_of flds 3) (map_of flds 4))"
  unfolding protobufBytes_form four_fields using field_table_lookups by metis

lemma read_record_steps:
  "read_record s pfx ns prev r = Inr (rec, ok, r') \<longleftrightarrow>
     (\<exists>raw. readSized r = Inr (raw, r') \<and>
        (\<exists>m. protobufBytes raw = Inr m \<and>
           (\<exists>version block. m 1 = Some (rKey rec) \<and> m 2 = rValue rec \<and> m 3 = rMetadata rec \<and> m 4 = Some version \<and>
              (\<exists>transaction. decodeHeight version = Inr (block, transaction)) \<and> rKey rec \<noteq> [] \<and>
              block \<le> LastBlockNumber (Metadata s) \<and>
              (is_private pfx \<longrightarrow> length (rKey rec) = 32 \<and> (\<exists>v. rValue rec = Some v \<and> length v = 32))))) \<and>
     rNamespace rec = ns \<and> ok = order_key s pfx (rKey rec) \<and> (\<forall>p. prev = Some p \<longrightarrow> p < ok)"
  (is "_ \<longleftrightarrow> ?steps")
proof
  assume "read_record s pfx ns prev r = Inr (rec, ok, r')"
  then show ?steps
    by (auto simp: read_record_def Let_def is_private_def private_prefix_def not_le not_less split: option.splits if_splits)
next
  assume ?steps
  then obtain raw m version block transaction where 1: "readSized r = Inr (raw, r')" "protobufBytes raw = Inr m"
    "m 1 = Some (rKey rec)" "m 2 = rValue rec" "m 3 = rMetadata rec" "m 4 = Some version"
    "decodeHeight version = Inr (block, transaction)" "rKey rec \<noteq> []" "block \<le> LastBlockNumber (Metadata s)"
    and hashes: "is_private pfx \<longrightarrow> length (rKey rec) = 32 \<and> (\<exists>v. rValue rec = Some v \<and> length v = 32)"
    and rest: "rNamespace rec = ns" "ok = order_key s pfx (rKey rec)" "\<forall>p. prev = Some p \<longrightarrow> p < ok" by blast
  have 2: "\<not> (pfx = private_prefix \<and> (length (rKey rec) \<noteq> 32 \<or> length (case rValue rec of None \<Rightarrow> [] | Some v \<Rightarrow> v) \<noteq> 32))"
    using hashes by (auto simp: is_private_def private_prefix_def)
  have 3: "\<not> (case prev of None \<Rightarrow> False | Some p \<Rightarrow> p \<ge> order_key s pfx (rKey rec))"
    using rest(2,3) by (auto simp: not_le split: option.splits)
  have 4: "\<lparr>rNamespace = ns, rKey = rKey rec, rValue = rValue rec, rMetadata = rMetadata rec\<rparr> = rec" using rest(1) by simp
  show "read_record s pfx ns prev r = Inr (rec, ok, r')"
    using 1(8,9) 2 3 4 by (simp add: read_record_def 1(1-7) rest(2) Let_def)
qed

lemma read_record_form:
  "read_record s pfx ns prev r = Inr (rec, ok, r') \<longleftrightarrow>
     (\<exists>bs rest. remaining r = bs @ rest \<and>
        record_form (is_private pfx) (LastBlockNumber (Metadata s)) rec bs \<and> rNamespace rec = ns \<and>
        ok = file_key (is_base64 s pfx) rec \<and> (\<forall>p. prev = Some p \<longrightarrow> p < ok) \<and> r' = r\<lparr>remaining := rest\<rparr>)"
proof -
  let ?fine = "\<lambda>m1 m2 m3 m4. \<exists>version block. m1 = Some (rKey rec) \<and> m2 = rValue rec \<and> m3 = rMetadata rec \<and> m4 = Some version \<and>
      height_form block version \<and> rKey rec \<noteq> [] \<and> block \<le> unat (LastBlockNumber (Metadata s)) \<and>
      (is_private pfx \<longrightarrow> length (rKey rec) = 32 \<and> (\<exists>v. rValue rec = Some v \<and> length v = 32))"
  have height: "(\<exists>block. P (unat block) \<and> height_form (unat block) version \<and> Q \<and> block \<le> l \<and> R) \<longleftrightarrow>
      (\<exists>block. P block \<and> height_form block version \<and> Q \<and> block \<le> unat l \<and> R)" for P version Q R and l :: uint64
  proof -
    have "n = unat (of_nat n :: uint64)" if "height_form n version" for n
      using that by (auto simp: height_form_def dest!: uint_form_less simp: unat_of_nat64)
    then show ?thesis by (metis word_le_nat_alt)
  qed
  have fine: "(\<exists>version block. m1 = Some (rKey rec) \<and> m2 = rValue rec \<and> m3 = rMetadata rec \<and> m4 = Some version \<and>
      (\<exists>transaction. decodeHeight version = Inr (block, transaction)) \<and> rKey rec \<noteq> [] \<and>
      block \<le> LastBlockNumber (Metadata s) \<and>
      (is_private pfx \<longrightarrow> length (rKey rec) = 32 \<and> (\<exists>v. rValue rec = Some v \<and> length v = 32))) \<longleftrightarrow> ?fine m1 m2 m3 m4"
    for m1 m2 m3 m4
    unfolding decodeHeight_form
    by (rule iff_exI) (use height [where P = "\<lambda>_. True"] in simp)
  have form: "record_form (is_private pfx) (LastBlockNumber (Metadata s)) rec bs \<longleftrightarrow>
      (\<exists>raw. sized_form raw bs \<and> length raw < 2 ^ 63 \<and>
         (\<exists>flds. message_form flds raw \<and> distinct (map fst flds) \<and> fst ` set flds \<subseteq> {1, 2, 3, 4} \<and>
            ?fine (map_of flds 1) (map_of flds 2) (map_of flds 3) (map_of flds 4)))" for bs
    unfolding record_form_def by blast
  show ?thesis
    unfolding read_record_steps fine message_record [where P = ?fine] readSized_form form order_key_file_key by blast
qed

lemma parse_namespace_form:
  "parse_namespace s pfx ns n prev r = Inr (recs, r') \<longleftrightarrow>
     (\<exists>parts rest. remaining r = concat parts @ rest \<and>
        list_all2 (record_form (is_private pfx) (LastBlockNumber (Metadata s))) recs parts \<and> length recs = n \<and>
        (\<forall>rec \<in> set recs. rNamespace rec = ns) \<and>
        sorted_wrt (<) ((case prev of None \<Rightarrow> [] | Some p \<Rightarrow> [p]) @ map (file_key (is_base64 s pfx)) recs) \<and>
        r' = r\<lparr>remaining := rest\<rparr>)"
proof (induction n arbitrary: prev r recs)
  case 0
  then show ?case by (auto split: option.splits)
next
  case (Suc n)
  let ?form = "record_form (is_private pfx) (LastBlockNumber (Metadata s))" and ?key = "file_key (is_base64 s pfx)"
  have order: "sorted_wrt (<) ((case prev of None \<Rightarrow> [] | Some p \<Rightarrow> [p]) @ map ?key (rec # recs1)) \<longleftrightarrow>
      (\<forall>p. prev = Some p \<longrightarrow> p < ?key rec) \<and> sorted_wrt (<) ([?key rec] @ map ?key recs1)" for rec recs1
    by (cases prev) (auto intro: less_trans)
  have "parse_namespace s pfx ns (Suc n) prev r = Inr (recs, r') \<longleftrightarrow>
      (\<exists>rec ok r1 recs1. read_record s pfx ns prev r = Inr (rec, ok, r1) \<and>
         parse_namespace s pfx ns n (Some ok) r1 = Inr (recs1, r') \<and> recs = rec # recs1)" by auto
  also have "\<dots> \<longleftrightarrow> (\<exists>parts rest. remaining r = concat parts @ rest \<and> list_all2 ?form recs parts \<and> length recs = Suc n \<and>
        (\<forall>rec \<in> set recs. rNamespace rec = ns) \<and>
        sorted_wrt (<) ((case prev of None \<Rightarrow> [] | Some p \<Rightarrow> [p]) @ map ?key recs) \<and> r' = r\<lparr>remaining := rest\<rparr>)"
    (is "?steps \<longleftrightarrow> ?parts")
  proof
    assume ?steps
    then obtain rec ok r1 recs1 where 1: "read_record s pfx ns prev r = Inr (rec, ok, r1)"
      "parse_namespace s pfx ns n (Some ok) r1 = Inr (recs1, r')" "recs = rec # recs1" by blast
    from 1(1) obtain bs rest where a: "remaining r = bs @ rest" "?form rec bs" "rNamespace rec = ns" "ok = ?key rec"
      "\<forall>p. prev = Some p \<longrightarrow> p < ok" "r1 = r\<lparr>remaining := rest\<rparr>" unfolding read_record_form by blast
    from 1(2) obtain parts rest' where b: "rest = concat parts @ rest'" "list_all2 ?form recs1 parts" "length recs1 = n"
      "\<forall>rec \<in> set recs1. rNamespace rec = ns" "sorted_wrt (<) ([ok] @ map ?key recs1)" "r' = r1\<lparr>remaining := rest'\<rparr>"
      unfolding Suc.IH a(6) by auto
    have "sorted_wrt (<) ((case prev of None \<Rightarrow> [] | Some p \<Rightarrow> [p]) @ map ?key recs)"
      unfolding 1(3) order using a(4,5) b(5) by simp
    with a b 1(3) show ?parts by (intro exI [of _ "bs # parts"] exI [of _ rest']) simp
  next
    assume ?parts
    then obtain rec recs1 bs parts rest where 1: "remaining r = bs @ concat parts @ rest" "?form rec bs" "list_all2 ?form recs1 parts"
      "length recs1 = n" "\<forall>rec \<in> set (rec # recs1). rNamespace rec = ns"
      "sorted_wrt (<) ((case prev of None \<Rightarrow> [] | Some p \<Rightarrow> [p]) @ map ?key (rec # recs1))" "r' = r\<lparr>remaining := rest\<rparr>"
      "recs = rec # recs1"
      by (auto simp: length_Suc_conv list_all2_Cons1)
    let ?r = "r\<lparr>remaining := concat parts @ rest\<rparr>"
    have "read_record s pfx ns prev r = Inr (rec, ?key rec, ?r)"
      unfolding read_record_form using 1(1,2,5,6) unfolding order by auto
    moreover have "parse_namespace s pfx ns n (Some (?key rec)) ?r = Inr (recs1, r')"
      unfolding Suc.IH using 1(3-7) unfolding order by auto
    ultimately show ?steps using 1(8) by blast
  qed
  finally show ?case .
qed

lemma parse_namespaces_form:
  "parse_namespaces s pfx nss r = Inr (recs, r') \<longleftrightarrow>
     (\<exists>groups parts rest. recs = concat groups \<and>
        list_all2 (\<lambda>ns group. length group = unat (Records ns) \<and> (\<forall>rec \<in> set group. rNamespace rec = Name ns) \<and>
          sorted_wrt (<) (map (file_key (is_base64 s pfx)) group)) nss groups \<and>
        list_all2 (record_form (is_private pfx) (LastBlockNumber (Metadata s))) recs parts \<and>
        remaining r = concat parts @ rest \<and> r' = r\<lparr>remaining := rest\<rparr>)"
  (is "_ \<longleftrightarrow> (\<exists>groups parts rest. recs = concat groups \<and> list_all2 ?group nss groups \<and> list_all2 ?form recs parts \<and> _ parts rest \<and> _ rest)")
proof (induction nss arbitrary: r recs)
  case Nil
  then show ?case by auto
next
  case (Cons ns nss)
  show ?case
  proof
    assume "parse_namespaces s pfx (ns # nss) r = Inr (recs, r')"
    then obtain group r1 recs1 where 1: "parse_namespace s pfx (Name ns) (unat (Records ns)) None r = Inr (group, r1)"
      "parse_namespaces s pfx nss r1 = Inr (recs1, r')" "recs = group @ recs1" by auto
    from 1(1) obtain parts rest where a: "remaining r = concat parts @ rest" "list_all2 ?form group parts" "?group ns group"
      "r1 = r\<lparr>remaining := rest\<rparr>" unfolding parse_namespace_form by auto
    from 1(2) obtain groups parts' rest' where b: "recs1 = concat groups" "list_all2 ?group nss groups" "list_all2 ?form recs1 parts'"
      "rest = concat parts' @ rest'" "r' = r\<lparr>remaining := rest'\<rparr>" unfolding Cons.IH a(4) by auto
    show "\<exists>groups parts rest. recs = concat groups \<and> list_all2 ?group (ns # nss) groups \<and> list_all2 ?form recs parts \<and>
        remaining r = concat parts @ rest \<and> r' = r\<lparr>remaining := rest\<rparr>"
      using a b 1(3) by (intro exI [of _ "group # groups"] exI [of _ "parts @ parts'"] exI [of _ rest']) (simp add: list_all2_appendI)
  next
    assume "\<exists>groups parts rest. recs = concat groups \<and> list_all2 ?group (ns # nss) groups \<and> list_all2 ?form recs parts \<and>
        remaining r = concat parts @ rest \<and> r' = r\<lparr>remaining := rest\<rparr>"
    then obtain group groups parts parts' rest where 1: "recs = group @ concat groups" "?group ns group" "list_all2 ?group nss groups"
      "list_all2 ?form group parts" "list_all2 ?form (concat groups) parts'"
      "remaining r = concat parts @ concat parts' @ rest" "r' = r\<lparr>remaining := rest\<rparr>"
      by (auto simp: list_all2_Cons1 list_all2_append1)
    let ?r = "r\<lparr>remaining := concat parts' @ rest\<rparr>"
    have "parse_namespace s pfx (Name ns) (unat (Records ns)) None r = Inr (group, ?r)"
      unfolding parse_namespace_form using 1 by auto
    moreover have "parse_namespaces s pfx nss ?r = Inr (concat groups, r')"
      unfolding Cons.IH using 1 by auto
    ultimately show "parse_namespaces s pfx (ns # nss) r = Inr (recs, r')" using 1(1) by auto
  qed
qed

text \<open>The parse depends on the bytes only, not on what the file gives after them.\<close>

lemma parse_namespaces_bytes_only:
  assumes "parse_namespaces s pfx nss r = Inr (recs, r1)" "remaining r' = remaining r"
  shows "\<exists>r2. parse_namespaces s pfx nss r' = Inr (recs, r2)"
  using assms(1) unfolding parse_namespaces_form assms(2) by blast

subsection \<open>The walk\<close>

text \<open>
  A walk succeeds exactly on a pair of files of the two grammars, with the recorded digests, and hands
  the records of the file to the callback in their order.
\<close>

lemma walk_form:
  "walkRecords L f s pfx yield st = Inr st' \<longleftrightarrow>
     (\<exists>meta nss opened recs.
        readRegular f (filepath_Join (Directory s) (pfx @ ''.metadata'')) = Inr meta \<and>
        hash L meta = lookup_string (fileHashes s) (pfx @ ''.metadata'') \<and>
        namespaces_form nss meta \<and> sorted_wrt (<) (map Name nss) \<and>
        openRegular f (filepath_Join (Directory s) (pfx @ ''.data'')) = Inr opened \<and> close_error opened = None \<and>
        (\<forall>e. read_error opened = Some e \<longrightarrow> errors_Is e EOF) \<and>
        data_form (is_private pfx) (is_base64 s pfx) (LastBlockNumber (Metadata s)) nss recs (contents opened) \<and>
        hash L (contents opened) = lookup_string (fileHashes s) (pfx @ ''.data'') \<and>
        rfold (call_yield yield) recs st = Inr st')"
proof -
  have parse: "(\<exists>body r. contents opened = formatVersion # body \<and> parse_namespaces s pfx nss (file_reader opened body) = Inr (recs, r) \<and>
        walk_end L s (pfx @ ''.data'') (contents opened) r = Inr ()) \<longleftrightarrow>
      (\<forall>e. read_error opened = Some e \<longrightarrow> errors_Is e EOF) \<and>
      data_form (is_private pfx) (is_base64 s pfx) (LastBlockNumber (Metadata s)) nss recs (contents opened) \<and>
      hash L (contents opened) = lookup_string (fileHashes s) (pfx @ ''.data'')" for opened nss recs
  proof -
    have "walk_end L s (pfx @ ''.data'') (contents opened) ((file_reader opened body)\<lparr>remaining := rest\<rparr>) = Inr () \<longleftrightarrow>
        rest = [] \<and> (\<forall>e. read_error opened = Some e \<longrightarrow> errors_Is e EOF) \<and>
        hash L (contents opened) = lookup_string (fileHashes s) (pfx @ ''.data'')" for body rest
      by (auto simp: walk_end_Inr file_reader_def split: option.splits)
    note finish = this
    let ?groups = "\<lambda>groups. recs = concat groups \<and>
        list_all2 (\<lambda>ns group. length group = unat (Records ns) \<and> (\<forall>rec \<in> set group. rNamespace rec = Name ns) \<and>
          sorted_wrt (<) (map (file_key (is_base64 s pfx)) group)) nss groups"
    let ?parts = "list_all2 (record_form (is_private pfx) (LastBlockNumber (Metadata s))) recs"
    have "(\<exists>body r. contents opened = formatVersion # body \<and> parse_namespaces s pfx nss (file_reader opened body) = Inr (recs, r) \<and>
        walk_end L s (pfx @ ''.data'') (contents opened) r = Inr ()) \<longleftrightarrow>
      (\<exists>body groups parts rest. contents opened = 1 # body \<and> ?groups groups \<and> ?parts parts \<and> body = concat parts @ rest \<and>
        walk_end L s (pfx @ ''.data'') (contents opened) ((file_reader opened body)\<lparr>remaining := rest\<rparr>) = Inr ())"
      unfolding parse_namespaces_form formatVersion_def by (simp add: file_reader_def) blast
    also have "\<dots> \<longleftrightarrow> (\<exists>groups parts. ?groups groups \<and> ?parts parts \<and> contents opened = 1 # concat parts) \<and>
        (\<forall>e. read_error opened = Some e \<longrightarrow> errors_Is e EOF) \<and>
        hash L (contents opened) = lookup_string (fileHashes s) (pfx @ ''.data'')"
      unfolding finish by (simp only: append_Nil2 ex_simps simp_thms) auto
    finally show ?thesis unfolding data_form_def by blast
  qed
  show ?thesis
    unfolding walkRecords_parse readNamespaces_Inr decodeNamespaces_form using parse by meson
qed

end
