(* ===== verification/SnapshotProps.thy ===== *)
theory SnapshotProps
  imports Grammar
begin

text \<open>
  The properties of the snapshot reader (theories Varint, Codec, Wire, GoLib, Files, Stream and Grammar), each with
  a witness on the small snapshot below: one channel, one namespace \<open>b\<close> with one record, one
  private hash namespace \<open>b$$hc\<close> with one record, and a one-byte checksum as digest.
\<close>

subsection \<open>A snapshot to evaluate on\<close>

definition ex_info :: file_info where
  "ex_info = \<lparr>is_regular = True, is_dir = False, inode = 1\<rparr>"

definition ex_open :: "bytes \<Rightarrow> opened_file" where
  "ex_open bs = \<lparr>opened_stat = Inr ex_info, contents = bs, read_error = None, close_error = None\<rparr>"

text \<open>A directory \<open>d\<close> with the given files.\<close>

definition ex_fs :: "(string \<times> bytes) list \<Rightarrow> fs" where
  "ex_fs fl =
     (let find = (\<lambda>p. map_of (map (\<lambda>(n, bs). (''d/'' @ n, bs)) fl) p) in
      \<lparr>Lstat = (\<lambda>p. if p = ''d'' then Inr \<lparr>is_regular = False, is_dir = True, inode = 0\<rparr>
          else case find p of None \<Rightarrow> Inl (Ext ''ENOENT'') | Some bs \<Rightarrow> Inr ex_info),
       Open = (\<lambda>p. case find p of None \<Rightarrow> Inl (Ext ''ENOENT'') | Some bs \<Rightarrow> Inr (ex_open bs)),
       ReadFile = (\<lambda>p. case find p of None \<Rightarrow> Inl (Ext ''ENOENT'') | Some bs \<Rightarrow> Inr bs),
       ReadDir = (\<lambda>p. Inr (map fst fl))\<rparr>)"

definition ex_record :: snapshot_record where
  "ex_record = \<lparr>rNamespace = ''b'', rKey = [97], rValue = Some [98], rMetadata = None\<rparr>"

definition ex_private_record :: snapshot_record where
  "ex_private_record =
     \<lparr>rNamespace = ''b$$hc'', rKey = replicate 32 7, rValue = Some (replicate 32 9), rMetadata = None\<rparr>"

definition ex_public_meta :: bytes where
  "ex_public_meta = [1, 1, 1, 98, 1]"

definition ex_public_data :: bytes where
  "ex_public_data = [1, 11, 10, 1, 97, 18, 1, 98, 34, 3, 1, 3, 0]"

definition ex_private_meta :: bytes where
  "ex_private_meta = [1, 1, 5, 98, 36, 36, 104, 99, 1]"

definition ex_private_data :: bytes where
  "ex_private_data =
     [1, 73, 10, 32] @ replicate 32 7 @ [18, 32] @ replicate 32 9 @ [34, 3, 1, 3, 0]"

definition ex_digest :: "bytes \<Rightarrow> bytes" where
  "ex_digest bs = [sum_list bs]"

definition ex_raw :: "(string, string) gomap" where
  "ex_raw =
     [(''public_state.data'', ''16''), (''public_state.metadata'', ''66''),
      (''private_state_hashes.data'', ''cf''), (''private_state_hashes.metadata'', ''7d'')]"

definition ex_metadata :: metadata where
  "ex_metadata = \<lparr>ChannelName = ''assets'', LastBlockNumber = 3, LastBlockHash = [], PreviousBlockHash = [],
     SnapshotFilesRawHashes = ex_raw, StateDBType = ''SimpleKeyValueDB''\<rparr>"

text \<open>The two JSON documents are stood for by one byte each.\<close>

definition ex_additional :: additional_metadata where
  "ex_additional = \<lparr>SnapshotHash = ''01'', LastBlockCommitHash = []\<rparr>"

definition ex_lib :: snapshot_lib where
  "ex_lib = \<lparr>Sum256 = ex_digest, decode_any = (\<lambda>bs. Inl EOF),
     decode_metadata = (\<lambda>bs. if bs = [1] then Inr (ex_metadata, []) else Inl (Ext ''json'')),
     decode_additional = (\<lambda>bs. if bs = [2] then Inr (ex_additional, []) else Inl (Ext ''json''))\<rparr>"

definition ex_files :: "(string \<times> bytes) list" where
  "ex_files =
     [(''_snapshot_signable_metadata.json'', [1]), (''_snapshot_additional_metadata.json'', [2]),
      (''public_state.data'', ex_public_data), (''public_state.metadata'', ex_public_meta),
      (''private_state_hashes.data'', ex_private_data), (''private_state_hashes.metadata'', ex_private_meta)]"

definition ex_stream :: snapshot_stream where
  "ex_stream = \<lparr>Directory = ''d'', Metadata = ex_metadata, AdditionalMetadata = ex_additional,
     PublicNamespaces = [\<lparr>Name = ''b'', Records = 1\<rparr>],
     PrivateHashNamespaces = [\<lparr>Name = ''b$$hc'', Records = 1\<rparr>],
     fileHashes = ex_raw @ [(signable_name, ''01''), (additional_name, ''02'')]\<rparr>"

lemma ex_opens: "OpenStream ex_lib (ex_fs ex_files) ''d'' = Inr ex_stream"
  by code_simp

lemma ex_public_records: "snapshot_records ex_lib (ex_fs ex_files) ex_stream ''public_state'' = Inr [ex_record]"
  by code_simp

lemma ex_private_records: "snapshot_records ex_lib (ex_fs ex_files) ex_stream private_prefix = Inr [ex_private_record]"
  by code_simp

subsection \<open>Walking a snapshot\<close>

lemma ex_opened_private: "has_key (fileHashes ex_stream) ''private_state_hashes.data''"
  by code_simp

lemma rfold_call_yield:
  "rfold (call_yield yield) recs st = Inr st' \<longleftrightarrow> (case yield of None \<Rightarrow> st' = st | Some y \<Rightarrow> rfold y recs st = Inr st')"
proof (cases yield)
  case None
  then show ?thesis by (induction recs) (auto simp: call_yield_def)
next
  case (Some y)
  have "call_yield (Some y) = y" by (intro ext) (simp add: call_yield_def)
  with Some show ?thesis by simp
qed


text \<open>
  C8. A walk accepts exactly the files of the format, read by a grammar that mentions no decoder: a
  metadata file with the recorded digest that lists the namespaces in strictly ascending order, and a
  data file, read without error, with the recorded digest, that is the format byte followed by exactly
  the announced number of records of each namespace in turn and nothing else. Within a namespace the
  keys strictly ascend (the Base64 texts of the private keys for CouchDB); a record is a sized message of
  at most one field each of key, value, metadata and version, with a nonempty key, a version whose block
  is not after the checkpoint, and 32-byte key and value in the private file. The walk then hands
  exactly these records, in file order, to the callback, and its result is the callback's; without a
  callback the same files are accepted.
\<close>

theorem walk_accepts_the_format:
  "walkRecords L f s pfx yield st = Inr st' \<longleftrightarrow>
     (\<exists>meta nss opened recs.
        readRegular f (filepath_Join (Directory s) (pfx @ ''.metadata'')) = Inr meta \<and>
        namespaces_form nss meta \<and> sorted_wrt (<) (map Name nss) \<and>
        hex_EncodeToString (Sum256 L meta) = lookup_string (fileHashes s) (pfx @ ''.metadata'') \<and>
        openRegular f (filepath_Join (Directory s) (pfx @ ''.data'')) = Inr opened \<and>
        (case read_error opened of None \<Rightarrow> True | Some e \<Rightarrow> errors_Is e EOF) \<and> close_error opened = None \<and>
        data_form (pfx = ''private_state_hashes'') (pfx = ''private_state_hashes'' \<and> StateDBType (Metadata s) = ''CouchDB'')
          (LastBlockNumber (Metadata s)) nss recs (contents opened) \<and>
        hex_EncodeToString (Sum256 L (contents opened)) = lookup_string (fileHashes s) (pfx @ ''.data'') \<and>
        (case yield of None \<Rightarrow> st' = st | Some y \<Rightarrow> rfold y recs st = Inr st'))"
proof -
  have fault: "(\<forall>e. read_error opened = Some e \<longrightarrow> errors_Is e EOF) \<longleftrightarrow>
      (case read_error opened of None \<Rightarrow> True | Some e \<Rightarrow> errors_Is e EOF)" for opened
    by (cases "read_error opened") simp_all
  show ?thesis
    unfolding walk_form rfold_call_yield is_private_def is_base64_def hash_def fault by (rule iffI; elim exE conjE; intro exI conjI)
qed

text \<open>
  C9. What a successful walk has established about the records it handed out: each namespace of the
  metadata file has exactly its announced number of records, in the order of the metadata, no key is
  empty, in the private hash file keys and values are 32 bytes, no (namespace, key) occurs twice (for
  the CouchDB order too), and the bytes read have the hash the snapshot recorded.
\<close>

theorem walked_records_checked:
  assumes "walkRecords L f s pfx (Some yield) st = Inr st'"
  shows "\<exists>nss recs file. readNamespaces L f s pfx = Inr nss \<and> rfold yield recs st = Inr st' \<and>
    map rNamespace recs = concat (map (\<lambda>ns. replicate (unat (Records ns)) (Name ns)) nss) \<and>
    (\<forall>rec \<in> set recs. rKey rec \<noteq> [] \<and>
       (pfx = ''private_state_hashes'' \<longrightarrow> length (rKey rec) = 32 \<and> (\<exists>v. rValue rec = Some v \<and> length v = 32))) \<and>
    distinct (map (\<lambda>rec. (rNamespace rec, rKey rec)) recs) \<and>
    openRegular f (filepath_Join (Directory s) (pfx @ ''.data'')) = Inr file \<and>
    hash L (contents file) = lookup_string (fileHashes s) (pfx @ ''.data'')"
proof -
  have y: "call_yield (Some yield) = yield" by (intro ext) (simp add: call_yield_def)
  from assms obtain recs where recs: "snapshot_records L f s pfx = Inr recs" "rfold yield recs st = Inr st'"
    by (auto simp: walkRecords_iff [of L f s pfx] y)
  then obtain nss where nss: "readNamespaces L f s pfx = Inr nss" by (auto simp: snapshot_records_parse)
  have "\<forall>rec \<in> set recs. rKey rec \<noteq> [] \<and>
       (pfx = ''private_state_hashes'' \<longrightarrow> length (rKey rec) = 32 \<and> (\<exists>v. rValue rec = Some v \<and> length v = 32))"
    using snapshot_records_sound(2) [OF recs(1) nss] by (auto simp: record_wf_def private_prefix_def)
  moreover have "distinct (map (\<lambda>rec. (rNamespace rec, rKey rec)) recs)"
    using snapshot_records_sound(3) [OF recs(1) nss] by (simp add: record_id_def [abs_def])
  ultimately show ?thesis
    using snapshot_records_sound(1) [OF recs(1) nss] snapshot_records_hash [OF recs(1)] recs(2) nss by blast
qed

lemma ex_private_walk:
  "walkRecords ex_lib (ex_fs ex_files) ex_stream private_prefix (Some collect) [] = Inr [ex_private_record]"
  using ex_private_records by (simp add: snapshot_records_def)

theorem walked_records_checked_witness:
  "\<exists>nss recs. readNamespaces ex_lib (ex_fs ex_files) ex_stream ''private_state_hashes'' = Inr nss \<and>
     rfold collect recs [] = Inr [ex_private_record] \<and>
     distinct (map (\<lambda>rec. (rNamespace rec, rKey rec)) recs)"
  using walked_records_checked [OF ex_private_walk] unfolding private_prefix_def by blast

text \<open>
  C10. Completeness of the walk: every pair of files a peer would write is accepted and yields exactly
  the records written. The groups give, per namespace in strictly increasing name order, its records
  with their versions in strictly increasing key order; the metadata and data files are the bytes of
  the fixtures' writers; the hashes are the recorded ones.
\<close>

theorem written_snapshot_is_read_back:
  assumes "readRegular f (filepath_Join (Directory s) (pfx @ ''.metadata'')) = Inr (namespace_file (map fst groups))"
    and "readRegular f (filepath_Join (Directory s) (pfx @ ''.data'')) = Inr (data_file (concat (map snd groups)))"
    and "hash L (namespace_file (map fst groups)) = lookup_string (fileHashes s) (pfx @ ''.metadata'')"
    and "hash L (data_file (concat (map snd groups))) = lookup_string (fileHashes s) (pfx @ ''.data'')"
    and "\<forall>g \<in> set groups. writable_group s pfx g" "length groups < 2 ^ 64"
    and "sorted_wrt (<) (map (\<lambda>g. Name (fst g)) groups)"
  shows "walkRecords L f s pfx (Some yield) st = Inr st' \<longleftrightarrow>
    rfold yield (map fst (concat (map snd groups))) st = Inr st'"
proof -
  have y: "call_yield (Some yield) = yield" by (intro ext) (simp add: call_yield_def)
  have "snapshot_records L f s pfx = Inr (map fst (concat (map snd groups)))"
    by (rule snapshot_records_complete [OF assms(1-6)]) (use assms(7) in \<open>simp add: comp_def\<close>)
  then show ?thesis by (simp add: walkRecords_iff [of L f s pfx] y)
qed

definition ex_groups :: "(namespace \<times> versioned_record list) list" where
  "ex_groups = [(\<lparr>Name = ''b'', Records = 1\<rparr>, [(ex_record, [3], [])])]"

lemma ex_groups_files:
  "namespace_file (map fst ex_groups) = ex_public_meta"
  "data_file (concat (map snd ex_groups)) = ex_public_data"
  by code_simp+

lemma ex_groups_writable: "writable_group ex_stream ''public_state'' (\<lparr>Name = ''b'', Records = 1\<rparr>, [(ex_record, [3], [])])"
proof -
  have "length (record_bytes (message_fields (ex_record, [3], []))) = 11" by code_simp
  then show ?thesis
    by (simp add: writable_group_def writable_record_def record_wf_def private_prefix_def ex_record_def
        ex_stream_def ex_metadata_def)
qed

lemma ex_groups_read:
  "readRegular (ex_fs ex_files) (filepath_Join (Directory ex_stream) (''public_state'' @ ''.metadata'')) = Inr ex_public_meta"
  "readRegular (ex_fs ex_files) (filepath_Join (Directory ex_stream) (''public_state'' @ ''.data'')) = Inr ex_public_data"
  "hash ex_lib ex_public_meta = lookup_string (fileHashes ex_stream) (''public_state'' @ ''.metadata'')"
  "hash ex_lib ex_public_data = lookup_string (fileHashes ex_stream) (''public_state'' @ ''.data'')"
  by code_simp+

theorem written_snapshot_is_read_back_witness:
  "walkRecords ex_lib (ex_fs ex_files) ex_stream ''public_state'' (Some collect) [] = Inr [ex_record]"
  using written_snapshot_is_read_back [of "ex_fs ex_files" ex_stream "''public_state''" ex_groups ex_lib collect "[]",
      unfolded ex_groups_files, OF ex_groups_read]
  by (simp add: ex_groups_def ex_groups_writable collect_def)

subsection \<open>Opening a snapshot and checking it again\<close>

text \<open>
  C19. An opened snapshot is one whose files have been verified: each listed name is confined to the
  directory (a plain file name; the code also lets the name \<^verbatim>\<open>/\<close> through, which joins
  to the directory itself) and outside the reserved prefix, each listed file is a regular file whose
  content has the listed hash, nothing else is in the directory, the signable metadata has the hash
  in the additional metadata, and the hashes kept for later cover every listed file and both
  metadata files.
\<close>

theorem open_stream_verified:
  assumes "OpenStream L f dir = Inr s"
  shows "\<exists>signable additional entries.
    (let raw = SnapshotFilesRawHashes (Metadata s) in
     Directory s = dir \<and>
     (\<forall>name \<in> set (keys raw). (plain_name name \<or> name = ''/'') \<and> \<not> HasPrefix name ''_snapshot_'' \<and>
        (\<exists>bs. readRegular f (filepath_Join dir name) = Inr bs \<and> hash L bs = lookup_string raw name)) \<and>
     ReadDir f dir = Inr entries \<and> set entries \<subseteq> {signable_name, additional_name} \<union> set (keys raw) \<and>
     readRegular f (filepath_Join dir signable_name) = Inr signable \<and>
     readRegular f (filepath_Join dir additional_name) = Inr additional \<and>
     hash L signable = SnapshotHash (AdditionalMetadata s) \<and>
     map_of (fileHashes s) =
       (map_of raw)(signable_name \<mapsto> hash L signable, additional_name \<mapsto> hash L additional))"
  using OpenStream_opened(1,2) [OF assms] by (auto simp: opened_from_def Let_def)

theorem open_stream_verified_witness:
  "hash ex_lib [1] = SnapshotHash ex_additional \<and>
   (\<exists>entries. ReadDir (ex_fs ex_files) ''d'' = Inr entries \<and>
      set entries \<subseteq> {signable_name, additional_name} \<union> set (keys ex_raw))"
proof -
  have "readRegular (ex_fs ex_files) (filepath_Join ''d'' signable_name) = Inr [1]" by code_simp
  with open_stream_verified [OF ex_opens] show ?thesis
    by (auto simp: Let_def ex_stream_def ex_metadata_def)
qed

text \<open>
  The namespaces of an opened snapshot are those its verified metadata files decode to, strictly
  ordered by name and so without duplicates; every private hash namespace splits into a chaincode
  and a collection name; the state database is one of the two supported.
\<close>

lemma open_stream_namespaces:
  assumes "OpenStream L f dir = Inr s"
  shows "sorted_wrt (<) (map Name (PublicNamespaces s)) \<and>
    sorted_wrt (<) (map Name (PrivateHashNamespaces s)) \<and>
    (\<forall>ns \<in> set (PrivateHashNamespaces s). \<exists>c coll. SplitHashNamespace (Name ns) = Inr (c, coll)) \<and>
    readNamespaces L f s ''public_state'' = Inr (PublicNamespaces s) \<and>
    (has_key (fileHashes s) ''private_state_hashes.data'' \<longrightarrow>
       readNamespaces L f s ''private_state_hashes'' = Inr (PrivateHashNamespaces s)) \<and>
    StateDBType (Metadata s) \<in> {''SimpleKeyValueDB'', ''CouchDB''}"
  using OpenStream_opened(3-5) [OF assms] by (auto simp: file_simps private_prefix_def split: if_splits)

text \<open>
  C20. Checking again is enough: when the second check of an opened snapshot succeeds, whatever
  happened to the directory in between, it then holds exactly the recorded files, and each listed
  file has a content with the same digest as the one that was verified at opening.
\<close>

theorem revalidated_is_what_was_opened:
  assumes "OpenStream L f dir = Inr s" "wf_map (SnapshotFilesRawHashes (Metadata s))"
    and "Revalidate L f' s = Inr ()"
    and "\<forall>entries. ReadDir f' dir = Inr entries \<longrightarrow> distinct entries"
  shows "(\<exists>entries. ReadDir f' dir = Inr entries \<and>
      set entries = {signable_name, additional_name} \<union> set (keys (SnapshotFilesRawHashes (Metadata s)))) \<and>
    (\<forall>name \<in> {signable_name, additional_name} \<union> set (keys (SnapshotFilesRawHashes (Metadata s))).
      \<exists>bs bs'. readRegular f (filepath_Join dir name) = Inr bs \<and>
        readRegular f' (filepath_Join dir name) = Inr bs' \<and> Sum256 L bs' = Sum256 L bs)"
proof -
  let ?all = "{signable_name, additional_name} \<union> set (keys (SnapshotFilesRawHashes (Metadata s)))"
  note hashes = OpenStream_hashes [OF assms(1)]
  note exact = Revalidate_exact [OF assms(3) hashes(2) [OF assms(2)],
      unfolded OpenStream_opened(1) [OF assms(1)] hashes(1), OF assms(4)]
  have "\<exists>bs bs'. readRegular f (filepath_Join dir name) = Inr bs \<and>
      readRegular f' (filepath_Join dir name) = Inr bs' \<and> Sum256 L bs' = Sum256 L bs" if listed: "name \<in> ?all" for name
  proof -
    obtain bs bs' where "readRegular f (filepath_Join dir name) = Inr bs"
      "readRegular f' (filepath_Join dir name) = Inr bs'" "hash L bs' = hash L bs"
      using bspec [OF exact(2) listed] bspec [OF hashes(3) [unfolded hashes(1)] listed] by auto
    then show ?thesis by (auto simp: hash_def hex_EncodeToString_inject)
  qed
  with exact(1) show ?thesis by simp
qed

lemma ex_revalidates: "Revalidate ex_lib (ex_fs ex_files) ex_stream = Inr ()"
  by code_simp

lemma ex_raw_wf: "wf_map (SnapshotFilesRawHashes (Metadata ex_stream))"
  by code_simp

lemma ex_entries: "\<forall>entries. ReadDir (ex_fs ex_files) ''d'' = Inr entries \<longrightarrow> distinct entries"
  by (auto simp: ex_fs_def Let_def ex_files_def)

theorem revalidated_is_what_was_opened_witness:
  "\<exists>bs'. readRegular (ex_fs ex_files) (filepath_Join ''d'' signable_name) = Inr bs' \<and>
     Sum256 ex_lib bs' = Sum256 ex_lib [1]"
proof -
  have read: "readRegular (ex_fs ex_files) (filepath_Join ''d'' signable_name) = Inr [1]" by code_simp
  show ?thesis
    using bspec [OF conjunct2 [OF revalidated_is_what_was_opened [OF ex_opens ex_raw_wf ex_revalidates ex_entries]], of signable_name]
    by (auto simp: read)
qed

text \<open>
  The second check raises no false alarm: on a directory that has not changed, whose listing
  agrees with \<^verbatim>\<open>Lstat\<close>, it succeeds.
\<close>

lemma unchanged_snapshot_revalidates:
  assumes "OpenStream L f dir = Inr s" "wf_map (SnapshotFilesRawHashes (Metadata s))"
    and "ReadDir f dir = Inr entries" "distinct entries"
    and "\<And>name. plain_name name \<Longrightarrow> name \<in> set entries \<longleftrightarrow> (\<exists>info. Lstat f (filepath_Join dir name) = Inr info)"
    and "\<And>info. Lstat f (filepath_Join dir ''/'') = Inr info \<Longrightarrow> \<not> is_regular info"
  shows "Revalidate L f s = Inr ()"
  by (rule Revalidate_unchanged [OF assms(1) _ assms(2)]) (use assms(3-6) in \<open>auto simp: lists_entries_def\<close>)

text \<open>In the example, an entry is found exactly when it is one of the six files.\<close>

lemma ex_fs_lists:
  assumes "plain_name name"
  shows "name \<in> set (map fst ex_files) \<longleftrightarrow> (\<exists>info. Lstat (ex_fs ex_files) (filepath_Join ''d'' name) = Inr info)"
proof -
  have join: "filepath_Join ''d'' name = ''d/'' @ name"
    using filepath_Join_plain [of "''d''" name] assms by (simp add: join_prefix_def Let_def)
  have find: "map_of (map (\<lambda>(n, bs). (''d/'' @ n, bs)) fl) (''d/'' @ name) = map_of fl name" for fl :: "(string \<times> bytes) list"
    by (induction fl) auto
  have "(\<exists>info. Lstat (ex_fs ex_files) (filepath_Join ''d'' name) = Inr info) \<longleftrightarrow> map_of ex_files name \<noteq> None"
    unfolding join using find [of ex_files] by (simp add: ex_fs_def Let_def split: option.splits)
  then show ?thesis by (simp add: map_of_eq_None_iff)
qed

lemma unchanged_snapshot_revalidates_witness:
  "Revalidate ex_lib (ex_fs ex_files) ex_stream = Inr ()"
proof (rule unchanged_snapshot_revalidates [OF ex_opens ex_raw_wf, of "map fst ex_files"])
  show "ReadDir (ex_fs ex_files) ''d'' = Inr (map fst ex_files)" by (simp add: ex_fs_def Let_def)
  show "distinct (map fst ex_files)" by (simp add: ex_files_def)
  show "\<And>name. plain_name name \<Longrightarrow> name \<in> set (map fst ex_files) \<longleftrightarrow>
      (\<exists>info. Lstat (ex_fs ex_files) (filepath_Join ''d'' name) = Inr info)"
    by (rule ex_fs_lists)
  show "\<not> is_regular info" if "Lstat (ex_fs ex_files) (filepath_Join ''d'' ''/'') = Inr info" for info
  proof -
    have "filepath_Join ''d'' ''/'' = ''d''" by code_simp
    with that show ?thesis by (auto simp: ex_fs_def Let_def)
  qed
qed

end
