(* ===== verification/Mappings.thy ===== *)
theory Mappings
  imports Stream
begin

text \<open>
  \<^verbatim>\<open>internal/migrate/inputs.go\<close>: reading and validating the namespace mappings, looking a
  mapping up, and the record count each target namespace must reach. The third-party namespace
  rules (\<^verbatim>\<open>committerpb.IsSystemNamespace\<close>,
  \<^verbatim>\<open>policy.ValidateNamespaceID\<close>) are parameters.
\<close>

subsection \<open>Types\<close>

record mapping =
  SourceChannel :: string
  SourceNamespace :: string
  TargetNamespace :: string
  TargetHashNamespace :: string

record mapping_config =
  TargetNetwork :: string
  Mappings :: "mapping list"

record import_options =
  oSnapshots :: "(string, string) gomap"
  oSourceConfigs :: "(string, string) gomap"
  MappingPath :: string
  TargetConfigPath :: string

record mapping_lib = snapshot_lib +
  decode_mappings :: "bytes \<Rightarrow> (mapping_config \<times> bytes) res"
  IsSystemNamespace :: "string \<Rightarrow> bool"
  ValidateNamespaceID :: "string \<Rightarrow> unit res"

text \<open>
  The key \<^verbatim>\<open>[2]string\<close> of a mapping's source, with the order of the comparison function
  given to \<^verbatim>\<open>sort.Slice\<close>: by channel, then by namespace.
\<close>

datatype source_id = SourceId (sid_channel: string) (sid_namespace: string)

definition source_less :: "source_id \<Rightarrow> source_id \<Rightarrow> bool" where
  "source_less a b \<longleftrightarrow>
     (if sid_channel a \<noteq> sid_channel b then sid_channel a < sid_channel b
      else sid_namespace a < sid_namespace b)"

instantiation source_id :: linorder
begin

definition less_source_id :: "source_id \<Rightarrow> source_id \<Rightarrow> bool" where
  "less_source_id = source_less"

definition less_eq_source_id :: "source_id \<Rightarrow> source_id \<Rightarrow> bool" where
  "less_eq_source_id a b \<longleftrightarrow> a = b \<or> source_less a b"

instance
  by standard
    (auto simp: less_eq_source_id_def less_source_id_def source_less_def source_id.expand split: if_splits)

end

definition source_of :: "mapping \<Rightarrow> source_id" where
  "source_of m = SourceId (SourceChannel m) (SourceNamespace m)"

subsection \<open>Reading the mappings\<close>

definition validateTargetNamespace :: "'l mapping_lib_scheme \<Rightarrow> string \<Rightarrow> unit res" where
  "validateTargetNamespace L namespace =
     (if IsSystemNamespace L namespace then Inl (New ''reserved target namespace'' [namespace])
      else wrapped [''invalid target namespace'', namespace] (ValidateNamespaceID L namespace))"

definition invalid_source :: "source_id \<Rightarrow> bool" where
  "invalid_source key \<longleftrightarrow>
     sid_channel key = [] \<or> sid_namespace key = [] \<or> HasPrefix (sid_namespace key) ''_'' \<or>
     Contains (sid_namespace key) ''$$'' \<or> sid_namespace key = ''lscc'' \<or>
     sid_namespace key = ''cscc'' \<or> sid_namespace key = ''qscc''"

definition check_mapping :: "'l mapping_lib_scheme \<Rightarrow> mapping \<Rightarrow> source_id list \<Rightarrow> source_id list res" where
  "check_mapping L m seen =
     (let key = source_of m in
      if key \<in> set seen
      then Inl (New ''source is mapped more than once'' [sid_channel key, sid_namespace key])
      else if invalid_source key
      then Inl (New ''invalid application source'' [sid_channel key, sid_namespace key])
      else rbind (validateTargetNamespace L (TargetNamespace m)) (\<lambda>_.
        if TargetHashNamespace m \<noteq> [] then
          rbind (validateTargetNamespace L (TargetHashNamespace m)) (\<lambda>_. Inr (key # seen))
        else Inr (key # seen)))"

definition readMappings :: "'l mapping_lib_scheme \<Rightarrow> input_file \<Rightarrow> mapping_config res" where
  "readMappings L file =
     rbind (wrapped [''mapping''] (decode_mappings L (input_data file))) (\<lambda>(config, rest).
     rbind (case decode_any L rest of
              Inl e \<Rightarrow> if errors_Is e EOF then Inr () else Inl (New ''mapping must contain one JSON object'' [])
            | Inr _ \<Rightarrow> Inl (New ''mapping must contain one JSON object'' [])) (\<lambda>_.
       if TargetNetwork config = [] \<or> Mappings config = []
       then Inl (New ''target_network and at least one mapping are required'' [])
       else rbind (rfold (check_mapping L) (Mappings config) []) (\<lambda>_.
         Inr (config\<lparr>Mappings := sort_key source_of (Mappings config)\<rparr>))))"

definition hashTarget :: "mapping \<Rightarrow> string" where
  "hashTarget m = (if TargetHashNamespace m \<noteq> [] then TargetHashNamespace m else TargetNamespace m)"

definition no_mapping :: mapping where
  "no_mapping = \<lparr>SourceChannel = [], SourceNamespace = [], TargetNamespace = [], TargetHashNamespace = []\<rparr>"

definition mappingFor :: "mapping_config \<Rightarrow> string \<Rightarrow> string \<Rightarrow> mapping \<times> bool" where
  "mappingFor config channel namespace =
     (case find (\<lambda>m. SourceChannel m = channel \<and> SourceNamespace m = namespace) (Mappings config) of
        Some m \<Rightarrow> (m, True)
      | None \<Rightarrow> (no_mapping, False))"

subsection \<open>Counts\<close>

type_synonym counts = "(string, uint64) gomap"

definition lookup_count :: "counts \<Rightarrow> string \<Rightarrow> uint64" where
  "lookup_count m k = (case map_of m k of None \<Rightarrow> 0 | Some n \<Rightarrow> n)"

text \<open>\<^verbatim>\<open>counts[k] += n\<close>, wrapping at 64 bits.\<close>

definition add_count :: "string \<Rightarrow> uint64 \<Rightarrow> counts \<Rightarrow> counts" where
  "add_count k n m = AList.update k (lookup_count m k + n) m"

text \<open>The two inner loops; the flag is \<^verbatim>\<open>found\<close>.\<close>

definition count_public :: "mapping \<Rightarrow> namespace \<Rightarrow> counts \<times> bool \<Rightarrow> (counts \<times> bool) res" where
  "count_public m ns st = (case st of (counts, found) \<Rightarrow>
     if Name ns = SourceNamespace m then Inr (add_count (TargetNamespace m) (Records ns) counts, True)
     else Inr (counts, found))"

definition count_private :: "mapping \<Rightarrow> namespace \<Rightarrow> counts \<times> bool \<Rightarrow> (counts \<times> bool) res" where
  "count_private m ns st = (case st of (counts, found) \<Rightarrow>
     rbind (SplitHashNamespace (Name ns)) (\<lambda>(source, _).
       if source = SourceNamespace m then Inr (add_count (hashTarget m) (Records ns) counts, True)
       else Inr (counts, found)))"

definition count_mapping :: "(string, snapshot_stream) gomap \<Rightarrow> mapping \<Rightarrow> counts \<Rightarrow> counts res" where
  "count_mapping snapshots m counts =
     (case map_of snapshots (SourceChannel m) of
        None \<Rightarrow> Inl (New ''missing source channel'' [SourceChannel m])
      | Some s \<Rightarrow>
          rbind (rfold (count_public m) (PublicNamespaces s) (add_count (TargetNamespace m) 0 counts, False)) (\<lambda>st.
          rbind (rfold (count_private m) (PrivateHashNamespaces s) st) (\<lambda>(counts, found).
            if \<not> found then Inl (New ''source namespace is not in the snapshot'' [SourceChannel m, SourceNamespace m])
            else Inr counts)))"

definition mappingCounts :: "mapping_config \<Rightarrow> (string, snapshot_stream) gomap \<Rightarrow> counts res" where
  "mappingCounts config snapshots = rfold (count_mapping snapshots) (Mappings config) []"

subsection \<open>What a valid configuration is\<close>

definition target_ok :: "'l mapping_lib_scheme \<Rightarrow> string \<Rightarrow> bool" where
  "target_ok L n \<longleftrightarrow> \<not> IsSystemNamespace L n \<and> ValidateNamespaceID L n = Inr ()"

definition mapping_ok :: "'l mapping_lib_scheme \<Rightarrow> mapping \<Rightarrow> bool" where
  "mapping_ok L m \<longleftrightarrow> \<not> invalid_source (source_of m) \<and>
     target_ok L (TargetNamespace m) \<and> target_ok L (hashTarget m)"

definition config_ok :: "'l mapping_lib_scheme \<Rightarrow> mapping_config \<Rightarrow> bool" where
  "config_ok L c \<longleftrightarrow> TargetNetwork c \<noteq> [] \<and> Mappings c \<noteq> [] \<and>
     distinct (map source_of (Mappings c)) \<and> (\<forall>m \<in> set (Mappings c). mapping_ok L m)"

lemma validateTargetNamespace_Inr: "validateTargetNamespace L n = Inr () \<longleftrightarrow> target_ok L n"
  by (simp add: validateTargetNamespace_def target_ok_def)

lemma check_mapping_Inr:
  "check_mapping L m seen = Inr seen' \<longleftrightarrow>
     source_of m \<notin> set seen \<and> mapping_ok L m \<and> seen' = source_of m # seen"
  by (auto simp: check_mapping_def Let_def mapping_ok_def hashTarget_def validateTargetNamespace_Inr)

lemma check_mappings_Inr:
  "rfold (check_mapping L) ms seen = Inr seen' \<longleftrightarrow>
     distinct (map source_of ms) \<and> source_of ` set ms \<inter> set seen = {} \<and>
     (\<forall>m \<in> set ms. mapping_ok L m) \<and> seen' = rev (map source_of ms) @ seen"
  by (induction ms arbitrary: seen) (auto simp: check_mapping_Inr)

lemma readMappings_Inr:
  "readMappings L i = Inr c \<longleftrightarrow>
     (\<exists>c0 rest e. decode_mappings L (input_data i) = Inr (c0, rest) \<and> decode_any L rest = Inl e \<and>
        errors_Is e EOF \<and> config_ok L c0 \<and> c = c0\<lparr>Mappings := sort_key source_of (Mappings c0)\<rparr>)"
  by (auto simp: readMappings_def check_mappings_Inr config_ok_def)

lemma config_ok_sort [simp]:
  "config_ok L (c\<lparr>Mappings := sort_key source_of (Mappings c)\<rparr>) \<longleftrightarrow> config_ok L c"
proof -
  have "distinct (map source_of (sort_key source_of ms)) = distinct (map source_of ms)" for ms :: "mapping list"
    by (metis mset_map mset_sort mset_eq_imp_distinct_iff)
  moreover have "sort_key source_of ms = [] \<longleftrightarrow> ms = []" for ms :: "mapping list"
    by (metis set_empty set_sort)
  ultimately show ?thesis by (simp add: config_ok_def)
qed

theorem readMappings_sound:
  assumes "readMappings L i = Inr c"
  shows "config_ok L c" "sorted (map source_of (Mappings c))"
  using assms by (auto simp: readMappings_Inr)

text \<open>
  \<^verbatim>\<open>sort.Slice\<close> is not stable, but with distinct keys every sorted arrangement is the one
  the model computes.
\<close>

lemma sort_unique:
  assumes "distinct (map source_of ms)" "mset ms' = mset ms" "sorted (map source_of ms')"
  shows "ms' = sort_key source_of ms"
proof -
  have "inj_on source_of (set ms)" using assms(1) by (simp add: distinct_map)
  then show ?thesis using sort_key_inj_key_eq [of ms ms' source_of] assms(2,3) by simp
qed

text \<open>The order in which the file lists its mappings does not matter.\<close>

lemma sort_order_independent:
  assumes "distinct (map source_of ms)" "mset ms' = mset ms"
  shows "sort_key source_of ms' = sort_key source_of ms"
  by (rule sort_unique [OF assms(1)]) (simp_all add: assms(2))

lemma mappingFor_iff:
  assumes "distinct (map source_of (Mappings c))"
  shows "mappingFor c channel ns = (m, True) \<longleftrightarrow>
    m \<in> set (Mappings c) \<and> source_of m = SourceId channel ns"
proof -
  have "find (\<lambda>m. SourceChannel m = channel \<and> SourceNamespace m = ns) ms = Some m \<longleftrightarrow>
      m \<in> set ms \<and> source_of m = SourceId channel ns" if "distinct (map source_of ms)" for ms
    using that by (induction ms) (auto simp: source_of_def)
  from this [OF assms] show ?thesis by (auto simp: mappingFor_def split: option.splits)
qed

lemma mappingFor_None:
  "snd (mappingFor c channel ns) \<longleftrightarrow> SourceId channel ns \<in> source_of ` set (Mappings c)"
  by (auto simp: mappingFor_def find_None_iff source_of_def image_iff find_Some_iff split: option.splits)

subsection \<open>What the counts are\<close>

definition public_count :: "snapshot_stream \<Rightarrow> string \<Rightarrow> uint64" where
  "public_count s ns = sum_list (map Records (filter (\<lambda>n. Name n = ns) (PublicNamespaces s)))"

definition hash_source :: "string \<Rightarrow> string option" where
  "hash_source name = (case SplitHashNamespace name of Inl _ \<Rightarrow> None | Inr (src, _) \<Rightarrow> Some src)"

definition hash_count :: "snapshot_stream \<Rightarrow> string \<Rightarrow> uint64" where
  "hash_count s ns = sum_list (map Records (filter (\<lambda>n. hash_source (Name n) = Some ns) (PrivateHashNamespaces s)))"

text \<open>What one mapping adds to the target namespace \<open>t\<close>.\<close>

definition contribution :: "(string, snapshot_stream) gomap \<Rightarrow> string \<Rightarrow> mapping \<Rightarrow> uint64" where
  "contribution snapshots t m =
     (case map_of snapshots (SourceChannel m) of
        None \<Rightarrow> 0
      | Some s \<Rightarrow> (if TargetNamespace m = t then public_count s (SourceNamespace m) else 0) +
          (if hashTarget m = t then hash_count s (SourceNamespace m) else 0))"

lemma lookup_add_count [simp]:
  "lookup_count (add_count k n m) t = (if t = k then lookup_count m t + n else lookup_count m t)"
  by (simp add: lookup_count_def add_count_def)

lemma keys_add_count: "set (keys (add_count k n m)) = insert k (set (keys m))"
  by (auto simp: set_keys add_count_def)

lemma wf_add_count [simp]: "wf_map m \<Longrightarrow> wf_map (add_count k n m)"
  by (simp add: add_count_def)

lemma count_public_step:
  "Name n = SourceNamespace m \<Longrightarrow> count_public m n (c, found) = Inr (add_count (TargetNamespace m) (Records n) c, True)"
  "Name n \<noteq> SourceNamespace m \<Longrightarrow> count_public m n (c, found) = Inr (c, found)"
  by (simp_all add: count_public_def)

lemma count_private_step:
  "count_private m n (c, found) = Inr st \<longleftrightarrow>
     (\<exists>src. hash_source (Name n) = Some src \<and>
        st = (if src = SourceNamespace m then (add_count (hashTarget m) (Records n) c, True) else (c, found)))"
proof (cases "SplitHashNamespace (Name n)")
  case (Inl e)
  then show ?thesis by (simp add: count_private_def hash_source_def)
next
  case (Inr p)
  obtain src coll where "p = (src, coll)" by (cases p)
  with Inr show ?thesis by (cases "src = SourceNamespace m") (auto simp: count_private_def hash_source_def)
qed

lemma count_public_loop:
  "rfold (count_public m) nss (c, found) = Inr (c', found') \<Longrightarrow>
   lookup_count c' t = lookup_count c t +
     (if TargetNamespace m = t then sum_list (map Records (filter (\<lambda>n. Name n = SourceNamespace m) nss)) else 0) \<and>
   set (keys c') = set (keys c) \<union> (if \<exists>n \<in> set nss. Name n = SourceNamespace m then {TargetNamespace m} else {}) \<and>
   (wf_map c \<longrightarrow> wf_map c') \<and>
   found' = (found \<or> (\<exists>n \<in> set nss. Name n = SourceNamespace m))"
proof (induction nss arbitrary: c found)
  case (Cons n nss)
  show ?case
  proof (cases "Name n = SourceNamespace m")
    case True
    with Cons.prems have "rfold (count_public m) nss (add_count (TargetNamespace m) (Records n) c, True) = Inr (c', found')"
      by (simp add: count_public_step)
    from Cons.IH [OF this] True show ?thesis by (simp add: keys_add_count ac_simps)
  next
    case False
    with Cons.prems have "rfold (count_public m) nss (c, found) = Inr (c', found')"
      by (simp add: count_public_step)
    from Cons.IH [OF this] False show ?thesis by simp
  qed
qed simp

lemma count_private_loop:
  "rfold (count_private m) nss (c, found) = Inr (c', found') \<Longrightarrow>
   lookup_count c' t = lookup_count c t +
     (if hashTarget m = t then sum_list (map Records (filter (\<lambda>n. hash_source (Name n) = Some (SourceNamespace m)) nss)) else 0) \<and>
   set (keys c') = set (keys c) \<union> (if \<exists>n \<in> set nss. hash_source (Name n) = Some (SourceNamespace m) then {hashTarget m} else {}) \<and>
   (wf_map c \<longrightarrow> wf_map c') \<and>
   found' = (found \<or> (\<exists>n \<in> set nss. hash_source (Name n) = Some (SourceNamespace m)))"
proof (induction nss arbitrary: c found)
  case (Cons n nss)
  show ?case
  proof (cases "hash_source (Name n) = Some (SourceNamespace m)")
    case True
    with Cons.prems have "rfold (count_private m) nss (add_count (hashTarget m) (Records n) c, True) = Inr (c', found')"
      by (auto simp: count_private_step)
    from Cons.IH [OF this] True show ?thesis by (simp add: keys_add_count ac_simps)
  next
    case False
    with Cons.prems have "rfold (count_private m) nss (c, found) = Inr (c', found')"
      by (auto simp: count_private_step split: if_splits)
    from Cons.IH [OF this] False show ?thesis by simp
  qed
qed simp

text \<open>The target namespaces a mapping touches.\<close>

definition touched :: "(string, snapshot_stream) gomap \<Rightarrow> mapping \<Rightarrow> string set" where
  "touched snapshots m =
     (case map_of snapshots (SourceChannel m) of
        None \<Rightarrow> {}
      | Some s \<Rightarrow> insert (TargetNamespace m)
          (if \<exists>n \<in> set (PrivateHashNamespaces s). hash_source (Name n) = Some (SourceNamespace m)
           then {hashTarget m} else {}))"

lemma count_mapping_Inr:
  assumes "count_mapping snapshots m counts = Inr counts'"
  shows "lookup_count counts' t = lookup_count counts t + contribution snapshots t m"
    and "set (keys counts') = set (keys counts) \<union> touched snapshots m"
    and "wf_map counts \<Longrightarrow> wf_map counts'"
    and "\<exists>s. map_of snapshots (SourceChannel m) = Some s \<and>
      ((\<exists>n \<in> set (PublicNamespaces s). Name n = SourceNamespace m) \<or>
       (\<exists>n \<in> set (PrivateHashNamespaces s). hash_source (Name n) = Some (SourceNamespace m)))"
proof -
  from assms obtain s counts1 found1 where s: "map_of snapshots (SourceChannel m) = Some s"
    and 1: "rfold (count_public m) (PublicNamespaces s) (add_count (TargetNamespace m) 0 counts, False) = Inr (counts1, found1)"
    and 2: "rfold (count_private m) (PrivateHashNamespaces s) (counts1, found1) = Inr (counts', True)"
    by (auto simp: count_mapping_def)
  note p = count_public_loop [OF 1] and q = count_private_loop [OF 2]
  show "lookup_count counts' t = lookup_count counts t + contribution snapshots t m"
    using p [of t] q [of t] by (simp add: contribution_def s public_count_def hash_count_def)
  show "set (keys counts') = set (keys counts) \<union> touched snapshots m"
    using conjunct1 [OF conjunct2 [OF p [of t]]] conjunct1 [OF conjunct2 [OF q [of t]]]
    by (simp add: touched_def s keys_add_count insert_commute)
  show "wf_map counts \<Longrightarrow> wf_map counts'" using p [of t] q [of t] by simp
  show "\<exists>s. map_of snapshots (SourceChannel m) = Some s \<and>
      ((\<exists>n \<in> set (PublicNamespaces s). Name n = SourceNamespace m) \<or>
       (\<exists>n \<in> set (PrivateHashNamespaces s). hash_source (Name n) = Some (SourceNamespace m)))"
    using s p [of t] q [of t] by auto
qed

lemma mappingCounts_loop:
  "rfold (count_mapping snapshots) ms c = Inr c' \<Longrightarrow>
   lookup_count c' t = lookup_count c t + sum_list (map (contribution snapshots t) ms) \<and>
   set (keys c') = set (keys c) \<union> (\<Union>m \<in> set ms. touched snapshots m) \<and> (wf_map c \<longrightarrow> wf_map c')"
proof (induction ms arbitrary: c)
  case (Cons m ms)
  then obtain c1 where 1: "count_mapping snapshots m c = Inr c1"
    and 2: "rfold (count_mapping snapshots) ms c1 = Inr c'" by auto
  from Cons.IH [OF 2] count_mapping_Inr(1) [OF 1, of t] count_mapping_Inr(2,3) [OF 1] show ?case by auto
qed simp

theorem mappingCounts_Inr:
  assumes "mappingCounts config snapshots = Inr counts"
  shows "lookup_count counts t = sum_list (map (contribution snapshots t) (Mappings config))"
    and "set (keys counts) = (\<Union>m \<in> set (Mappings config). touched snapshots m)"
    and "wf_map counts"
  using mappingCounts_loop [of snapshots "Mappings config" "[]" counts t] assms
  by (simp_all add: mappingCounts_def lookup_count_def keys_def wf_map_def)

lemma mappingCounts_found:
  assumes "mappingCounts config snapshots = Inr counts" "m \<in> set (Mappings config)"
  shows "\<exists>s. map_of snapshots (SourceChannel m) = Some s \<and>
      ((\<exists>n \<in> set (PublicNamespaces s). Name n = SourceNamespace m) \<or>
       (\<exists>n \<in> set (PrivateHashNamespaces s). hash_source (Name n) = Some (SourceNamespace m)))"
proof -
  have "rfold (count_mapping snapshots) ms c = Inr c' \<Longrightarrow> m \<in> set ms \<Longrightarrow>
      \<exists>c c'. count_mapping snapshots m c = Inr c'" for ms c c'
    by (induction ms arbitrary: c) auto
  with assms show ?thesis using count_mapping_Inr(4) unfolding mappingCounts_def by blast
qed

end
