(* ===== verification/MappingProps.thy ===== *)
theory MappingProps
  imports Mappings
begin

text \<open>
  The properties of \<^verbatim>\<open>internal/migrate/inputs.go\<close> (theories Files and Mappings).
\<close>

subsection \<open>An example\<close>

definition ex_mappings :: "mapping list" where
  "ex_mappings =
     [\<lparr>SourceChannel = ''assets'', SourceNamespace = ''b'', TargetNamespace = ''tb'', TargetHashNamespace = []\<rparr>,
      \<lparr>SourceChannel = ''assets'', SourceNamespace = ''a'', TargetNamespace = ''ta'', TargetHashNamespace = ''th''\<rparr>]"

definition ex_config :: mapping_config where
  "ex_config = \<lparr>TargetNetwork = ''net'', Mappings = ex_mappings\<rparr>"

text \<open>The byte 1 stands for the document above, 2 for the same mappings in the other order.\<close>

definition ex_mapping_lib :: mapping_lib where
  "ex_mapping_lib = \<lparr>Sum256 = (\<lambda>bs. bs), decode_any = (\<lambda>bs. Inl EOF),
     decode_metadata = (\<lambda>bs. Inl EOF), decode_additional = (\<lambda>bs. Inl EOF),
     decode_mappings = (\<lambda>bs. if bs = [1] then Inr (ex_config, [])
       else if bs = [2] then Inr (ex_config\<lparr>Mappings := rev ex_mappings\<rparr>, []) else Inl EOF),
     IsSystemNamespace = (\<lambda>n. n = ''_meta''), ValidateNamespaceID = (\<lambda>n. Inr ())\<rparr>"

definition ex_input :: "byte \<Rightarrow> input_file" where
  "ex_input b = \<lparr>input_path = ''m.json'', input_data = [b]\<rparr>"

lemma ex_reads:
  "readMappings ex_mapping_lib (ex_input 1) = Inr (ex_config\<lparr>Mappings := rev ex_mappings\<rparr>)"
  "readMappings ex_mapping_lib (ex_input 2) = Inr (ex_config\<lparr>Mappings := rev ex_mappings\<rparr>)"
  by code_simp+

subsection \<open>Mappings\<close>

text \<open>
  C29. A mapping file that is accepted names a target network and at least one mapping; no source is a
  system chaincode, a private hash namespace or a reserved name; every target, the one for hashes
  included, passes the committer's rules; no source is mapped twice, and the lookup the importer uses
  returns, for each source, its one mapping and reports every other source as not selected.
\<close>

theorem accepted_mappings_valid:
  assumes "readMappings L i = Inr c"
  shows "TargetNetwork c \<noteq> [] \<and> Mappings c \<noteq> [] \<and>
    (\<forall>m \<in> set (Mappings c).
       SourceChannel m \<noteq> [] \<and> SourceNamespace m \<noteq> [] \<and> \<not> HasPrefix (SourceNamespace m) ''_'' \<and>
       \<not> Contains (SourceNamespace m) ''$$'' \<and> SourceNamespace m \<notin> {''lscc'', ''cscc'', ''qscc''} \<and>
       (\<forall>t \<in> {TargetNamespace m, hashTarget m}. \<not> IsSystemNamespace L t \<and> ValidateNamespaceID L t = Inr ()) \<and>
       mappingFor c (SourceChannel m) (SourceNamespace m) = (m, True)) \<and>
    (\<forall>channel ns. snd (mappingFor c channel ns) \<longleftrightarrow>
       (\<exists>m \<in> set (Mappings c). SourceChannel m = channel \<and> SourceNamespace m = ns))"
proof -
  note ok = readMappings_sound(1) [OF assms, unfolded config_ok_def]
  have found: "mappingFor c (SourceChannel m) (SourceNamespace m) = (m, True)" if "m \<in> set (Mappings c)" for m
    using mappingFor_iff [of c] ok that by (simp add: source_of_def)
  have "snd (mappingFor c channel ns) \<longleftrightarrow>
       (\<exists>m \<in> set (Mappings c). SourceChannel m = channel \<and> SourceNamespace m = ns)" for channel ns
    by (auto simp: mappingFor_None source_of_def image_iff)
  with ok found show ?thesis
    by (auto simp: mapping_ok_def target_ok_def invalid_source_def source_of_def)
qed

theorem accepted_mappings_valid_witness:
  "mappingFor (ex_config\<lparr>Mappings := rev ex_mappings\<rparr>) ''assets'' ''b'' =
    (\<lparr>SourceChannel = ''assets'', SourceNamespace = ''b'', TargetNamespace = ''tb'', TargetHashNamespace = []\<rparr>, True)"
  using accepted_mappings_valid [OF ex_reads(1)] by (simp add: ex_mappings_def)

text \<open>
  C30. The mappings are put in one order whatever the order of the file: two files that list the same
  mappings are accepted together and give the same configuration, so independent operators agree.
\<close>

theorem mapping_order_irrelevant:
  assumes "decode_mappings L (input_data i) = Inr (c, rest)" "decode_mappings L (input_data i') = Inr (c', rest)"
    and "mset (Mappings c') = mset (Mappings c)" "TargetNetwork c' = TargetNetwork c"
  shows "readMappings L i = Inr r \<longleftrightarrow> readMappings L i' = Inr r"
proof -
  have "distinct (map source_of (Mappings c')) \<longleftrightarrow> distinct (map source_of (Mappings c))"
    using assms(3) by (metis mset_map mset_eq_imp_distinct_iff)
  moreover have "set (Mappings c') = set (Mappings c)" using assms(3) by (rule mset_eq_setD)
  moreover from this have "Mappings c' = [] \<longleftrightarrow> Mappings c = []" by (metis set_empty)
  ultimately have ok: "config_ok L c' \<longleftrightarrow> config_ok L c"
    using assms(4) by (simp add: config_ok_def)
  have "c'\<lparr>Mappings := sort_key source_of (Mappings c')\<rparr> = c\<lparr>Mappings := sort_key source_of (Mappings c)\<rparr>"
    if "config_ok L c"
    using sort_order_independent [of "Mappings c" "Mappings c'"] that assms(3,4) by (simp add: config_ok_def)
  with ok show ?thesis by (auto simp: readMappings_Inr assms(1,2))
qed

theorem mapping_order_irrelevant_witness:
  "readMappings ex_mapping_lib (ex_input 2) = Inr (ex_config\<lparr>Mappings := rev ex_mappings\<rparr>)"
proof -
  have "decode_mappings ex_mapping_lib (input_data (ex_input 1)) = Inr (ex_config, [])"
    "decode_mappings ex_mapping_lib (input_data (ex_input 2)) = Inr (ex_config\<lparr>Mappings := rev ex_mappings\<rparr>, [])"
    by code_simp+
  note same = mapping_order_irrelevant [OF this]
  show ?thesis by (rule iffD1 [OF same ex_reads(1)]) (simp_all add: ex_config_def)
qed

subsection \<open>Counts\<close>

definition ex_snapshots :: "(string, snapshot_stream) gomap" where
  "ex_snapshots = [(''assets'',
     \<lparr>Directory = ''d'',
      Metadata = \<lparr>ChannelName = ''assets'', LastBlockNumber = 3, LastBlockHash = [], PreviousBlockHash = [],
        SnapshotFilesRawHashes = [], StateDBType = ''CouchDB''\<rparr>,
      AdditionalMetadata = \<lparr>SnapshotHash = [], LastBlockCommitHash = []\<rparr>,
      PublicNamespaces = [\<lparr>Name = ''a'', Records = 2\<rparr>, \<lparr>Name = ''b'', Records = 3\<rparr>, \<lparr>Name = ''x'', Records = 9\<rparr>],
      PrivateHashNamespaces = [\<lparr>Name = ''a$$hc'', Records = 4\<rparr>, \<lparr>Name = ''b$$hd'', Records = 5\<rparr>],
      fileHashes = []\<rparr>)]"

definition ex_counts :: counts where
  "ex_counts = [(''tb'', 8), (''ta'', 2), (''th'', 4)]"

lemma ex_counts_ok: "mappingCounts ex_config ex_snapshots = Inr ex_counts"
  by code_simp

text \<open>
  C24. The expected record counts: for every target namespace the sum, modulo \<open>2^64\<close>, over the
  mappings and the snapshots' namespaces of the public records that map to it and of the private
  hashes that map to it; the namespaces counted are exactly the targets that are mapped to; and every
  mapped source exists in its snapshot.
\<close>

theorem counts_are_the_sums:
  assumes "mappingCounts config snapshots = Inr counts"
  shows "lookup_count counts t =
      (\<Sum>m \<leftarrow> Mappings config. case map_of snapshots (SourceChannel m) of None \<Rightarrow> 0 | Some s \<Rightarrow>
         (if TargetNamespace m = t
          then \<Sum>ns \<leftarrow> filter (\<lambda>ns. Name ns = SourceNamespace m) (PublicNamespaces s). Records ns else 0) +
         (if hashTarget m = t
          then \<Sum>ns \<leftarrow> filter (\<lambda>ns. \<exists>coll. SplitHashNamespace (Name ns) = Inr (SourceNamespace m, coll))
                 (PrivateHashNamespaces s). Records ns else 0)) \<and>
    wf_map counts \<and>
    set (keys counts) = (\<Union>m \<in> set (Mappings config). touched snapshots m) \<and>
    (\<forall>m \<in> set (Mappings config). \<exists>s. map_of snapshots (SourceChannel m) = Some s \<and>
       ((\<exists>ns \<in> set (PublicNamespaces s). Name ns = SourceNamespace m) \<or>
        (\<exists>ns \<in> set (PrivateHashNamespaces s). \<exists>coll. SplitHashNamespace (Name ns) = Inr (SourceNamespace m, coll))))"
proof -
  have src: "hash_source n = Some x \<longleftrightarrow> (\<exists>coll. SplitHashNamespace n = Inr (x, coll))" for n x
    by (auto simp: hash_source_def split: sum.splits)
  have "contribution snapshots t = (\<lambda>m. case map_of snapshots (SourceChannel m) of None \<Rightarrow> 0 | Some s \<Rightarrow>
         (if TargetNamespace m = t
          then \<Sum>ns \<leftarrow> filter (\<lambda>ns. Name ns = SourceNamespace m) (PublicNamespaces s). Records ns else 0) +
         (if hashTarget m = t
          then \<Sum>ns \<leftarrow> filter (\<lambda>ns. \<exists>coll. SplitHashNamespace (Name ns) = Inr (SourceNamespace m, coll))
                 (PrivateHashNamespaces s). Records ns else 0))"
    by (intro ext) (simp add: contribution_def public_count_def hash_count_def src split: option.split)
  then show ?thesis
    using mappingCounts_Inr [OF assms] mappingCounts_found [OF assms] by (simp add: src)
qed

theorem counts_are_the_sums_witness:
  "wf_map ex_counts \<and> lookup_count ex_counts ''tb'' = 8"
proof -
  have "lookup_count ex_counts ''tb'' = 8" by code_simp
  with counts_are_the_sums [OF ex_counts_ok, of "''tb''"] show ?thesis by blast
qed

end
