(* ===== verification/Policy.thy ===== *)
theory Policy
  imports GoLib
begin

text \<open>
  The policy conversion of \<^verbatim>\<open>internal/migrate/config.go\<close>: \<open>canonicalPolicy\<close>,
  \<open>independentRules\<close>, \<open>resolvePolicy\<close>, \<open>normalizeImplicitMeta\<close>,
  \<open>peerImpliesMember\<close> and \<open>singlePolicyRole\<close>. The protobuf messages are datatypes with
  the fields the code reads and writes, nil pointers included; marshalling and the policy objects of
  Fabric are parameters. The code rewrites a freshly cloned or unmarshalled message in place, so a
  function from the old message to the new one has the same effect.
\<close>

subsection \<open>Messages\<close>

datatype classification = ROLE | OtherClass int

record principal =
  PrincipalClassification :: classification
  Principal :: bytes

datatype role_type = MEMBER | PEER | OtherRole int

record msp_role =
  MspIdentifier :: string
  Role :: role_type

text \<open>
  A \<^verbatim>\<open>*cb.SignaturePolicy\<close>: a nil pointer, a message whose \<^verbatim>\<open>Type\<close> is not set, a
  leaf, a threshold whose message is nil, or a threshold with its branches.
\<close>

datatype sig_policy =
    RuleNil
  | RuleUnset
  | SignedBy int
  | NOutOfNil
  | NOutOf int "sig_policy list"

text \<open>
  A \<^verbatim>\<open>*cb.SignaturePolicyEnvelope\<close>; \<open>eVersion\<close> is what the code copies without looking.
\<close>

record sig_envelope =
  eVersion :: int
  eRule :: sig_policy
  eIdentities :: "principal option list"

record policy_lib =
  marshal_principal :: "principal \<Rightarrow> bytes res"
  marshal_rule :: "sig_policy \<Rightarrow> bytes"
  marshal_envelope :: "sig_envelope \<Rightarrow> bytes res"
  unmarshal_envelope :: "bytes \<Rightarrow> sig_envelope res"
  unmarshal_role :: "bytes \<Rightarrow> msp_role res"
  marshal_namespace_policy :: "bytes \<Rightarrow> bytes res"

text \<open>The generated getters: \<^verbatim>\<open>GetNOutOf\<close> and \<^verbatim>\<open>GetSignedBy\<close>.\<close>

definition GetNOutOf :: "sig_policy \<Rightarrow> (int \<times> sig_policy list) option" where
  "GetNOutOf rule = (case rule of NOutOf n rules \<Rightarrow> Some (n, rules) | _ \<Rightarrow> None)"

definition GetSignedBy :: "sig_policy \<Rightarrow> int" where
  "GetSignedBy rule = (case rule of SignedBy i \<Rightarrow> i | _ \<Rightarrow> 0)"

text \<open>
  \<^verbatim>\<open>identities[i]\<close>. Indexes are checked by \<open>canonicalPolicy\<close> before any other function
  uses them, and no identity is nil after it; outside of that the model has \<open>None\<close>.
\<close>

definition identity_at :: "principal option list \<Rightarrow> int \<Rightarrow> principal option" where
  "identity_at ids i = (if 0 \<le> i \<and> nat i < length ids then ids ! nat i else None)"

subsection \<open>canonicalPolicy\<close>

fun marshal_identities ::
  "'l policy_lib_scheme \<Rightarrow> principal option list \<Rightarrow> string list \<Rightarrow> (string, principal) gomap \<Rightarrow>
   (string list \<times> (string, principal) gomap) res" where
  "marshal_identities L [] oldIDs identities = Inr (oldIDs, identities)"
| "marshal_identities L (None # ps) oldIDs identities = Inl (New ''nil policy principal'' [])"
| "marshal_identities L (Some p # ps) oldIDs identities =
     rbind (marshal_principal L p) (\<lambda>bs.
       marshal_identities L ps (oldIDs @ [string_of_bytes bs])
         (AList.update (string_of_bytes bs) p identities))"

text \<open>The loop that numbers the distinct principals in the order of their encodings.\<close>

fun index_identities ::
  "(string, principal) gomap \<Rightarrow> string list \<Rightarrow> (string, int) gomap \<Rightarrow> principal option list \<Rightarrow>
   (string, int) gomap \<times> principal option list" where
  "index_identities identities [] index ids = (index, ids)"
| "index_identities identities (key # ks) index ids =
     index_identities identities ks (AList.update key (int (length ids)) index) (ids @ [map_of identities key])"

fun normalize_indexes :: "string list \<Rightarrow> (string, int) gomap \<Rightarrow> sig_policy \<Rightarrow> sig_policy res" where
  "normalize_indexes oldIDs index RuleNil = Inl (New ''missing signature policy rule'' [])"
| "normalize_indexes oldIDs index (SignedBy i) =
     (if i < 0 \<or> nat i \<ge> length oldIDs then Inl (New ''signature policy references unknown principal'' [])
      else Inr (SignedBy (case map_of index (oldIDs ! nat i) of None \<Rightarrow> 0 | Some k \<Rightarrow> k)))"
| "normalize_indexes oldIDs index NOutOfNil = Inl (New ''invalid signature policy threshold'' [])"
| "normalize_indexes oldIDs index (NOutOf n rules) =
     (if n < 0 \<or> nat n > length rules then Inl (New ''invalid signature policy threshold'' [])
      else rbind (rmap (normalize_indexes oldIDs index) rules) (\<lambda>rules. Inr (NOutOf n rules)))"
| "normalize_indexes oldIDs index RuleUnset = Inl (New ''unsupported signature policy rule'' [])"

definition canonical_envelope :: "'l policy_lib_scheme \<Rightarrow> sig_envelope \<Rightarrow> sig_envelope res" where
  "canonical_envelope L policy =
     rbind (marshal_identities L (eIdentities policy) [] []) (\<lambda>(oldIDs, identities).
     case index_identities identities (sortedKeys identities) [] [] of (index, ids) \<Rightarrow>
     rbind (normalize_indexes oldIDs index (eRule policy)) (\<lambda>rule.
       Inr (policy\<lparr>eRule := rule, eIdentities := ids\<rparr>)))"

definition canonicalPolicy :: "'l policy_lib_scheme \<Rightarrow> sig_envelope \<Rightarrow> bytes res" where
  "canonicalPolicy L policy = rbind (canonical_envelope L policy) (marshal_envelope L)"

subsection \<open>independentRules\<close>

definition role_of :: "'l policy_lib_scheme \<Rightarrow> principal \<Rightarrow> msp_role option" where
  "role_of L p =
     (if PrincipalClassification p \<noteq> ROLE then None
      else case unmarshal_role L (Principal p) of Inl _ \<Rightarrow> None | Inr r \<Rightarrow> Some r)"

text \<open>
  The closure \<open>visit\<close>: the new \<open>owners\<close> map, or \<open>None\<close> where the source returns false.
\<close>

fun visit_rule ::
  "'l policy_lib_scheme \<Rightarrow> principal option list \<Rightarrow> nat \<Rightarrow> sig_policy \<Rightarrow> (string, nat) gomap \<Rightarrow> (string, nat) gomap option"
and visit_rules ::
  "'l policy_lib_scheme \<Rightarrow> principal option list \<Rightarrow> nat \<Rightarrow> sig_policy list \<Rightarrow> (string, nat) gomap \<Rightarrow> (string, nat) gomap option"
where
  "visit_rule L ids branch (NOutOf n rules) owners = visit_rules L ids branch rules owners"
| "visit_rule L ids branch rule owners =
     (case Option.bind (identity_at ids (GetSignedBy rule)) (role_of L) of
        None \<Rightarrow> None
      | Some role \<Rightarrow>
          if MspIdentifier role = [] then None
          else if (case map_of owners (MspIdentifier role) of None \<Rightarrow> False | Some previous \<Rightarrow> previous \<noteq> branch)
          then None
          else Some (AList.update (MspIdentifier role) branch owners))"
| "visit_rules L ids branch [] owners = Some owners"
| "visit_rules L ids branch (child # rules) owners =
     (case visit_rule L ids branch child owners of
        None \<Rightarrow> None
      | Some owners \<Rightarrow> visit_rules L ids branch rules owners)"

fun visit_branches ::
  "'l policy_lib_scheme \<Rightarrow> principal option list \<Rightarrow> nat \<Rightarrow> sig_policy list \<Rightarrow> (string, nat) gomap \<Rightarrow> bool" where
  "visit_branches L ids branch [] owners = True"
| "visit_branches L ids branch (rule # rules) owners =
     (case visit_rule L ids branch rule owners of
        None \<Rightarrow> False
      | Some owners \<Rightarrow> visit_branches L ids (Suc branch) rules owners)"

definition independentRules :: "'l policy_lib_scheme \<Rightarrow> sig_policy list \<Rightarrow> principal option list \<Rightarrow> bool" where
  "independentRules L rules ids = visit_branches L ids 0 rules []"

subsection \<open>peerImpliesMember\<close>

fun singlePolicyRole :: "'l policy_lib_scheme \<Rightarrow> sig_policy \<Rightarrow> principal option list \<Rightarrow> msp_role option" where
  "singlePolicyRole L (NOutOf n rules) ids =
     (if n \<noteq> 1 then None
      else case rules of [r] \<Rightarrow> singlePolicyRole L r ids | _ \<Rightarrow> None)"
| "singlePolicyRole L rule ids = Option.bind (identity_at ids (GetSignedBy rule)) (role_of L)"

definition peerImpliesMember :: "'l policy_lib_scheme \<Rightarrow> sig_policy \<Rightarrow> sig_policy \<Rightarrow> principal option list \<Rightarrow> bool" where
  "peerImpliesMember L peer member ids =
     (case (singlePolicyRole L peer ids, singlePolicyRole L member ids) of
        (Some p, Some m) \<Rightarrow> MspIdentifier p \<noteq> [] \<and> MspIdentifier p = MspIdentifier m \<and>
          Role p = PEER \<and> Role m = MEMBER
      | _ \<Rightarrow> False)"

subsection \<open>normalizeImplicitMeta\<close>

text \<open>
  A \<^verbatim>\<open>policies.Policy\<close>: an \<^verbatim>\<open>*policies.ImplicitMetaPolicy\<close> with its threshold and
  subpolicies, or any other policy object.
\<close>

datatype 'o src_policy = ImplicitMeta int "'o src_policy list" | OtherPolicy 'o

text \<open>The two nested loops that drop redundant branches; \<open>i\<close> is the position of the candidate.\<close>

definition redundant :: "'l policy_lib_scheme \<Rightarrow> bool \<Rightarrow> sig_policy list \<Rightarrow> principal option list \<Rightarrow> nat \<Rightarrow> bool" where
  "redundant L allRules rules ids i =
     list_ex (\<lambda>j. (j < i \<and> rules ! i = rules ! j) \<or> (allRules \<and> peerImpliesMember L (rules ! j) (rules ! i) ids))
       [0..<length rules]"

definition merge_rules :: "'l policy_lib_scheme \<Rightarrow> bool \<Rightarrow> sig_policy list \<Rightarrow> principal option list \<Rightarrow> sig_policy list" where
  "merge_rules L allRules rules ids =
     map ((!) rules) (filter (\<lambda>i. \<not> redundant L allRules rules ids i) [0..<length rules])"

definition order_rules ::
  "'l policy_lib_scheme \<Rightarrow> int \<Rightarrow> sig_policy list \<Rightarrow> principal option list \<Rightarrow> sig_policy res" where
  "order_rules L n rules ids =
     (if \<not> independentRules L rules ids
      then Inl (New ''implicit-meta subpolicies still have overlapping or unsupported principals after supported simplifications'' [])
      else Inr (NOutOf n (sort_key (marshal_rule L) rules)))"

text \<open>Everything after the recursive calls.\<close>

definition merge_boundary ::
  "'l policy_lib_scheme \<Rightarrow> int \<Rightarrow> sig_policy list \<Rightarrow> principal option list \<Rightarrow> sig_policy res" where
  "merge_boundary L n rules ids =
     (let allRules = (n = int (length rules)) in
      if allRules \<or> n = 1 then
        let merged = merge_rules L allRules rules ids;
            n = (if allRules then int (length merged) else n) in
        if length merged = 1 then Inr (hd merged) else order_rules L n merged ids
      else order_rules L n rules ids)"

fun normalizeImplicitMeta ::
  "'l policy_lib_scheme \<Rightarrow> 'o src_policy \<Rightarrow> sig_policy \<Rightarrow> principal option list \<Rightarrow> sig_policy res"
and normalize_subpolicies ::
  "'l policy_lib_scheme \<Rightarrow> 'o src_policy list \<Rightarrow> sig_policy list \<Rightarrow> principal option list \<Rightarrow> sig_policy list res"
where
  "normalizeImplicitMeta L (OtherPolicy p) rule ids = Inr rule"
| "normalizeImplicitMeta L (ImplicitMeta threshold subs) rule ids =
     (case GetNOutOf rule of
        None \<Rightarrow> Inl (New ''implicit-meta conversion changed the number of subpolicies'' [])
      | Some (n, rules) \<Rightarrow>
          if length rules \<noteq> length subs
          then Inl (New ''implicit-meta conversion changed the number of subpolicies'' [])
          else rbind (normalize_subpolicies L subs rules ids) (\<lambda>rules. merge_boundary L n rules ids))"
| "normalize_subpolicies L (child # subs) (rule # rules) ids =
     rbind (normalizeImplicitMeta L child rule ids) (\<lambda>rule.
     rbind (normalize_subpolicies L subs rules ids) (\<lambda>rules. Inr (rule # rules)))"
| "normalize_subpolicies L subs rules ids = Inr []"

subsection \<open>resolvePolicy\<close>

text \<open>
  A \<^verbatim>\<open>*pb.ApplicationPolicy\<close>, and what a channel's policy manager returns for a path: the
  policy object and, when it is a \<^verbatim>\<open>policies.Converter\<close>, what \<^verbatim>\<open>Convert\<close> returns
  (the envelope pointer may be nil).
\<close>

datatype app_policy =
    SignaturePolicy "sig_envelope option"
  | ChannelConfigPolicyReference string
  | AppPolicyUnset

record 'o resolved_policy =
  policy_object :: "'o src_policy"
  converted :: "sig_envelope option res option"

type_synonym 'o policy_manager = "string \<Rightarrow> 'o resolved_policy option"

definition select_signature ::
  "app_policy \<Rightarrow> 'o policy_manager \<Rightarrow> (sig_envelope option \<times> 'o src_policy option) res" where
  "select_signature policy GetPolicy =
     (case policy of
        SignaturePolicy s \<Rightarrow> Inr (s, None)
      | ChannelConfigPolicyReference p \<Rightarrow>
          (case GetPolicy p of
             None \<Rightarrow> Inl (New ''source policy does not exist'' [p])
           | Some resolved \<Rightarrow>
               (case converted resolved of
                  None \<Rightarrow> Inl (New ''source policy cannot be represented by a signature policy'' [p])
                | Some result \<Rightarrow> rbind result (\<lambda>s. Inr (s, Some (policy_object resolved)))))
      | AppPolicyUnset \<Rightarrow> Inl (New ''missing or unsupported application endorsement policy'' []))"

definition normalize_referenced :: "'l policy_lib_scheme \<Rightarrow> 'o src_policy \<Rightarrow> bytes \<Rightarrow> bytes res" where
  "normalize_referenced L referenced canonical =
     rbind (unmarshal_envelope L canonical) (\<lambda>signature.
     rbind (normalizeImplicitMeta L referenced (eRule signature) (eIdentities signature)) (\<lambda>rule.
       marshal_envelope L (signature\<lparr>eRule := rule\<rparr>)))"

definition resolvePolicy :: "'l policy_lib_scheme \<Rightarrow> app_policy \<Rightarrow> 'o policy_manager \<Rightarrow> bytes res" where
  "resolvePolicy L policy GetPolicy =
     rbind (select_signature policy GetPolicy) (\<lambda>(signature, referenced).
       case signature of
         None \<Rightarrow> Inl (New ''missing signature policy'' [])
       | Some s \<Rightarrow>
           rbind (canonicalPolicy L s) (\<lambda>canonical.
           rbind (case referenced of None \<Rightarrow> Inr canonical | Some r \<Rightarrow> normalize_referenced L r canonical)
             (marshal_namespace_policy L)))"

end
