(* ===== verification/PolicyRules.thy ===== *)
theory PolicyRules
  imports Policy
begin

text \<open>
  What the policy conversion of theory Policy computes, without any meaning of the policies: the
  canonical numbering of principals, the shape of rules it accepts, when branches are independent,
  and that the order of the branches of an implicit-meta policy does not matter.
\<close>

subsection \<open>Rules the conversion accepts\<close>

text \<open>
  No nil, no unset type, every threshold between 0 and the number of branches, every leaf the index
  of a principal.
\<close>

fun wf_rule :: "principal option list \<Rightarrow> sig_policy \<Rightarrow> bool" where
  "wf_rule ids (SignedBy i) \<longleftrightarrow> identity_at ids i \<noteq> None"
| "wf_rule ids (NOutOf n rules) \<longleftrightarrow> 0 \<le> n \<and> nat n \<le> length rules \<and> (\<forall>r \<in> set rules. wf_rule ids r)"
| "wf_rule ids _ \<longleftrightarrow> False"

text \<open>A rule with the principals in place of their indexes: what an envelope says.\<close>

datatype principal_rule = Leaf "principal option" | Threshold int "principal_rule list" | Invalid

fun resolve_rule :: "principal option list \<Rightarrow> sig_policy \<Rightarrow> principal_rule" where
  "resolve_rule ids (SignedBy i) = Leaf (identity_at ids i)"
| "resolve_rule ids (NOutOf n rules) = Threshold n (map (resolve_rule ids) rules)"
| "resolve_rule ids _ = Invalid"

subsection \<open>The canonical numbering\<close>

definition encoding :: "'l policy_lib_scheme \<Rightarrow> principal \<Rightarrow> string" where
  "encoding L p = (case marshal_principal L p of Inl _ \<Rightarrow> [] | Inr bs \<Rightarrow> string_of_bytes bs)"

definition marshals :: "'l policy_lib_scheme \<Rightarrow> principal option list \<Rightarrow> bool" where
  "marshals L ps \<longleftrightarrow> (\<forall>p \<in> set ps. \<exists>q bs. p = Some q \<and> marshal_principal L q = Inr bs)"

lemma marshals_simps [simp]:
  "marshals L []"
  "marshals L (None # ps) \<longleftrightarrow> False"
  "marshals L (Some p # ps) \<longleftrightarrow> (\<exists>bs. marshal_principal L p = Inr bs) \<and> marshals L ps"
  by (auto simp: marshals_def)

lemma marshal_identities_Inr:
  "marshal_identities L ps old m = Inr (old', m') \<longleftrightarrow>
     marshals L ps \<and> old' = old @ map (encoding L \<circ> the) ps \<and>
     m' = fold (\<lambda>p. AList.update (encoding L (the p)) (the p)) ps m"
  by (induction L ps old m rule: marshal_identities.induct) (auto simp: encoding_def)

lemma map_of_fold_update:
  "\<forall>p \<in> set ps. \<forall>q \<in> set ps. f p = f q \<longrightarrow> g p = g q \<Longrightarrow> p \<in> set ps \<Longrightarrow>
   map_of (fold (\<lambda>p. AList.update (f p) (g p)) ps m) (f p) = Some (g p)"
proof (induction ps rule: rev_induct)
  case (snoc q ps)
  show ?case
  proof (cases "f p = f q")
    case True
    then have "g p = g q" using bspec [OF bspec [OF snoc.prems], of q] by simp
    with True show ?thesis by simp
  next
    case False
    then have old: "p \<in> set ps" using snoc.prems(2) by auto
    have same: "\<forall>p \<in> set ps. \<forall>q \<in> set ps. f p = f q \<longrightarrow> g p = g q"
      using snoc.prems(1) by (simp only: set_append Un_iff) blast
    from snoc.IH [OF same old] False show ?thesis by simp
  qed
qed simp

lemma keys_fold_update:
  "set (keys (fold (\<lambda>p. AList.update (f p) (g p)) ps m)) = set (keys m) \<union> f ` set ps"
  by (induction ps arbitrary: m) (auto simp: set_keys)

lemma wf_map_fold_update: "wf_map m \<Longrightarrow> wf_map (fold (\<lambda>p. AList.update (f p) (g p)) ps m)"
  by (induction ps arbitrary: m) simp_all

lemma index_identities_eq:
  "distinct ks \<Longrightarrow> set ks \<inter> dom (map_of index) = {} \<Longrightarrow>
   index_identities m ks index ids = (index', ids') \<Longrightarrow>
     ids' = ids @ map (map_of m) ks \<and>
     (\<forall>i < length ks. map_of index' (ks ! i) = Some (int (length ids + i))) \<and>
     (\<forall>k. k \<notin> set ks \<longrightarrow> map_of index' k = map_of index k)"
proof (induction ks arbitrary: index ids)
  case (Cons k ks)
  let ?index = "AList.update k (int (length ids)) index"
  from Cons.prems have "index_identities m ks ?index (ids @ [map_of m k]) = (index', ids')" by simp
  with Cons.prems have IH: "ids' = (ids @ [map_of m k]) @ map (map_of m) ks \<and>
     (\<forall>i < length ks. map_of index' (ks ! i) = Some (int (length (ids @ [map_of m k]) + i))) \<and>
     (\<forall>x. x \<notin> set ks \<longrightarrow> map_of index' x = map_of ?index x)"
    by (intro Cons.IH) (auto split: if_splits)
  have "map_of index' ((k # ks) ! i) = Some (int (length ids + i))" if "i < length (k # ks)" for i
    using that IH Cons.prems(1) by (cases i) auto
  with IH show ?case by auto
qed simp

text \<open>The sorted encodings of a list of principals, each once.\<close>

definition sorted_encodings :: "'l policy_lib_scheme \<Rightarrow> principal option list \<Rightarrow> string list" where
  "sorted_encodings L ps = sorted_list_of_set ((encoding L \<circ> the) ` set ps)"

definition encodes_uniquely :: "'l policy_lib_scheme \<Rightarrow> bool" where
  "encodes_uniquely L \<longleftrightarrow> (\<forall>p q bs. marshal_principal L p = Inr bs \<and> marshal_principal L q = Inr bs \<longrightarrow> p = q)"

lemma encoding_inject:
  assumes "encodes_uniquely L" "marshals L ps" "p \<in> set ps" "q \<in> set ps"
    "encoding L (the p) = encoding L (the q)"
  shows "p = q"
proof -
  from assms(2,3) obtain x bs where x: "p = Some x" "marshal_principal L x = Inr bs"
    unfolding marshals_def by blast
  from assms(2,4) obtain y bs' where y: "q = Some y" "marshal_principal L y = Inr bs'"
    unfolding marshals_def by blast
  from assms(5) x y have "bs = bs'" by (simp add: encoding_def)
  with assms(1) x y show ?thesis by (auto simp: encodes_uniquely_def)
qed

definition marshalled :: "'l policy_lib_scheme \<Rightarrow> principal option list \<Rightarrow> (string, principal) gomap" where
  "marshalled L ps = fold (\<lambda>p. AList.update (encoding L (the p)) (the p)) ps []"

lemma map_of_marshalled:
  assumes "encodes_uniquely L" "marshals L ps" "p \<in> set ps"
  shows "map_of (marshalled L ps) (encoding L (the p)) = p"
proof -
  have "\<forall>p \<in> set ps. \<forall>q \<in> set ps. encoding L (the p) = encoding L (the q) \<longrightarrow> the p = the q"
    using encoding_inject [OF assms(1,2)] by blast
  from map_of_fold_update [OF this assms(3)] assms(2,3) show ?thesis
    by (auto simp: marshalled_def marshals_def)
qed

lemma sorted_encodings_sort:
  "sorted_encodings L ps = sort (remdups (map (encoding L \<circ> the) ps))"
  unfolding sorted_encodings_def by (metis set_map sorted_list_of_set_sort_remdups)

lemma sortedKeys_marshalled: "sortedKeys (marshalled L ps) = sorted_encodings L ps"
proof -
  have "wf_map (marshalled L ps)"
    unfolding marshalled_def by (rule wf_map_fold_update) (simp add: wf_map_def keys_def)
  then have "sortedKeys (marshalled L ps) = sorted_list_of_set (set (keys (marshalled L ps)))"
    by (simp add: sortedKeys_def wf_map_def sorted_list_of_set_sort_remdups distinct_remdups_id)
  moreover have "set (keys (marshalled L ps)) = (encoding L \<circ> the) ` set ps"
    unfolding marshalled_def keys_fold_update by (simp add: keys_def comp_def)
  ultimately show ?thesis by (simp add: sorted_encodings_def)
qed

lemma marshal_identities_marshalled:
  "marshal_identities L ps [] [] = Inr (old, m) \<longleftrightarrow>
     marshals L ps \<and> old = map (encoding L \<circ> the) ps \<and> m = marshalled L ps"
  by (simp add: marshal_identities_Inr marshalled_def)

definition canonical_identities :: "'l policy_lib_scheme \<Rightarrow> principal option list \<Rightarrow> principal option list" where
  "canonical_identities L ps = map (map_of (marshalled L ps)) (sorted_encodings L ps)"

lemma set_sorted_encodings [simp]: "set (sorted_encodings L ps) = (encoding L \<circ> the) ` set ps"
  by (simp add: sorted_encodings_def)

lemma canonical_identities_encodings:
  assumes "encodes_uniquely L" "marshals L ps"
  shows "map (encoding L \<circ> the) (canonical_identities L ps) = sorted_encodings L ps"
proof -
  have "encoding L (the (map_of (marshalled L ps) k)) = k" if "k \<in> set (sorted_encodings L ps)" for k
    using that map_of_marshalled [OF assms] by auto
  then show ?thesis by (auto simp: canonical_identities_def intro!: map_idI)
qed

lemma set_canonical_identities:
  assumes "encodes_uniquely L" "marshals L ps"
  shows "set (canonical_identities L ps) = set ps"
  using map_of_marshalled [OF assms] by (force simp: canonical_identities_def)

lemma distinct_canonical_identities:
  assumes "encodes_uniquely L" "marshals L ps"
  shows "distinct (canonical_identities L ps)"
  using canonical_identities_encodings [OF assms]
  by (metis distinct_map sorted_encodings_def distinct_sorted_list_of_set)

lemma canonical_identities_cong:
  assumes "encodes_uniquely L" "marshals L ps" "set qs = set ps"
  shows "canonical_identities L qs = canonical_identities L ps"
proof -
  have qs: "marshals L qs" using assms(2,3) by (simp add: marshals_def)
  have keys: "sorted_encodings L qs = sorted_encodings L ps" by (simp add: sorted_encodings_def assms(3))
  have "map_of (marshalled L qs) k = map_of (marshalled L ps) k" if "k \<in> set (sorted_encodings L ps)" for k
    using that map_of_marshalled [OF assms(1,2)] map_of_marshalled [OF assms(1) qs] assms(3) by force
  then show ?thesis by (simp add: canonical_identities_def keys)
qed

text \<open>The renumbering keeps every leaf's principal, and succeeds on exactly the well-formed rules.\<close>

definition renumbers ::
  "principal option list \<Rightarrow> string list \<Rightarrow> (string, int) gomap \<Rightarrow> principal option list \<Rightarrow> bool" where
  "renumbers ids old index ids' \<longleftrightarrow> length old = length ids \<and> None \<notin> set ids \<and>
     (\<forall>i < length ids. \<exists>k < length ids'. map_of index (old ! i) = Some (int k) \<and> ids' ! k = ids ! i)"

lemma index_renumbers:
  assumes "encodes_uniquely L" "marshals L ps"
    "index_identities (marshalled L ps) (sorted_encodings L ps) [] [] = (index, ids)"
  shows "ids = canonical_identities L ps" "renumbers ps (map (encoding L \<circ> the) ps) index ids"
proof -
  have "distinct (sorted_encodings L ps)" by (simp add: sorted_encodings_def)
  from index_identities_eq [OF this _ assms(3)]
  have ids: "ids = canonical_identities L ps"
    and index: "\<forall>i < length (sorted_encodings L ps). map_of index (sorted_encodings L ps ! i) = Some (int i)"
    by (auto simp: canonical_identities_def)
  show "ids = canonical_identities L ps" by (rule ids)
  have "\<exists>k < length ids. map_of index (map (encoding L \<circ> the) ps ! i) = Some (int k) \<and> ids ! k = ps ! i"
    if i: "i < length ps" for i
  proof -
    from i have "encoding L (the (ps ! i)) \<in> set (sorted_encodings L ps)" by simp
    then obtain k where k: "k < length (sorted_encodings L ps)" "sorted_encodings L ps ! k = encoding L (the (ps ! i))"
      unfolding in_set_conv_nth by blast
    have "ids ! k = ps ! i"
      using k map_of_marshalled [OF assms(1,2), of "ps ! i"] i by (simp add: ids canonical_identities_def)
    with k index i show ?thesis by (intro exI [of _ k]) (auto simp: ids canonical_identities_def)
  qed
  moreover have "None \<notin> set ps" using assms(2) by (auto simp: marshals_def)
  ultimately show "renumbers ps (map (encoding L \<circ> the) ps) index ids" by (simp add: renumbers_def)
qed

lemma normalize_indexes_sound:
  assumes "renumbers ids old index ids'"
  shows "normalize_indexes old index rule = Inr rule' \<Longrightarrow>
     wf_rule ids rule \<and> wf_rule ids' rule' \<and> resolve_rule ids' rule' = resolve_rule ids rule"
proof (induction rule arbitrary: rule')
  case (SignedBy i)
  then have i: "0 \<le> i" "nat i < length ids" using assms by (auto simp: renumbers_def)
  then obtain k where k: "k < length ids'" "map_of index (old ! nat i) = Some (int k)" "ids' ! k = ids ! nat i"
    using assms unfolding renumbers_def by blast
  have "ids ! nat i \<noteq> None" using assms i(2) by (metis nth_mem renumbers_def)
  with SignedBy i k show ?case by (auto simp: identity_at_def)
next
  case (NOutOf n rules)
  then obtain rules' where n: "0 \<le> n" "nat n \<le> length rules"
    and all: "list_all2 (\<lambda>r r'. normalize_indexes old index r = Inr r') rules rules'" and rule': "rule' = NOutOf n rules'"
    by (auto simp: rmap_Inr)
  have "list_all2 (\<lambda>r r'. wf_rule ids r \<and> wf_rule ids' r' \<and> resolve_rule ids' r' = resolve_rule ids r) rules rules'"
    using all by (rule list.rel_mono_strong) (use NOutOf.IH in blast)
  then show ?case using n rule'
    by (auto simp: list_all2_conv_all_nth in_set_conv_nth intro: nth_equalityI)
qed simp_all

lemma normalize_indexes_total:
  assumes "renumbers ids old index ids'"
  shows "wf_rule ids rule \<Longrightarrow> \<exists>rule'. normalize_indexes old index rule = Inr rule'"
proof (induction rule)
  case (SignedBy i)
  with assms show ?case by (auto simp: identity_at_def renumbers_def split: if_splits)
next
  case (NOutOf n rules)
  then have "\<forall>r \<in> set rules. \<exists>r'. normalize_indexes old index r = Inr r'" by simp
  then obtain g where "\<forall>r \<in> set rules. normalize_indexes old index r = Inr (g r)" by metis
  then have "rmap (normalize_indexes old index) rules = Inr (map g rules)"
    by (simp add: rmap_Inr list_all2_conv_all_nth)
  with NOutOf.prems show ?case by (simp del: rbind_Inr)
qed simp_all

lemma canonical_envelope_Inr:
  assumes "encodes_uniquely L" "canonical_envelope L e = Inr e'"
  shows "marshals L (eIdentities e)" "eIdentities e' = canonical_identities L (eIdentities e)"
    "eVersion e' = eVersion e" "wf_rule (eIdentities e) (eRule e)" "wf_rule (eIdentities e') (eRule e')"
    "resolve_rule (eIdentities e') (eRule e') = resolve_rule (eIdentities e) (eRule e)"
proof -
  from assms(2) obtain index ids rule where ps: "marshals L (eIdentities e)"
    and idx: "index_identities (marshalled L (eIdentities e)) (sorted_encodings L (eIdentities e)) [] [] = (index, ids)"
    and rule: "normalize_indexes (map (encoding L \<circ> the) (eIdentities e)) index (eRule e) = Inr rule"
    and e': "e' = e\<lparr>eRule := rule, eIdentities := ids\<rparr>"
    by (auto simp: canonical_envelope_def marshal_identities_marshalled sortedKeys_marshalled split: prod.splits)
  note index = index_renumbers [OF assms(1) ps idx]
  from normalize_indexes_sound [OF index(2) rule] ps index(1) e'
  show "marshals L (eIdentities e)" "eIdentities e' = canonical_identities L (eIdentities e)"
    "eVersion e' = eVersion e" "wf_rule (eIdentities e) (eRule e)" "wf_rule (eIdentities e') (eRule e')"
    "resolve_rule (eIdentities e') (eRule e') = resolve_rule (eIdentities e) (eRule e)"
    by simp_all
qed

lemma canonical_envelope_total:
  assumes "encodes_uniquely L" "marshals L (eIdentities e)" "wf_rule (eIdentities e) (eRule e)"
  shows "\<exists>e'. canonical_envelope L e = Inr e'"
proof -
  obtain index ids where idx:
    "index_identities (marshalled L (eIdentities e)) (sorted_encodings L (eIdentities e)) [] [] = (index, ids)"
    by fastforce
  obtain rule where "normalize_indexes (map (encoding L \<circ> the) (eIdentities e)) index (eRule e) = Inr rule"
    using normalize_indexes_total [OF index_renumbers(2) [OF assms(1,2) idx] assms(3)] by blast
  moreover have "marshal_identities L (eIdentities e) [] [] =
      Inr (map (encoding L \<circ> the) (eIdentities e), marshalled L (eIdentities e))"
    using assms(2) by (simp add: marshal_identities_marshalled)
  ultimately show ?thesis
    by (simp add: canonical_envelope_def sortedKeys_marshalled idx del: rbind_Inr)
qed

lemma resolve_rule_inject:
  assumes "distinct ids"
  shows "wf_rule ids a \<Longrightarrow> wf_rule ids b \<Longrightarrow> resolve_rule ids a = resolve_rule ids b \<Longrightarrow> a = b"
proof (induction a arbitrary: b)
  case (SignedBy i)
  then obtain j where b: "b = SignedBy j" by (cases b) auto
  have "0 \<le> i \<and> nat i < length ids" "0 \<le> j \<and> nat j < length ids" "ids ! nat i = ids ! nat j"
    using SignedBy b by (auto simp: identity_at_def split: if_splits)
  with assms show ?case by (auto simp: b nth_eq_iff_index_eq)
next
  case (NOutOf n rules)
  then obtain rules' where b: "b = NOutOf n rules'" by (cases b) auto
  have "map (resolve_rule ids) rules = map (resolve_rule ids) rules'" using NOutOf.prems b by simp
  moreover have "\<forall>r \<in> set rules. \<forall>r' \<in> set rules'. resolve_rule ids r = resolve_rule ids r' \<longrightarrow> r = r'"
    using NOutOf b by auto
  ultimately have "rules = rules'"
    by (metis (no_types, lifting) length_map nth_equalityI nth_map nth_mem)
  then show ?case by (simp add: b)
qed simp_all

lemma canonical_envelope_unique:
  assumes "encodes_uniquely L" "canonical_envelope L e = Inr e'" "canonical_envelope L d = Inr d'"
    "set (eIdentities d) = set (eIdentities e)" "eVersion d = eVersion e"
    "resolve_rule (eIdentities d) (eRule d) = resolve_rule (eIdentities e) (eRule e)"
  shows "d' = (e' :: sig_envelope)"
proof -
  note e = canonical_envelope_Inr [OF assms(1,2)] and d = canonical_envelope_Inr [OF assms(1,3)]
  have ids: "eIdentities d' = eIdentities e'"
    using canonical_identities_cong [OF assms(1) e(1) assms(4)] e(2) d(2) by simp
  have "eRule d' = eRule e'"
    by (rule resolve_rule_inject [OF distinct_canonical_identities [OF assms(1) e(1)]])
      (use e(2,5,6) d(2,5,6) ids assms(6) in simp_all)
  with ids e(3) d(3) assms(5) show ?thesis by simp
qed

lemma canonical_envelope_idem:
  assumes "encodes_uniquely L" "canonical_envelope L e = Inr e'"
  shows "canonical_envelope L e' = Inr (e' :: sig_envelope)"
proof -
  note e = canonical_envelope_Inr [OF assms]
  have set: "set (eIdentities e') = set (eIdentities e)"
    using set_canonical_identities [OF assms(1) e(1)] e(2) by simp
  then have "marshals L (eIdentities e')" using e(1) by (simp add: marshals_def)
  from canonical_envelope_total [OF assms(1) this e(5)] obtain d where d: "canonical_envelope L e' = Inr d" by blast
  from canonical_envelope_unique [OF assms(1,2) d set e(3,6)] d show ?thesis by simp
qed

text \<open>Well-formedness, like the meaning, is a matter of the resolved tree.\<close>

lemma wf_rule_resolved:
  "wf_rule ids r \<Longrightarrow> resolve_rule ids' r' = resolve_rule ids r \<Longrightarrow> wf_rule ids' r'"
proof (induction r arbitrary: r')
  case (SignedBy i)
  then show ?case by (cases r') auto
next
  case (NOutOf n rules)
  then obtain rules' where r': "r' = NOutOf n rules'" by (cases r') auto
  have same: "map (resolve_rule ids') rules' = map (resolve_rule ids) rules" using NOutOf.prems(2) r' by simp
  have "wf_rule ids' b" if b: "b \<in> set rules'" for b
  proof -
    have "resolve_rule ids' b \<in> set (map (resolve_rule ids) rules)"
      unfolding same [symmetric] using b by simp
    then obtain a where a: "a \<in> set rules" "resolve_rule ids' b = resolve_rule ids a" by auto
    show ?thesis by (rule NOutOf.IH [OF a(1) _ a(2)]) (use NOutOf.prems(1) a(1) in simp)
  qed
  with NOutOf.prems(1) map_eq_imp_length_eq [OF same] show ?case by (simp add: r')
qed simp_all

lemma canonical_envelope_same:
  assumes "encodes_uniquely L" "set (eIdentities d) = set (eIdentities e)" "eVersion d = eVersion e"
    "resolve_rule (eIdentities d) (eRule d) = resolve_rule (eIdentities e) (eRule e)"
    "canonical_envelope L e = Inr e'"
  shows "canonical_envelope L d = Inr (e' :: sig_envelope)"
proof -
  note e = canonical_envelope_Inr [OF assms(1,5)]
  have "marshals L (eIdentities d)" using e(1) assms(2) by (simp add: marshals_def)
  from canonical_envelope_total [OF assms(1) this wf_rule_resolved [OF e(4) assms(4)]]
  obtain d' where d': "canonical_envelope L d = Inr d'" by blast
  from canonical_envelope_unique [OF assms(1,5) d' assms(2-4)] d' show ?thesis by simp
qed

end
