(* ===== verification/PolicyOrder.thy ===== *)
theory PolicyOrder
  imports PolicyRules
begin

text \<open>
  The boundary of an implicit-meta policy: when its branches are independent, which branches
  survive the merge, and that neither depends on the order in which the subpolicies come. Fabric
  gathers subpolicies from a Go map, so the order differs from run to run.
\<close>

subsection \<open>independentRules\<close>

text \<open>The MSPs of the leaves; \<open>None\<close> for a leaf that is not a role of a named MSP.\<close>

definition leaf_msp :: "'l policy_lib_scheme \<Rightarrow> principal option list \<Rightarrow> sig_policy \<Rightarrow> string option" where
  "leaf_msp L ids rule =
     (case Option.bind (identity_at ids (GetSignedBy rule)) (role_of L) of
        None \<Rightarrow> None
      | Some role \<Rightarrow> if MspIdentifier role = [] then None else Some (MspIdentifier role))"

fun leaf_msps :: "'l policy_lib_scheme \<Rightarrow> principal option list \<Rightarrow> sig_policy \<Rightarrow> string option set" where
  "leaf_msps L ids (NOutOf n rules) = (\<Union>r \<in> set rules. leaf_msps L ids r)"
| "leaf_msps L ids rule = {leaf_msp L ids rule}"

text \<open>
  A set of leaves may be visited in a branch when each is a role of an MSP no other branch owns;
  afterwards the branch owns those MSPs.
\<close>

definition free_for :: "nat \<Rightarrow> string option set \<Rightarrow> (string, nat) gomap \<Rightarrow> bool" where
  "free_for branch A owners \<longleftrightarrow> None \<notin> A \<and> (\<forall>m. Some m \<in> A \<longrightarrow> map_of owners m \<in> {None, Some branch})"

definition owned_by :: "nat \<Rightarrow> string option set \<Rightarrow> (string, nat) gomap \<Rightarrow> (string, nat) gomap \<Rightarrow> bool" where
  "owned_by branch A owners owners' \<longleftrightarrow>
     (\<forall>m. map_of owners' m = (if Some m \<in> A then Some branch else map_of owners m))"

definition visits ::
  "(string, nat) gomap option \<Rightarrow> nat \<Rightarrow> string option set \<Rightarrow> (string, nat) gomap \<Rightarrow> bool" where
  "visits result branch A owners \<longleftrightarrow>
     (case result of None \<Rightarrow> \<not> free_for branch A owners
      | Some owners' \<Rightarrow> free_for branch A owners \<and> owned_by branch A owners owners')"

lemmas visit_defs = visits_def free_for_def owned_by_def

lemma visit_leaf:
  "(\<And>n rules. rule \<noteq> NOutOf n rules) \<Longrightarrow> visits (visit_rule L ids branch rule owners) branch (leaf_msps L ids rule) owners"
  by (cases rule) (auto simp: visit_defs leaf_msp_def split: option.splits)

lemma visits_union:
  assumes "visits (Some o2) branch A owners" "visits r branch B o2"
  shows "visits r branch (A \<union> B) owners"
  using assms by (auto simp: visit_defs split: option.splits if_splits)

lemma visit_rule_visits:
  "visits (visit_rule L ids branch rule owners) branch (leaf_msps L ids rule) owners"
  "visits (visit_rules L ids branch rules owners) branch (\<Union>r \<in> set rules. leaf_msps L ids r) owners"
proof (induction L ids branch rule owners and L ids branch rules owners rule: visit_rule_visit_rules.induct)
  case (3 L ids branch owners)
  then show ?case by (simp add: visit_defs)
next
  case (4 L ids branch child rules owners)
  show ?case
  proof (cases "visit_rule L ids branch child owners")
    case None
    with 4(1) show ?thesis by (auto simp: visit_defs)
  next
    case (Some o2)
    with visits_union [OF 4(1) [unfolded Some] 4(2) [OF Some]] show ?thesis by simp
  qed
qed (simp, (rule visit_leaf, simp)+)

text \<open>How many branches have a leaf of an MSP.\<close>

definition branches_of :: "'l policy_lib_scheme \<Rightarrow> principal option list \<Rightarrow> string \<Rightarrow> sig_policy list \<Rightarrow> nat" where
  "branches_of L ids m rules = size (filter_mset (\<lambda>r. Some m \<in> leaf_msps L ids r) (mset rules))"

definition independent :: "'l policy_lib_scheme \<Rightarrow> principal option list \<Rightarrow> sig_policy list \<Rightarrow> bool" where
  "independent L ids rules \<longleftrightarrow> (\<forall>r \<in> set rules. None \<notin> leaf_msps L ids r) \<and> (\<forall>m. branches_of L ids m rules \<le> 1)"

lemma visit_branches_iff:
  "(\<And>m k. map_of owners m = Some k \<Longrightarrow> k < branch) \<Longrightarrow>
   visit_branches L ids branch rules owners \<longleftrightarrow>
     (\<forall>r \<in> set rules. None \<notin> leaf_msps L ids r) \<and>
     (\<forall>m. branches_of L ids m rules \<le> (if map_of owners m = None then 1 else 0))"
proof (induction rules arbitrary: branch owners)
  case Nil
  then show ?case by (simp add: branches_of_def)
next
  case (Cons r rules)
  note first = visit_rule_visits(1) [of L ids branch r owners]
  have old: "map_of owners m = None \<or> map_of owners m \<noteq> Some branch" for m
    using Cons.prems [of m branch] by blast
  have count: "branches_of L ids m (r # rules) = (if Some m \<in> leaf_msps L ids r then 1 else 0) + branches_of L ids m rules" for m
    by (simp add: branches_of_def)
  show ?case
  proof (cases "visit_rule L ids branch r owners")
    case None
    with first have "None \<in> leaf_msps L ids r \<or> (\<exists>m. Some m \<in> leaf_msps L ids r \<and> map_of owners m \<noteq> None)"
      by (auto simp: visit_defs)
    then consider "None \<in> leaf_msps L ids r" | m where "Some m \<in> leaf_msps L ids r" "map_of owners m \<noteq> None"
      by blast
    then show ?thesis
    proof cases
      case 1
      with None show ?thesis by auto
    next
      case (2 m)
      then obtain k where "map_of owners m = Some k" by blast
      with 2(1) have "\<not> branches_of L ids m (r # rules) \<le> (if map_of owners m = None then 1 else 0)"
        by (simp add: count)
      then have "\<not> (\<forall>m. branches_of L ids m (r # rules) \<le> (if map_of owners m = None then 1 else 0))"
        by blast
      with None show ?thesis by (simp only: visit_branches.simps option.case simp_thms)
    qed
  next
    case (Some o2)
    with first have o2: "None \<notin> leaf_msps L ids r" "\<And>m. Some m \<in> leaf_msps L ids r \<Longrightarrow> map_of owners m \<in> {None, Some branch}"
      "\<And>m. map_of o2 m = (if Some m \<in> leaf_msps L ids r then Some branch else map_of owners m)"
      by (auto simp: visit_defs)
    have fresh: "map_of owners m = None" if "Some m \<in> leaf_msps L ids r" for m
      using o2(2) [OF that] old [of m] by blast
    have "k < Suc branch" if "map_of o2 m = Some k" for m k
      using that Cons.prems [of m k] by (auto simp: o2(3) split: if_splits)
    note IH = Cons.IH [OF this]
    have "branches_of L ids m rules \<le> (if map_of o2 m = None then 1 else 0) \<longleftrightarrow>
        branches_of L ids m (r # rules) \<le> (if map_of owners m = None then 1 else 0)" for m
      using fresh [of m] by (cases "map_of owners m") (auto simp: count o2(3))
    with IH Some o2(1) show ?thesis by simp
  qed
qed

theorem independentRules_iff: "independentRules L rules ids \<longleftrightarrow> independent L ids rules"
  using visit_branches_iff [of "[]" 0 L ids rules] by (simp add: independentRules_def independent_def)

lemma length_filter_le_one:
  "length (filter P xs) \<le> 1 \<longleftrightarrow> (\<forall>i < length xs. \<forall>j < length xs. P (xs ! i) \<and> P (xs ! j) \<longrightarrow> i = j)"
  unfolding length_filter_conv_card One_nat_def
  by (subst card_le_Suc0_iff_eq) auto

lemma branches_of_filter: "branches_of L ids m rules = length (filter (\<lambda>r. Some m \<in> leaf_msps L ids r) rules)"
  unfolding branches_of_def by (metis mset_filter size_mset)

lemma independent_pairwise:
  "independent L ids rules \<longleftrightarrow> (\<forall>r \<in> set rules. None \<notin> leaf_msps L ids r) \<and>
     (\<forall>m. \<forall>i < length rules. \<forall>j < length rules.
        Some m \<in> leaf_msps L ids (rules ! i) \<and> Some m \<in> leaf_msps L ids (rules ! j) \<longrightarrow> i = j)"
  unfolding independent_def branches_of_filter length_filter_le_one ..

lemma independent_perm:
  assumes "mset rules' = mset rules"
  shows "independent L ids rules' \<longleftrightarrow> independent L ids rules"
  unfolding independent_def branches_of_def by (simp only: assms mset_eq_setD [OF assms])

subsection \<open>The merge\<close>

text \<open>A branch survives the merge unless a peer branch of its MSP makes it redundant.\<close>

definition survives :: "'l policy_lib_scheme \<Rightarrow> bool \<Rightarrow> sig_policy list \<Rightarrow> principal option list \<Rightarrow> sig_policy \<Rightarrow> bool" where
  "survives L allRules rules ids r \<longleftrightarrow> \<not> (allRules \<and> (\<exists>other \<in> set rules. peerImpliesMember L other r ids))"

lemma redundant_iff:
  assumes "i < length rules"
  shows "redundant L allRules rules ids i \<longleftrightarrow>
    (\<exists>j < i. rules ! i = rules ! j) \<or> \<not> survives L allRules rules ids (rules ! i)"
  using assms by (fastforce simp: redundant_def survives_def list_ex_iff in_set_conv_nth)

lemma merge_rules_kept:
  "merge_rules L allRules rules ids =
     map ((!) rules) (filter (\<lambda>i. \<not> (\<exists>j < i. rules ! i = rules ! j) \<and> survives L allRules rules ids (rules ! i)) [0..<length rules])"
  unfolding merge_rules_def by (intro arg_cong [where f = "map ((!) rules)"] filter_cong) (auto simp: redundant_iff)

lemma distinct_merge_rules: "distinct (merge_rules L allRules rules ids)"
  unfolding merge_rules_kept distinct_map
  by (auto simp: inj_on_def) (metis linorder_neqE_nat)

lemma set_merge_rules: "set (merge_rules L allRules rules ids) = {r \<in> set rules. survives L allRules rules ids r}"
proof (intro equalityI subsetI)
  fix r assume "r \<in> {r \<in> set rules. survives L allRules rules ids r}"
  then obtain i where i: "i < length rules" "rules ! i = r" "survives L allRules rules ids r"
    by (auto simp: in_set_conv_nth)
  define k where "k = (LEAST k. k < length rules \<and> rules ! k = r)"
  have k: "k < length rules \<and> rules ! k = r"
    unfolding k_def by (rule LeastI [of _ i]) (use i in simp)
  moreover have "rules ! k \<noteq> rules ! j" if "j < k" for j
    using not_less_Least [OF that [unfolded k_def]] that k by auto
  ultimately show "r \<in> set (merge_rules L allRules rules ids)"
    using i(3) by (auto simp: merge_rules_kept)
qed (auto simp: merge_rules_kept)

lemma merge_rules_perm:
  assumes "mset rules' = mset rules"
  shows "mset (merge_rules L allRules rules' ids) = mset (merge_rules L allRules rules ids)"
proof -
  have "set (merge_rules L allRules rules' ids) = set (merge_rules L allRules rules ids)"
    using mset_eq_setD [OF assms] by (simp add: set_merge_rules survives_def)
  then show ?thesis by (simp add: set_eq_iff_mset_eq_distinct [OF distinct_merge_rules distinct_merge_rules])
qed

definition rules_encode_uniquely :: "'l policy_lib_scheme \<Rightarrow> principal option list \<Rightarrow> bool" where
  "rules_encode_uniquely L ids \<longleftrightarrow>
     (\<forall>a b. wf_rule ids a \<and> wf_rule ids b \<and> marshal_rule L a = marshal_rule L b \<longrightarrow> a = b)"

lemma order_rules_perm:
  assumes "rules_encode_uniquely L ids" "\<forall>r \<in> set rules. wf_rule ids r" "mset rules' = mset rules"
  shows "order_rules L n rules' ids = order_rules L n rules ids"
proof -
  have "inj_on (marshal_rule L) (set rules)"
    using assms(1,2) by (auto simp: inj_on_def rules_encode_uniquely_def)
  then have "sort_key (marshal_rule L) rules' = sort_key (marshal_rule L) rules"
    using sort_key_inj_key_eq [of rules "sort_key (marshal_rule L) rules'" "marshal_rule L"] assms(3) by simp
  with independent_perm [OF assms(3), of L ids] show ?thesis
    unfolding order_rules_def independentRules_iff by (simp only:)
qed

lemma merge_boundary_perm:
  assumes "rules_encode_uniquely L ids" "\<forall>r \<in> set rules. wf_rule ids r" "mset rules' = mset rules"
  shows "merge_boundary L n rules' ids = merge_boundary L n rules ids"
proof -
  have len: "length rules' = length rules" by (metis assms(3) size_mset)
  have m: "mset (merge_rules L a rules' ids) = mset (merge_rules L a rules ids)" for a
    by (rule merge_rules_perm [OF assms(3)])
  then have mlen: "length (merge_rules L a rules' ids) = length (merge_rules L a rules ids)" for a
    by (metis size_mset)
  have "\<forall>r \<in> set (merge_rules L a rules ids). wf_rule ids r" for a
    using assms(2) by (simp add: set_merge_rules)
  note order = order_rules_perm [OF assms(1) this m]
  have one: "hd (merge_rules L a rules' ids) = hd (merge_rules L a rules ids)"
    if "length (merge_rules L a rules ids) = 1" for a
    using that mlen [of a] m [of a] by (cases "merge_rules L a rules ids"; cases "merge_rules L a rules' ids") auto
  obtain a where a: "a = (n = int (length rules))" by blast
  show ?thesis
    unfolding merge_boundary_def len a [symmetric] Let_def
    by (simp only: mlen order order_rules_perm [OF assms] one cong: if_cong)
qed

lemma order_rules_wf:
  assumes "order_rules L n rules ids = Inr rule" "\<forall>r \<in> set rules. wf_rule ids r" "0 \<le> n" "nat n \<le> length rules"
  shows "wf_rule ids rule"
  using assms by (auto simp: order_rules_def)

lemma merge_boundary_wf:
  assumes "merge_boundary L n rules ids = Inr rule" "wf_rule ids (NOutOf n rules)"
  shows "wf_rule ids rule"
proof -
  obtain a where a: "a = (n = int (length rules))" by blast
  let ?m = "merge_rules L a rules ids"
  have wf: "\<forall>r \<in> set rules. wf_rule ids r" and n: "0 \<le> n" "nat n \<le> length rules" using assms(2) by simp_all
  have m: "\<forall>r \<in> set ?m. wf_rule ids r" using wf by (simp add: set_merge_rules)
  consider "length ?m = 1" "rule = hd ?m"
    | "a \<or> n = 1" "order_rules L (if a then int (length ?m) else n) ?m ids = Inr rule"
    | "order_rules L n rules ids = Inr rule"
    using assms(1) unfolding merge_boundary_def a [symmetric] Let_def
    by (cases "a \<or> n = 1"; cases "length ?m = 1") simp_all
  then show ?thesis
  proof cases
    case 1
    then have "hd ?m \<in> set ?m" by (intro hd_in_set) auto
    with m 1 show ?thesis by blast
  next
    case 2
    have "?m \<noteq> []" if "\<not> a"
    proof -
      have "set ?m = set rules" using that by (simp add: set_merge_rules survives_def)
      moreover have "rules \<noteq> []" using that 2(1) n by auto
      ultimately show ?thesis by (metis set_empty)
    qed
    then have "nat (if a then int (length ?m) else n) \<le> length ?m"
      using 2(1) by (cases ?m) auto
    with order_rules_wf [OF 2(2) m] n show ?thesis by simp
  next
    case 3
    from order_rules_wf [OF this wf n] show ?thesis .
  qed
qed

subsection \<open>normalizeImplicitMeta\<close>

text \<open>The recursion over the subpolicies, one pair at a time.\<close>

lemma normalize_subpolicies_rmap:
  "length subs = length rules \<Longrightarrow>
   normalize_subpolicies L subs rules ids = rmap (\<lambda>(s, r). normalizeImplicitMeta L s r ids) (zip subs rules)"
  by (induction subs rules rule: list_induct2) (auto simp: rbind_assoc)

lemma normalize_meta_Inr:
  "normalizeImplicitMeta L (ImplicitMeta k subs) rule ids = Inr rule' \<longleftrightarrow>
     (\<exists>n rules rules'. rule = NOutOf n rules \<and> length rules = length subs \<and>
        rmap (\<lambda>(s, r). normalizeImplicitMeta L s r ids) (zip subs rules) = Inr rules' \<and>
        merge_boundary L n rules' ids = Inr rule')"
  by (cases rule) (auto simp: GetNOutOf_def normalize_subpolicies_rmap)

lemma list_all2_zip_right:
  "list_all2 P (zip xs ys) zs \<Longrightarrow> length xs = length ys \<Longrightarrow> (\<And>x y z. x \<in> set xs \<Longrightarrow> y \<in> set ys \<Longrightarrow> P (x, y) z \<Longrightarrow> Q y z) \<Longrightarrow>
   list_all2 Q ys zs"
  unfolding list_all2_conv_all_nth by simp (metis nth_mem)

lemma normalize_wf:
  "normalizeImplicitMeta L src rule ids = Inr rule' \<Longrightarrow> wf_rule ids rule \<Longrightarrow> wf_rule ids rule'"
proof (induction src arbitrary: rule rule')
  case (ImplicitMeta k subs)
  from ImplicitMeta.prems(1) obtain n rules rules' where rule: "rule = NOutOf n rules" "length rules = length subs"
    and run: "rmap (\<lambda>(s, r). normalizeImplicitMeta L s r ids) (zip subs rules) = Inr rules'"
    and merge: "merge_boundary L n rules' ids = Inr rule'"
    unfolding normalize_meta_Inr by blast
  have subs: "list_all2 (\<lambda>p r'. normalizeImplicitMeta L (fst p) (snd p) ids = Inr r') (zip subs rules) rules'"
    using run by (simp add: rmap_Inr case_prod_unfold)
  have "list_all2 (\<lambda>r r'. wf_rule ids r') rules rules'"
    using subs by (rule list_all2_zip_right) (use rule ImplicitMeta in auto)
  then have "\<forall>r \<in> set rules'. wf_rule ids r" "length rules' = length rules"
    by (auto simp: list_all2_conv_all_nth in_set_conv_nth)
  with ImplicitMeta.prems(2) rule merge show ?case by (intro merge_boundary_wf [OF merge]) auto
qed simp

text \<open>
  Two outcomes of the conversion of one policy: at every implicit-meta boundary the subpolicies,
  each with its converted rule, come in another order.
\<close>

inductive reordered :: "'o src_policy \<Rightarrow> principal_rule \<Rightarrow> 'o src_policy \<Rightarrow> principal_rule \<Rightarrow> bool" where
  other: "reordered (OtherPolicy p) t (OtherPolicy p) t"
| meta: "length subs = length ts \<Longrightarrow>
    list_all2 (\<lambda>a b. reordered (fst a) (snd a) (fst b) (snd b)) (zip subs ts) ps \<Longrightarrow> mset qs = mset ps \<Longrightarrow>
    reordered (ImplicitMeta k subs) (Threshold n ts) (ImplicitMeta k (map fst qs)) (Threshold n (map snd qs))"

inductive_cases reordered_metaE: "reordered (ImplicitMeta k subs) t src' t'"
inductive_cases reordered_otherE: "reordered (OtherPolicy p) t src' t'"

lemma rmap_perm:
  assumes "rmap f xs = Inr ys" "mset xs' = mset xs"
  shows "\<exists>ys'. rmap f xs' = Inr ys' \<and> mset ys' = mset ys"
proof -
  let ?g = "\<lambda>x. projr (f x)"
  have "list_all2 (\<lambda>x y. f x = Inr y) xs ys" using assms(1) by (simp add: rmap_Inr)
  then have "\<forall>x \<in> set xs. f x = Inr (?g x)" "ys = map ?g xs"
    by (auto simp: list_all2_conv_all_nth in_set_conv_nth intro: nth_equalityI)
  moreover from this have "rmap f xs' = Inr (map ?g xs')"
    using mset_eq_setD [OF assms(2)] by (simp add: rmap_Inr list_all2_map2 list_all2_same)
  ultimately show ?thesis using assms(2) by (metis mset_map)
qed

lemma rmap_related:
  "list_all2 (\<lambda>a b. \<forall>y. f a = Inr y \<longleftrightarrow> f b = Inr y) xs zs \<Longrightarrow> rmap f xs = Inr ys \<longleftrightarrow> rmap f zs = Inr ys"
  by (induction arbitrary: ys rule: list_all2_induct) auto

lemma rmap_perm_rbind:
  assumes perm: "mset xs' = mset xs"
    and g: "\<And>ys ys'. rmap f xs = Inr ys \<Longrightarrow> mset ys' = mset ys \<Longrightarrow> g ys' = g ys"
  shows "rbind (rmap f xs') g = Inr z \<longleftrightarrow> rbind (rmap f xs) g = Inr z"
proof
  assume "rbind (rmap f xs') g = Inr z"
  then obtain ys where ys: "rmap f xs' = Inr ys" "g ys = Inr z" by auto
  from rmap_perm [OF ys(1) perm [symmetric]] obtain ys' where "rmap f xs = Inr ys'" "mset ys' = mset ys" by blast
  with g [of ys' ys] ys(2) show "rbind (rmap f xs) g = Inr z" by simp
next
  assume "rbind (rmap f xs) g = Inr z"
  then obtain ys where ys: "rmap f xs = Inr ys" "g ys = Inr z" by auto
  from rmap_perm [OF ys(1) perm] obtain ys' where "rmap f xs' = Inr ys'" "mset ys' = mset ys" by blast
  with g [OF ys(1)] ys(2) show "rbind (rmap f xs') g = Inr z" by simp
qed

text \<open>Rules that resolve to given trees over the same principals.\<close>

definition unresolve :: "principal option list \<Rightarrow> principal_rule \<Rightarrow> sig_policy" where
  "unresolve ids t = inv_into {r. wf_rule ids r} (resolve_rule ids) t"

lemma unresolve_resolve:
  "distinct ids \<Longrightarrow> wf_rule ids r \<Longrightarrow> unresolve ids (resolve_rule ids r) = r"
  unfolding unresolve_def by (rule inv_into_f_f) (auto simp: inj_on_def intro: resolve_rule_inject)

lemma zip_unresolve:
  assumes "distinct ids" "\<forall>r \<in> set rules. wf_rule ids r"
  shows "zip subs rules = map (\<lambda>(s, t). (s, unresolve ids t)) (zip subs (map (resolve_rule ids) rules))"
  by (auto simp: zip_map2 case_prod_unfold unresolve_resolve [OF assms(1)] assms(2)
      intro!: map_idI [symmetric] dest: set_zip_rightD)

lemma rmap_map: "rmap f (map g xs) = rmap (\<lambda>x. f (g x)) xs"
  by (induction xs) auto

lemma normalize_meta_resolved:
  assumes "distinct ids" "wf_rule ids (NOutOf n rules)" "length rules = length subs"
  shows "normalizeImplicitMeta L (ImplicitMeta k subs) (NOutOf n rules) ids =
    rbind (rmap (\<lambda>(s, t). normalizeImplicitMeta L s (unresolve ids t) ids) (zip subs (map (resolve_rule ids) rules)))
      (\<lambda>rules. merge_boundary L n rules ids)"
proof -
  have "rmap (\<lambda>(s, r). normalizeImplicitMeta L s r ids) (zip subs rules) =
      rmap (\<lambda>(s, t). normalizeImplicitMeta L s (unresolve ids t) ids) (zip subs (map (resolve_rule ids) rules))"
    using assms(2) by (subst zip_unresolve [OF assms(1)]) (auto simp: rmap_map case_prod_unfold)
  then show ?thesis
    using assms(3) by (simp add: GetNOutOf_def normalize_subpolicies_rmap)
qed

text \<open>The trees that well-formed rules over \<open>ids\<close> resolve to.\<close>

definition wf_tree :: "principal option list \<Rightarrow> principal_rule \<Rightarrow> bool" where
  "wf_tree ids t \<longleftrightarrow> (\<exists>r. wf_rule ids r \<and> resolve_rule ids r = t)"

lemma wf_tree_unresolve:
  assumes "distinct ids" "wf_tree ids t"
  shows "wf_rule ids (unresolve ids t)" "resolve_rule ids (unresolve ids t) = t"
  using assms by (auto simp: wf_tree_def unresolve_resolve)

lemma wf_tree_Threshold:
  assumes "distinct ids"
  shows "wf_tree ids (Threshold n ts) \<longleftrightarrow> 0 \<le> n \<and> nat n \<le> length ts \<and> (\<forall>t \<in> set ts. wf_tree ids t)"
proof
  assume "wf_tree ids (Threshold n ts)"
  then obtain r where "wf_rule ids r" "resolve_rule ids r = Threshold n ts" by (auto simp: wf_tree_def)
  then show "0 \<le> n \<and> nat n \<le> length ts \<and> (\<forall>t \<in> set ts. wf_tree ids t)"
    by (cases r) (auto simp: wf_tree_def, blast)
next
  assume *: "0 \<le> n \<and> nat n \<le> length ts \<and> (\<forall>t \<in> set ts. wf_tree ids t)"
  then have "wf_rule ids (NOutOf n (map (unresolve ids) ts))"
    using wf_tree_unresolve [OF assms] by auto
  moreover have "resolve_rule ids (NOutOf n (map (unresolve ids) ts)) = Threshold n ts"
    using * wf_tree_unresolve [OF assms] by (auto intro!: map_idI)
  ultimately show "wf_tree ids (Threshold n ts)" unfolding wf_tree_def by blast
qed

definition normalize_tree ::
  "'l policy_lib_scheme \<Rightarrow> principal option list \<Rightarrow> 'o src_policy \<Rightarrow> principal_rule \<Rightarrow> sig_policy res" where
  "normalize_tree L ids src t = normalizeImplicitMeta L src (unresolve ids t) ids"

lemma normalize_tree_meta:
  assumes "distinct ids" "wf_tree ids (Threshold n ts)" "length ts = length subs"
  shows "normalize_tree L ids (ImplicitMeta k subs) (Threshold n ts) =
    rbind (rmap (\<lambda>p. normalize_tree L ids (fst p) (snd p)) (zip subs ts)) (\<lambda>rules. merge_boundary L n rules ids)"
proof -
  obtain r where "wf_rule ids r" "resolve_rule ids r = Threshold n ts"
    using assms(2) by (auto simp: wf_tree_def)
  then obtain rules where r: "wf_rule ids (NOutOf n rules)" "ts = map (resolve_rule ids) rules"
    by (cases r) auto
  have "unresolve ids (Threshold n ts) = NOutOf n rules"
    using unresolve_resolve [OF assms(1) r(1)] by (simp add: r(2))
  with normalize_meta_resolved [OF assms(1) r(1), of subs L k] assms(3) show ?thesis
    by (simp add: normalize_tree_def r(2) case_prod_unfold)
qed

lemma normalize_tree_wf:
  "distinct ids \<Longrightarrow> wf_tree ids t \<Longrightarrow> normalize_tree L ids src t = Inr rule \<Longrightarrow> wf_rule ids rule"
  unfolding normalize_tree_def using normalize_wf wf_tree_unresolve(1) by blast

lemma normalize_tree_reordered:
  assumes "distinct ids" "rules_encode_uniquely L ids"
  shows "reordered src t src' t' \<Longrightarrow> wf_tree ids t \<Longrightarrow>
    wf_tree ids t' \<and> (\<forall>x. normalize_tree L ids src t = Inr x \<longleftrightarrow> normalize_tree L ids src' t' = Inr x)"
proof (induction rule: reordered.induct)
  case (meta subs ts ps qs k n)
  let ?f = "\<lambda>p. normalize_tree L ids (fst p) (snd p)"
  from meta.prems have n: "0 \<le> n" "nat n \<le> length ts" and ts: "\<forall>t \<in> set ts. wf_tree ids t"
    by (simp_all add: wf_tree_Threshold [OF assms(1)])
  have each: "list_all2 (\<lambda>a b. wf_tree ids (snd b) \<and> (\<forall>x. ?f a = Inr x \<longleftrightarrow> ?f b = Inr x)) (zip subs ts) ps"
    using meta.IH by (rule list.rel_mono_strong) (use ts in \<open>auto dest: set_zip_rightD\<close>)
  have len: "length ps = length ts" "length qs = length ts"
    using list_all2_lengthD [OF each] meta.hyps by (auto dest: mset_eq_length)
  have ps: "\<forall>p \<in> set ps. wf_tree ids (snd p)"
  proof
    fix p assume "p \<in> set ps"
    then obtain i where "i < length ps" "ps ! i = p" by (auto simp: in_set_conv_nth)
    with list_all2_nthD2 [OF each, of i] show "wf_tree ids (snd p)" by simp
  qed
  then have qs: "\<forall>p \<in> set qs. wf_tree ids (snd p)" using mset_eq_setD [OF meta.hyps(2)] by simp
  have wf': "wf_tree ids (Threshold n (map snd qs))"
    using n len qs by (simp add: wf_tree_Threshold [OF assms(1)])
  have same: "rmap ?f (zip subs ts) = Inr ys \<longleftrightarrow> rmap ?f ps = Inr ys" for ys
    by (rule rmap_related, rule list_all2_mono [OF each]) simp
  have wf_ys: "\<forall>r \<in> set ys. wf_rule ids r" if "rmap ?f ps = Inr ys" for ys
    using that ps normalize_tree_wf [OF assms(1)] by (fastforce simp: rmap_Inr list_all2_conv_all_nth in_set_conv_nth)
  have boundary: "merge_boundary L n ys' ids = merge_boundary L n ys ids"
    if "rmap ?f ps = Inr ys" "mset ys' = mset ys" for ys ys'
    by (rule merge_boundary_perm [OF assms(2) wf_ys [OF that(1)] that(2)])
  have left: "normalize_tree L ids (ImplicitMeta k subs) (Threshold n ts) = Inr x \<longleftrightarrow>
      rbind (rmap ?f ps) (\<lambda>ys. merge_boundary L n ys ids) = Inr x" for x
    by (simp add: normalize_tree_meta [OF assms(1) meta.prems] meta.hyps(1) same)
  have right: "normalize_tree L ids (ImplicitMeta k (map fst qs)) (Threshold n (map snd qs)) =
      rbind (rmap ?f qs) (\<lambda>ys. merge_boundary L n ys ids)"
    by (simp add: normalize_tree_meta [OF assms(1) wf'] zip_map_fst_snd)
  have "rbind (rmap ?f qs) (\<lambda>ys. merge_boundary L n ys ids) = Inr x \<longleftrightarrow>
      rbind (rmap ?f ps) (\<lambda>ys. merge_boundary L n ys ids) = Inr x" for x
    by (rule rmap_perm_rbind [OF meta.hyps(2) boundary])
  with wf' left right show ?case by (simp del: rbind_Inr)
qed simp

theorem normalizeImplicitMeta_reordered:
  assumes "distinct ids" "rules_encode_uniquely L ids" "wf_rule ids rule" "wf_rule ids rule'"
    "reordered src (resolve_rule ids rule) src' (resolve_rule ids rule')"
  shows "normalizeImplicitMeta L src rule ids = Inr x \<longleftrightarrow> normalizeImplicitMeta L src' rule' ids = Inr x"
proof -
  have "wf_tree ids (resolve_rule ids rule)" using assms(3) by (auto simp: wf_tree_def)
  from normalize_tree_reordered [OF assms(1,2,5) this] show ?thesis
    by (simp add: normalize_tree_def unresolve_resolve [OF assms(1)] assms(3,4))
qed

end
