(* ===== verification/PolicySem.thy ===== *)
theory PolicySem
  imports PolicyOrder
begin

text \<open>
  What policies mean, and that the conversion keeps it. Fabric's evaluation of signature policies and
  of implicit-meta policies is not code of this repository, so it is an interface: two locales state
  the documented behaviour that the comments of \<^verbatim>\<open>config.go\<close> rely on, everything is
  proved from it, and both are interpreted on executable reference evaluators.
\<close>

subsection \<open>Signature policies consume identities\<close>

text \<open>
  A signature policy is evaluated against the list of presented identities, each marked used or not.
  A leaf takes the first unused identity that satisfies its principal and marks it; a threshold
  evaluates all its branches in order, keeping the marks of the branches that succeed.
\<close>

type_synonym 'id presented = "('id \<times> bool) list"

fun take_identity :: "('id \<Rightarrow> bool) \<Rightarrow> 'id presented \<Rightarrow> 'id presented option" where
  "take_identity P [] = None"
| "take_identity P ((x, used) # st) =
     (if \<not> used \<and> P x then Some ((x, True) # st) else map_option ((#) (x, used)) (take_identity P st))"

fun run_branches ::
  "(sig_policy \<Rightarrow> 'id presented \<Rightarrow> bool \<times> 'id presented) \<Rightarrow> sig_policy list \<Rightarrow> 'id presented \<Rightarrow> nat \<times> 'id presented" where
  "run_branches ev [] st = (0, st)"
| "run_branches ev (r # rules) st =
     (case ev r st of
        (True, st') \<Rightarrow> (case run_branches ev rules st' of (k, st'') \<Rightarrow> (Suc k, st''))
      | (False, _) \<Rightarrow> run_branches ev rules st)"

definition unused :: "'id list \<Rightarrow> 'id presented" where
  "unused xs = map (\<lambda>x. (x, False)) xs"

text \<open>What a rule accepts: evaluated with no identity used yet.\<close>

definition rule_accepts ::
  "(principal option list \<Rightarrow> sig_policy \<Rightarrow> 'id presented \<Rightarrow> bool \<times> 'id presented) \<Rightarrow>
   principal option list \<Rightarrow> sig_policy \<Rightarrow> 'id list \<Rightarrow> bool" where
  "rule_accepts ev ids rule xs = fst (ev ids rule (unused xs))"

locale signature_evaluator =
  fixes sat :: "'id \<Rightarrow> principal \<Rightarrow> bool"
    and evaluate :: "principal option list \<Rightarrow> sig_policy \<Rightarrow> 'id presented \<Rightarrow> bool \<times> 'id presented"
  assumes evaluate_SignedBy: "identity_at ids i = Some p \<Longrightarrow> evaluate ids (SignedBy i) st =
      (case take_identity (\<lambda>x. sat x p) st of None \<Rightarrow> (False, st) | Some st' \<Rightarrow> (True, st'))"
    and evaluate_NOutOf: "evaluate ids (NOutOf n rules) st =
      (case run_branches (evaluate ids) rules st of (k, st') \<Rightarrow> (n \<le> int k, st'))"
begin

text \<open>Only the resolved tree matters, not the numbering of the principals.\<close>

lemma run_branches_related:
  "list_all2 (\<lambda>r r'. \<forall>st. f r st = g r' st) rules rules' \<Longrightarrow> run_branches f rules st = run_branches g rules' st"
  by (induction arbitrary: st rule: list_all2_induct) (auto split: prod.splits bool.splits)

lemma evaluate_resolved:
  "wf_rule ids r \<Longrightarrow> wf_rule ids' r' \<Longrightarrow> resolve_rule ids r = resolve_rule ids' r' \<Longrightarrow>
   evaluate ids r st = evaluate ids' r' st"
proof (induction r arbitrary: r' st)
  case (SignedBy i)
  then obtain j where "r' = SignedBy j" by (cases r') auto
  with SignedBy show ?case by (auto simp: evaluate_SignedBy)
next
  case (NOutOf n rules)
  then obtain rules' where r': "r' = NOutOf n rules'" by (cases r') auto
  have "map (resolve_rule ids) rules = map (resolve_rule ids') rules'" using NOutOf.prems(3) r' by simp
  then have "list_all2 (\<lambda>a b. resolve_rule ids a = resolve_rule ids' b) rules rules'"
    by (intro list_all2_all_nthI) (auto dest: map_eq_imp_length_eq, metis map_eq_imp_length_eq nth_map)
  then have "list_all2 (\<lambda>a b. \<forall>st. evaluate ids a st = evaluate ids' b st) rules rules'"
  proof (rule list.rel_mono_strong)
    fix a b
    assume "a \<in> set rules" "b \<in> set rules'" "resolve_rule ids a = resolve_rule ids' b"
    with NOutOf.prems(1,2) r' show "\<forall>st. evaluate ids a st = evaluate ids' b st"
      by (intro allI NOutOf.IH) simp_all
  qed
  from run_branches_related [OF this] show ?case by (simp add: r' evaluate_NOutOf)
qed simp_all

lemma accepts_resolved:
  "wf_rule ids r \<Longrightarrow> wf_rule ids' r' \<Longrightarrow> resolve_rule ids r = resolve_rule ids' r' \<Longrightarrow>
   rule_accepts evaluate ids r xs = rule_accepts evaluate ids' r' xs"
  unfolding rule_accepts_def by (simp only: evaluate_resolved [of ids r ids' r'])

text \<open>A single leaf, and a threshold of one branch.\<close>

lemma take_identity_unused: "take_identity P (unused xs) = None \<longleftrightarrow> (\<forall>x \<in> set xs. \<not> P x)"
  by (induction xs) (auto simp: unused_def)

lemma accepts_SignedBy:
  "identity_at ids i = Some p \<Longrightarrow> rule_accepts evaluate ids (SignedBy i) xs \<longleftrightarrow> (\<exists>x \<in> set xs. sat x p)"
  using take_identity_unused [of "\<lambda>x. sat x p" xs]
  by (auto simp: rule_accepts_def evaluate_SignedBy split: option.splits)

lemma accepts_one_branch: "rule_accepts evaluate ids (NOutOf 1 [r]) xs = rule_accepts evaluate ids r xs"
  by (auto simp: rule_accepts_def evaluate_NOutOf split: prod.splits bool.splits)

end

text \<open>The reference evaluator, and that it satisfies the interface.\<close>

fun reference_eval :: "('id \<Rightarrow> principal \<Rightarrow> bool) \<Rightarrow> principal option list \<Rightarrow> sig_policy \<Rightarrow> 'id presented \<Rightarrow> bool \<times> 'id presented"
and reference_branches :: "('id \<Rightarrow> principal \<Rightarrow> bool) \<Rightarrow> principal option list \<Rightarrow> sig_policy list \<Rightarrow> 'id presented \<Rightarrow> nat \<times> 'id presented"
where
  "reference_eval sat ids (NOutOf n rules) st =
     (case reference_branches sat ids rules st of (k, st') \<Rightarrow> (n \<le> int k, st'))"
| "reference_eval sat ids rule st =
     (case identity_at ids (GetSignedBy rule) of
        None \<Rightarrow> (False, st)
      | Some p \<Rightarrow> (case take_identity (\<lambda>x. sat x p) st of None \<Rightarrow> (False, st) | Some st' \<Rightarrow> (True, st')))"
| "reference_branches sat ids [] st = (0, st)"
| "reference_branches sat ids (r # rules) st =
     (case reference_eval sat ids r st of
        (True, st') \<Rightarrow> (case reference_branches sat ids rules st' of (k, st'') \<Rightarrow> (Suc k, st''))
      | (False, _) \<Rightarrow> reference_branches sat ids rules st)"

lemma reference_branches_run: "reference_branches sat ids rules st = run_branches (reference_eval sat ids) rules st"
  by (induction rules arbitrary: st) (auto split: prod.splits bool.splits)

interpretation reference: signature_evaluator sat "reference_eval sat" for sat
  by unfold_locales (simp_all add: GetSignedBy_def reference_branches_run)

subsection \<open>Implicit-meta policies do not\<close>

text \<open>
  What a conversion promises of its result: the rule of any policy but an implicit-meta one accepts
  what the policy accepts, and an implicit-meta policy becomes a threshold over the conversions of
  its subpolicies.
\<close>

fun converts_to ::
  "(principal option list \<Rightarrow> sig_policy \<Rightarrow> 'id presented \<Rightarrow> bool \<times> 'id presented) \<Rightarrow>
   ('o src_policy \<Rightarrow> 'id list \<Rightarrow> bool) \<Rightarrow> principal option list \<Rightarrow> 'o src_policy \<Rightarrow> sig_policy \<Rightarrow> bool" where
  "converts_to ev acc ids (OtherPolicy p) rule \<longleftrightarrow> (\<forall>xs. rule_accepts ev ids rule xs \<longleftrightarrow> acc (OtherPolicy p) xs)"
| "converts_to ev acc ids (ImplicitMeta k subs) (NOutOf n rules) \<longleftrightarrow> n = k \<and> list_all2 (converts_to ev acc ids) subs rules"
| "converts_to ev acc ids (ImplicitMeta k subs) _ \<longleftrightarrow> False"

text \<open>
  An implicit-meta policy evaluates each subpolicy against all presented identities and counts. An
  identity belongs to one MSP, satisfies roles of that MSP only, and a peer of an MSP is a member of
  it.
\<close>

locale policy_evaluator = signature_evaluator sat evaluate
  for sat :: "'id \<Rightarrow> principal \<Rightarrow> bool" and evaluate +
  fixes L :: "'l policy_lib_scheme"
    and msp_of :: "'id \<Rightarrow> string"
    and accepts :: "'o src_policy \<Rightarrow> 'id list \<Rightarrow> bool"
  assumes satisfies_own_msp: "role_of L p = Some r \<Longrightarrow> sat x p \<Longrightarrow> msp_of x = MspIdentifier r"
    and peer_is_member: "role_of L p = Some r \<Longrightarrow> role_of L q = Some r' \<Longrightarrow> Role r = PEER \<Longrightarrow> Role r' = MEMBER \<Longrightarrow>
      MspIdentifier r = MspIdentifier r' \<Longrightarrow> sat x p \<Longrightarrow> sat x q"
    and accepts_meta: "accepts (ImplicitMeta k subs) xs \<longleftrightarrow> k \<le> int (length (filter (\<lambda>s. accepts s xs) subs))"
begin

text \<open>Two presentations of the same identities whose marks agree on the MSPs of \<open>A\<close>.\<close>

definition agree :: "string set \<Rightarrow> 'id presented \<Rightarrow> 'id presented \<Rightarrow> bool" where
  "agree A = list_all2 (\<lambda>a b. fst a = fst b \<and> (msp_of (fst a) \<in> A \<longrightarrow> snd a = snd b))"

lemma agree_refl: "agree A st st"
  by (simp add: agree_def list_all2_refl)

lemma agree_mono: "agree A st st' \<Longrightarrow> B \<subseteq> A \<Longrightarrow> agree B st st'"
  unfolding agree_def by (erule list_all2_mono) auto

lemma agree_sym: "agree A st st' \<Longrightarrow> agree A st' st"
  unfolding agree_def by (subst list_all2_conv_all_nth) (auto simp: list_all2_conv_all_nth)

lemma agree_trans: "agree A st st' \<Longrightarrow> agree A st' st'' \<Longrightarrow> agree A st st''"
  unfolding agree_def by (erule (1) list_all2_trans [rotated -2]) auto

text \<open>
  Taking an identity of the MSPs of \<open>A\<close> depends only on the marks on those, and changes only those.
\<close>

definition framed :: "string set \<Rightarrow> 'id presented \<Rightarrow> 'id presented \<Rightarrow> bool \<times> 'id presented \<Rightarrow> bool \<times> 'id presented \<Rightarrow> bool" where
  "framed A st st' r r' \<longleftrightarrow> fst r = fst r' \<and> agree A (snd r) (snd r') \<and> agree (- A) st (snd r) \<and> agree (- A) st' (snd r')"

lemma take_identity_framed:
  assumes "\<And>x. P x \<Longrightarrow> msp_of x \<in> A"
  shows "agree A st st' \<Longrightarrow>
    framed A st st' (case take_identity P st of None \<Rightarrow> (False, st) | Some s \<Rightarrow> (True, s))
      (case take_identity P st' of None \<Rightarrow> (False, st') | Some s \<Rightarrow> (True, s))"
  unfolding agree_def
proof (induction rule: list_all2_induct)
  case Nil
  then show ?case by (simp add: framed_def agree_refl)
next
  case (Cons a st b st')
  obtain x u v where ab: "a = (x, u)" "b = (x, v)" "msp_of x \<in> A \<longrightarrow> u = v"
    using Cons.hyps(1) by (cases a; cases b) auto
  show ?case
  proof (cases "\<not> u \<and> P x")
    case True
    with assms ab have "\<not> v" by blast
    with True ab Cons.hyps(2) assms [of x] show ?thesis
      by (auto simp: framed_def agree_def list_all2_refl)
  next
    case False
    with assms [of x] ab have "\<not> (\<not> v \<and> P x)" by blast
    with False ab Cons.IH show ?thesis
      by (auto simp: framed_def agree_def list_all2_refl split: option.splits)
  qed
qed

lemma run_branches_framed:
  assumes "\<forall>r \<in> set rules. \<forall>st st'. agree A st st' \<longrightarrow> framed A st st' (ev r st) (ev r st')"
    and "agree A st st'"
  shows "fst (run_branches ev rules st) = fst (run_branches ev rules st') \<and>
    agree A (snd (run_branches ev rules st)) (snd (run_branches ev rules st')) \<and>
    agree (- A) st (snd (run_branches ev rules st)) \<and> agree (- A) st' (snd (run_branches ev rules st'))"
  using assms
proof (induction rules arbitrary: st st')
  case Nil
  then show ?case by (simp add: agree_refl)
next
  case (Cons r rules)
  obtain b s where b: "ev r st = (b, s)" by fastforce
  obtain b' s' where b': "ev r st' = (b', s')" by fastforce
  have "framed A st st' (b, s) (b', s')" using Cons.prems b b' by (metis list.set_intros(1))
  then have step: "b' = b" "agree A s s'" "agree (- A) st s" "agree (- A) st' s'"
    by (simp_all add: framed_def)
  show ?case
  proof (cases b)
    case True
    with Cons.IH [OF _ step(2)] Cons.prems(1) step(3,4) show ?thesis
      by (auto simp: b b' step(1) split: prod.splits intro: agree_trans)
  next
    case False
    with Cons.IH [OF _ Cons.prems(2)] Cons.prems(1) show ?thesis by (auto simp: b b' step(1))
  qed
qed

text \<open>The MSPs of a rule whose leaves are all roles.\<close>

definition msps :: "principal option list \<Rightarrow> sig_policy \<Rightarrow> string set" where
  "msps ids r = {m. Some m \<in> leaf_msps L ids r}"

lemma evaluate_framed:
  "wf_rule ids r \<Longrightarrow> None \<notin> leaf_msps L ids r \<Longrightarrow> msps ids r \<subseteq> A \<Longrightarrow> agree A st st' \<Longrightarrow>
   framed A st st' (evaluate ids r st) (evaluate ids r st')"
proof (induction r arbitrary: st st')
  case (SignedBy i)
  then obtain p where p: "identity_at ids i = Some p" by auto
  with SignedBy.prems obtain role where role: "role_of L p = Some role" "MspIdentifier role \<in> A"
    by (auto simp: leaf_msp_def GetSignedBy_def msps_def split: option.splits if_splits)
  have "\<And>x. sat x p \<Longrightarrow> msp_of x \<in> A" using satisfies_own_msp [OF role(1)] role(2) by simp
  from take_identity_framed [OF this SignedBy.prems(4)] show ?case by (simp add: evaluate_SignedBy [OF p])
next
  case (NOutOf n rules)
  have "\<forall>r \<in> set rules. \<forall>st st'. agree A st st' \<longrightarrow> framed A st st' (evaluate ids r st) (evaluate ids r st')"
  proof (intro ballI allI impI)
    fix r st st' assume "r \<in> set rules" "agree A st st'"
    then show "framed A st st' (evaluate ids r st) (evaluate ids r st')"
      using NOutOf.prems by (intro NOutOf.IH) (auto simp: msps_def)
  qed
  from run_branches_framed [OF this NOutOf.prems(4)] show ?case
    by (auto simp: evaluate_NOutOf framed_def split: prod.splits)
qed simp_all

text \<open>Independent branches do not compete: each gets the result it has on its own.\<close>

lemma run_independent:
  "\<forall>r \<in> set rules. wf_rule ids r \<Longrightarrow> independent L ids rules \<Longrightarrow>
   agree (\<Union>r \<in> set rules. msps ids r) st (unused xs) \<Longrightarrow>
   fst (run_branches (evaluate ids) rules st) = length (filter (\<lambda>r. rule_accepts evaluate ids r xs) rules)"
proof (induction rules arbitrary: st)
  case (Cons r rules)
  let ?A = "msps ids r" and ?B = "\<Union>r \<in> set rules. msps ids r"
  have leaves: "None \<notin> leaf_msps L ids r" using Cons.prems(2) by (simp add: independent_def)
  have count: "branches_of L ids m (r # rules) \<le> 1" for m using Cons.prems(2) by (simp add: independent_def)
  have "m \<notin> ?B" if "m \<in> ?A" for m
  proof
    assume "m \<in> ?B"
    then obtain r' where "r' \<in> set (filter (\<lambda>r. Some m \<in> leaf_msps L ids r) rules)"
      by (auto simp: msps_def)
    then have "0 < branches_of L ids m rules" unfolding branches_of_filter by (rule length_pos_if_in_set)
    with count [of m] that show False by (simp add: branches_of_filter msps_def del: length_greater_0_conv)
  qed
  then have disj: "?B \<subseteq> - ?A" by blast
  have "branches_of L ids m rules \<le> 1" for m
    using count [of m] by (simp add: branches_of_filter split: if_splits)
  with Cons.prems(2) have ind: "independent L ids rules" by (simp add: independent_def)
  have "agree ?A st (unused xs)" by (rule agree_mono [OF Cons.prems(3)]) auto
  from evaluate_framed [OF _ leaves subset_refl this] Cons.prems(1)
  have step: "fst (evaluate ids r st) = rule_accepts evaluate ids r xs"
    "agree (- ?A) st (snd (evaluate ids r st))"
    by (auto simp: framed_def rule_accepts_def)
  have old: "agree ?B st (unused xs)" by (rule agree_mono [OF Cons.prems(3)]) auto
  have new: "agree ?B (snd (evaluate ids r st)) (unused xs)"
    using agree_trans [OF agree_sym [OF agree_mono [OF step(2) disj]] old] .
  from Cons.IH [OF _ ind old] Cons.IH [OF _ ind new] Cons.prems(1) step(1) show ?case
    by (cases "evaluate ids r st") (auto split: prod.splits bool.splits)
qed simp

text \<open>What the threshold over the branches of a boundary means, before and after the merge.\<close>

definition branch_count :: "principal option list \<Rightarrow> sig_policy list \<Rightarrow> 'id list \<Rightarrow> nat" where
  "branch_count ids rules xs = length (filter (\<lambda>r. rule_accepts evaluate ids r xs) rules)"

lemma branch_count_perm: "mset rules' = mset rules \<Longrightarrow> branch_count ids rules' xs = branch_count ids rules xs"
  unfolding branch_count_def by (metis mset_filter size_mset)

lemma branch_count_all: "int (length rules) \<le> int (branch_count ids rules xs) \<longleftrightarrow> (\<forall>r \<in> set rules. rule_accepts evaluate ids r xs)"
proof -
  have "length rules \<le> length (filter P rules) \<longleftrightarrow> (\<forall>r \<in> set rules. P r)" for P :: "sig_policy \<Rightarrow> bool"
    by (metis filter_id_conv filter_True le_antisym length_filter_le length_filter_less not_less order_refl)
  then show ?thesis by (simp add: branch_count_def)
qed

lemma branch_count_any: "1 \<le> int (branch_count ids rules xs) \<longleftrightarrow> (\<exists>r \<in> set rules. rule_accepts evaluate ids r xs)"
  by (auto simp: branch_count_def Suc_le_eq filter_empty_conv)

lemma order_rules_accepts:
  assumes "order_rules L n rules ids = Inr rule" "\<forall>r \<in> set rules. wf_rule ids r"
  shows "rule_accepts evaluate ids rule xs \<longleftrightarrow> n \<le> int (branch_count ids rules xs)"
proof -
  let ?s = "sort_key (marshal_rule L) rules"
  from assms(1) have ind: "independent L ids rules" and rule: "rule = NOutOf n ?s"
    by (auto simp: order_rules_def independentRules_iff)
  have "independent L ids ?s" using independent_perm [of ?s rules L ids] ind by simp
  moreover have "\<forall>r \<in> set ?s. wf_rule ids r" using assms(2) by simp
  ultimately have "fst (run_branches (evaluate ids) ?s (unused xs)) = branch_count ids ?s xs"
    unfolding branch_count_def by (intro run_independent) (auto intro: agree_refl)
  then have "rule_accepts evaluate ids rule xs \<longleftrightarrow> n \<le> int (branch_count ids ?s xs)"
    unfolding rule rule_accepts_def evaluate_NOutOf
    by (cases "run_branches (evaluate ids) ?s (unused xs)") simp
  then show ?thesis using branch_count_perm [of ?s rules] by simp
qed

text \<open>A peer branch implies the member branch of its MSP.\<close>

lemma singlePolicyRole_accepts:
  "singlePolicyRole L rule ids = Some role \<Longrightarrow> wf_rule ids rule \<Longrightarrow>
   \<exists>p. role_of L p = Some role \<and> (rule_accepts evaluate ids rule xs \<longleftrightarrow> (\<exists>x \<in> set xs. sat x p))"
proof (induction rule)
  case (SignedBy i)
  then obtain p where "identity_at ids i = Some p" "role_of L p = Some role"
    by (auto simp: GetSignedBy_def)
  then show ?case using accepts_SignedBy by blast
next
  case (NOutOf n rules)
  then obtain r where "n = 1" "rules = [r]" "singlePolicyRole L r ids = Some role"
    by (auto split: if_splits list.splits)
  with NOutOf show ?case by (simp add: accepts_one_branch)
qed simp_all

lemma peerImpliesMember_accepts:
  assumes "peerImpliesMember L a b ids" "wf_rule ids a" "wf_rule ids b" "rule_accepts evaluate ids a xs"
  shows "rule_accepts evaluate ids b xs"
proof -
  from assms(1) obtain p m where pm: "singlePolicyRole L a ids = Some p" "singlePolicyRole L b ids = Some m"
    "MspIdentifier p = MspIdentifier m" "Role p = PEER" "Role m = MEMBER"
    by (auto simp: peerImpliesMember_def split: option.splits)
  obtain u v where "role_of L u = Some p" "rule_accepts evaluate ids a xs \<longleftrightarrow> (\<exists>x \<in> set xs. sat x u)"
    "role_of L v = Some m" "rule_accepts evaluate ids b xs \<longleftrightarrow> (\<exists>x \<in> set xs. sat x v)"
    using singlePolicyRole_accepts [OF pm(1) assms(2)] singlePolicyRole_accepts [OF pm(2) assms(3)] by metis
  with peer_is_member [of u p v m] pm(3-5) assms(4) show ?thesis by blast
qed

lemma peer_survives: "peerImpliesMember L a b ids \<Longrightarrow> survives L allRules rules ids a"
  by (auto simp: survives_def peerImpliesMember_def split: option.splits)

lemma merge_rules_accepts:
  assumes "\<forall>r \<in> set rules. wf_rule ids r" "\<forall>r \<in> set (merge_rules L a rules ids). rule_accepts evaluate ids r xs"
  shows "\<forall>r \<in> set rules. rule_accepts evaluate ids r xs"
proof
  fix r assume r: "r \<in> set rules"
  show "rule_accepts evaluate ids r xs"
  proof (cases "survives L a rules ids r")
    case True
    with r assms(2) show ?thesis by (simp add: set_merge_rules)
  next
    case False
    then obtain other where other: "other \<in> set rules" "peerImpliesMember L other r ids"
      by (auto simp: survives_def)
    with peer_survives have "other \<in> set (merge_rules L a rules ids)" by (simp add: set_merge_rules)
    with assms(2) have "rule_accepts evaluate ids other xs" by blast
    with peerImpliesMember_accepts [OF other(2)] other(1) r assms(1) show ?thesis by blast
  qed
qed

lemma merge_rules_all:
  assumes "\<forall>r \<in> set rules. wf_rule ids r"
  shows "(\<forall>r \<in> set (merge_rules L a rules ids). rule_accepts evaluate ids r xs) \<longleftrightarrow>
    (\<forall>r \<in> set rules. rule_accepts evaluate ids r xs)"
  using merge_rules_accepts [OF assms] by (auto simp: set_merge_rules)

lemma merge_boundary_accepts:
  assumes "merge_boundary L n rules ids = Inr rule" "\<forall>r \<in> set rules. wf_rule ids r"
  shows "rule_accepts evaluate ids rule xs \<longleftrightarrow> n \<le> int (branch_count ids rules xs)"
proof -
  obtain a where a: "a = (n = int (length rules))" by blast
  let ?m = "merge_rules L a rules ids" and ?acc = "\<lambda>r. rule_accepts evaluate ids r xs"
  have wf: "\<forall>r \<in> set ?m. wf_rule ids r" using assms(2) by (simp add: set_merge_rules)
  have merged: "n \<le> int (branch_count ids rules xs) \<longleftrightarrow>
      (if a then \<forall>r \<in> set ?m. ?acc r else \<exists>r \<in> set ?m. ?acc r)" if "a \<or> n = 1"
  proof (cases a)
    case True
    then show ?thesis using branch_count_all [of rules ids xs] merge_rules_all [OF assms(2), of a xs] a by simp
  next
    case False
    then have "set ?m = set rules" by (simp add: set_merge_rules survives_def)
    with False that branch_count_any [of ids rules xs] show ?thesis by simp
  qed
  consider "a \<or> n = 1" "length ?m = 1" "rule = hd ?m"
    | "a \<or> n = 1" "order_rules L (if a then int (length ?m) else n) ?m ids = Inr rule"
    | "order_rules L n rules ids = Inr rule"
    using assms(1) unfolding merge_boundary_def a [symmetric] Let_def
    by (cases "a \<or> n = 1"; cases "length ?m = 1") simp_all
  then show ?thesis
  proof cases
    case 1
    then have "set ?m = {rule}" by (cases ?m) auto
    with merged [OF 1(1)] show ?thesis by (cases a) simp_all
  next
    case 2
    from order_rules_accepts [OF 2(2) wf] have "?acc rule \<longleftrightarrow> (if a then int (length ?m) else n) \<le> int (branch_count ids ?m xs)" .
    with merged [OF 2(1)] 2(1) branch_count_all [of ?m ids xs] branch_count_any [of ids ?m xs] show ?thesis
      by (cases a) simp_all
  next
    case 3
    from order_rules_accepts [OF this assms(2)] show ?thesis .
  qed
qed

theorem normalizeImplicitMeta_accepts:
  "normalizeImplicitMeta L src rule ids = Inr rule' \<Longrightarrow> wf_rule ids rule \<Longrightarrow> converts_to evaluate accepts ids src rule \<Longrightarrow>
   rule_accepts evaluate ids rule' xs \<longleftrightarrow> accepts src xs"
proof (induction src arbitrary: rule rule')
  case (ImplicitMeta k subs)
  from ImplicitMeta.prems(1) obtain n rules rules' where rule: "rule = NOutOf n rules" "length rules = length subs"
    and run: "rmap (\<lambda>(s, r). normalizeImplicitMeta L s r ids) (zip subs rules) = Inr rules'"
    and merge: "merge_boundary L n rules' ids = Inr rule'"
    unfolding normalize_meta_Inr by blast
  have conv: "n = k" "list_all2 (converts_to evaluate accepts ids) subs rules" using ImplicitMeta.prems(3) rule by simp_all
  have wf: "\<forall>r \<in> set rules. wf_rule ids r" using ImplicitMeta.prems(2) rule by simp
  have len: "length rules' = length rules" using rmap_length [OF run] rule(2) by simp
  have each: "wf_rule ids (rules' ! i) \<and> (rule_accepts evaluate ids (rules' ! i) xs \<longleftrightarrow> accepts (subs ! i) xs)"
    if i: "i < length subs" for i
  proof -
    have "normalizeImplicitMeta L (subs ! i) (rules ! i) ids = Inr (rules' ! i)"
      using run i rule(2) len by (simp add: rmap_Inr list_all2_conv_all_nth)
    moreover have "wf_rule ids (rules ! i)" using wf i rule(2) by simp
    moreover have "converts_to evaluate accepts ids (subs ! i) (rules ! i)" using conv(2) i by (simp add: list_all2_conv_all_nth)
    ultimately show ?thesis using ImplicitMeta.IH [OF nth_mem [OF i]] normalize_wf by blast
  qed
  have "\<forall>r \<in> set rules'. wf_rule ids r" using each rule(2) len by (auto simp: in_set_conv_nth)
  from merge_boundary_accepts [OF merge this]
  have "rule_accepts evaluate ids rule' xs \<longleftrightarrow> k \<le> int (branch_count ids rules' xs)" by (simp add: conv(1))
  also have "branch_count ids rules' xs = length (filter (\<lambda>s. accepts s xs) subs)"
    unfolding branch_count_def length_filter_conv_card using each rule(2) len by (intro arg_cong [where f = card]) auto
  finally show ?case by (simp add: accepts_meta)
qed simp

lemma converts_resolved:
  "converts_to evaluate accepts ids src rule \<Longrightarrow> wf_rule ids rule \<Longrightarrow> wf_rule ids' rule' \<Longrightarrow>
   resolve_rule ids' rule' = resolve_rule ids rule \<Longrightarrow> converts_to evaluate accepts ids' src rule'"
proof (induction src arbitrary: rule rule')
  case (ImplicitMeta k subs)
  then obtain n rules where rule: "rule = NOutOf n rules" by (cases rule) auto
  with ImplicitMeta.prems obtain rules' where rule': "rule' = NOutOf n rules'" by (cases rule') auto
  have conv: "n = k" "list_all2 (converts_to evaluate accepts ids) subs rules"
    using ImplicitMeta.prems(1) rule by simp_all
  have same: "map (resolve_rule ids') rules' = map (resolve_rule ids) rules"
    using ImplicitMeta.prems(4) rule rule' by simp
  then have len: "length rules' = length subs"
    using list_all2_lengthD [OF conv(2)] by (metis length_map)
  have "converts_to evaluate accepts ids' (subs ! i) (rules' ! i)" if i: "i < length subs" for i
  proof (rule ImplicitMeta.IH)
    show "subs ! i \<in> set subs" "converts_to evaluate accepts ids (subs ! i) (rules ! i)"
      using conv(2) i by (simp_all add: list_all2_conv_all_nth)
    show "wf_rule ids (rules ! i)" "wf_rule ids' (rules' ! i)"
      using ImplicitMeta.prems(2,3) rule rule' i len list_all2_lengthD [OF conv(2)] by simp_all
    show "resolve_rule ids' (rules' ! i) = resolve_rule ids (rules ! i)"
      using same i len list_all2_lengthD [OF conv(2)] by (metis nth_map)
  qed
  then show ?case using conv(1) len by (simp add: rule' list_all2_conv_all_nth)
next
  case (OtherPolicy p)
  then show ?case using accepts_resolved [of ids' rule' ids rule] by simp
qed

end

text \<open>
  The reference semantics of policies: an identity is an MSP with one of its roles, every identity is a
  member of its MSP, and \<open>other\<close> says which identities satisfy a principal that is not a role.
\<close>

definition reference_sat ::
  "'l policy_lib_scheme \<Rightarrow> (string \<times> role_type \<Rightarrow> principal \<Rightarrow> bool) \<Rightarrow> string \<times> role_type \<Rightarrow> principal \<Rightarrow> bool" where
  "reference_sat L other x p =
     (case role_of L p of
        None \<Rightarrow> other x p
      | Some r \<Rightarrow> MspIdentifier r = fst x \<and> (Role r = MEMBER \<or> Role r = snd x))"

fun reference_accepts :: "('o \<Rightarrow> 'id list \<Rightarrow> bool) \<Rightarrow> 'o src_policy \<Rightarrow> 'id list \<Rightarrow> bool" where
  "reference_accepts obj (OtherPolicy p) xs = obj p xs"
| "reference_accepts obj (ImplicitMeta k subs) xs =
     (k \<le> int (length (filter (\<lambda>s. reference_accepts obj s xs) subs)))"

interpretation reference_policies:
  policy_evaluator "reference_sat L other" "reference_eval (reference_sat L other)" L fst "reference_accepts obj"
  for L other obj
  by unfold_locales (auto simp: reference_sat_def)

subsection \<open>resolvePolicy\<close>

lemma resolvePolicy_signature:
  "resolvePolicy L (SignaturePolicy s) mgr = Inr bs \<longleftrightarrow>
     (\<exists>e e' mid. s = Some e \<and> canonical_envelope L e = Inr e' \<and> marshal_envelope L e' = Inr mid \<and>
        marshal_namespace_policy L mid = Inr bs)"
  by (auto simp: resolvePolicy_def select_signature_def canonicalPolicy_def)

text \<open>The canonical form of an envelope is read back as it was written.\<close>

definition canonical_roundtrip :: "'l policy_lib_scheme \<Rightarrow> sig_envelope \<Rightarrow> bool" where
  "canonical_roundtrip L e \<longleftrightarrow> (\<forall>c bs. canonical_envelope L e = Inr c \<and> marshal_envelope L c = Inr bs \<longrightarrow>
     unmarshal_envelope L bs = Inr c)"

lemma resolvePolicy_reference:
  assumes "mgr path = Some \<lparr>policy_object = src, converted = Some (Inr (Some e))\<rparr>" "canonical_roundtrip L e"
  shows "resolvePolicy L (ChannelConfigPolicyReference path) mgr = Inr bs \<longleftrightarrow>
     (\<exists>c canonical rule mid. canonical_envelope L e = Inr c \<and> marshal_envelope L c = Inr canonical \<and>
        normalizeImplicitMeta L src (eRule c) (eIdentities c) = Inr rule \<and>
        marshal_envelope L (c\<lparr>eRule := rule\<rparr>) = Inr mid \<and> marshal_namespace_policy L mid = Inr bs)"
  using assms unfolding canonical_roundtrip_def
  by (auto simp: resolvePolicy_def select_signature_def canonicalPolicy_def normalize_referenced_def)

end
