(* ===== verification/PolicyProps.thy ===== *)
theory PolicyProps
  imports PolicySem
begin

text \<open>
  The properties of the policy conversion of \<^verbatim>\<open>internal/migrate/config.go\<close> (theories Policy,
  PolicyRules, PolicyOrder and PolicySem), with witnesses on an executable encoding and the reference
  semantics.
\<close>

subsection \<open>Libraries to evaluate with\<close>

text \<open>
  An injective encoding of rules, principals and envelopes, and roles of one byte followed by the name of
  the MSP.
\<close>

fun ex_marshal_rule :: "sig_policy \<Rightarrow> bytes" where
  "ex_marshal_rule (SignedBy i) = 1 # replicate (nat i) 1 @ [0]"
| "ex_marshal_rule (NOutOf n rules) =
     2 # replicate (nat n) 1 @ [0] @ replicate (length rules) 1 @ [0] @ concat (map ex_marshal_rule rules)"
| "ex_marshal_rule _ = []"

definition ex_marshal_principal :: "principal \<Rightarrow> bytes res" where
  "ex_marshal_principal p =
     (case PrincipalClassification p of ROLE \<Rightarrow> Inr (Principal p) | OtherClass _ \<Rightarrow> Inl (Ext ''marshal''))"

definition ex_unmarshal_role :: "bytes \<Rightarrow> msp_role res" where
  "ex_unmarshal_role bs =
     (case bs of
        [] \<Rightarrow> Inl (Ext ''role'')
      | r # name \<Rightarrow> Inr \<lparr>MspIdentifier = string_of_bytes name,
          Role = (if r = 0 then MEMBER else if r = 3 then PEER else OtherRole (uint r))\<rparr>)"

definition ex_role :: "byte \<Rightarrow> string \<Rightarrow> principal option" where
  "ex_role r name = Some \<lparr>PrincipalClassification = ROLE, Principal = r # bytes_of_string name\<rparr>"

text \<open>The example envelope: a threshold of one over two peers, with a principal listed twice.\<close>

definition ex_ids :: "principal option list" where
  "ex_ids = [ex_role 3 ''b'', ex_role 3 ''a'', ex_role 3 ''b'']"

definition ex_envelope :: sig_envelope where
  "ex_envelope = \<lparr>eVersion = 0, eRule = NOutOf 1 [SignedBy 2, SignedBy 1], eIdentities = ex_ids\<rparr>"

definition ex_canonical :: sig_envelope where
  "ex_canonical = \<lparr>eVersion = 0, eRule = NOutOf 1 [SignedBy 1, SignedBy 0],
     eIdentities = [ex_role 3 ''a'', ex_role 3 ''b'']\<rparr>"

text \<open>What the converter returns in another run.\<close>

definition ex_envelope' :: sig_envelope where
  "ex_envelope' = \<lparr>eVersion = 0, eRule = NOutOf 1 [SignedBy 0, SignedBy 1],
     eIdentities = [ex_role 3 ''a'', ex_role 3 ''b'']\<rparr>"

definition ex_policy_lib :: policy_lib where
  "ex_policy_lib = \<lparr>marshal_principal = ex_marshal_principal, marshal_rule = ex_marshal_rule,
     marshal_envelope = (\<lambda>e. Inr (ex_marshal_rule (eRule e))),
     unmarshal_envelope = (\<lambda>bs. if bs = ex_marshal_rule (eRule ex_canonical) then Inr ex_canonical
       else if bs = ex_marshal_rule (eRule ex_envelope') then Inr ex_envelope' else Inl (Ext ''envelope'')),
     unmarshal_role = ex_unmarshal_role,
     marshal_namespace_policy = (\<lambda>bs. Inr (9 # bs))\<rparr>"

lemma ex_canonical_envelope: "canonical_envelope ex_policy_lib ex_envelope = Inr ex_canonical"
  by code_simp

lemma ex_encodes_uniquely: "encodes_uniquely ex_policy_lib"
  by (auto simp: encodes_uniquely_def ex_policy_lib_def ex_marshal_principal_def
      split: classification.splits intro: principal.equality)

text \<open>A unary number ends at the first zero, so the encoding of rules is prefix-free.\<close>

lemma unary_unique:
  "replicate m 1 @ (0 :: byte) # s = replicate n 1 @ 0 # t \<Longrightarrow> m = n \<and> s = t"
proof (induction m arbitrary: n)
  case 0
  then show ?case by (cases n) auto
next
  case (Suc m)
  then show ?case by (cases n) auto
qed

lemma ex_marshal_rule_unique:
  "wf_rule ids a \<Longrightarrow> wf_rule ids b \<Longrightarrow> ex_marshal_rule a @ s = ex_marshal_rule b @ t \<Longrightarrow> a = b \<and> s = t"
proof (induction a arbitrary: b s t)
  case (SignedBy i)
  then obtain j where b: "b = SignedBy j" by (cases b) auto
  with SignedBy unary_unique [of "nat i" s "nat j" t] show ?case
    by (auto simp: identity_at_def split: if_splits)
next
  case (NOutOf n rules)
  then obtain k rules' where b: "b = NOutOf k rules'" by (cases b) auto
  have sub: "length xs = length ys \<Longrightarrow> set xs \<subseteq> set rules \<Longrightarrow> \<forall>y \<in> set ys. wf_rule ids y \<Longrightarrow>
      concat (map ex_marshal_rule xs) @ s = concat (map ex_marshal_rule ys) @ t \<Longrightarrow> xs = ys \<and> s = t" for xs ys s t
  proof (induction xs ys rule: list_induct2)
    case (Cons x xs y ys)
    have "x = y \<and> concat (map ex_marshal_rule xs) @ s = concat (map ex_marshal_rule ys) @ t"
      by (rule NOutOf.IH) (use Cons.prems NOutOf.prems(1) in auto)
    with Cons show ?case by simp
  qed simp
  have "nat n = nat k \<and> length rules = length rules' \<and>
      concat (map ex_marshal_rule rules) @ s = concat (map ex_marshal_rule rules') @ t"
  proof -
    have "replicate (nat n) 1 @ 0 # (replicate (length rules) 1 @ 0 # (concat (map ex_marshal_rule rules) @ s)) =
        replicate (nat k) 1 @ 0 # (replicate (length rules') 1 @ 0 # (concat (map ex_marshal_rule rules') @ t))"
      using NOutOf.prems(3) by (simp add: b)
    from unary_unique [OF this] show ?thesis using unary_unique by blast
  qed
  with sub [of rules rules' s t] NOutOf.prems b show ?case by auto
qed simp_all

lemma ex_rules_encode_uniquely: "rules_encode_uniquely ex_policy_lib ids"
  using ex_marshal_rule_unique [of ids _ _ "[]" "[]"]
  by (auto simp: rules_encode_uniquely_def ex_policy_lib_def)

subsection \<open>The canonical policy\<close>

text \<open>
  C32. The canonical form of a signature policy keeps its meaning: the bytes are those of an envelope
  that accepts exactly the same lists of identities under every evaluator that consumes identities in
  rule order, whose rule is well formed (every index names a principal, every threshold is in range),
  whose principals are those of the source, each once, in the order of their encodings.
\<close>

theorem canonical_policy_preserves_meaning:
  assumes "encodes_uniquely L" "signature_evaluator sat ev" "canonicalPolicy L e = Inr bs"
  shows "\<exists>c. marshal_envelope L (c :: sig_envelope) = Inr bs \<and> eVersion c = eVersion e \<and>
    wf_rule (eIdentities c) (eRule c) \<and>
    set (eIdentities c) = set (eIdentities e) \<and> sorted_wrt (<) (map (encoding L \<circ> the) (eIdentities c)) \<and>
    (\<forall>xs. rule_accepts ev (eIdentities c) (eRule c) xs \<longleftrightarrow> rule_accepts ev (eIdentities e) (eRule e) xs)"
proof -
  from assms(3) obtain c where c: "canonical_envelope L e = Inr c" "marshal_envelope L c = Inr bs"
    by (auto simp: canonicalPolicy_def)
  note e = canonical_envelope_Inr [OF assms(1) c(1)]
  have "sorted_wrt (<) (map (encoding L \<circ> the) (eIdentities c))"
    unfolding e(2) canonical_identities_encodings [OF assms(1) e(1)] sorted_encodings_def
    by (simp add: strict_sorted_iff)
  moreover have "set (eIdentities c) = set (eIdentities e)"
    using set_canonical_identities [OF assms(1) e(1)] e(2) by simp
  ultimately show ?thesis
    using c(2) e(3,5) signature_evaluator.accepts_resolved [OF assms(2) e(5,4,6)] by blast
qed

theorem canonical_policy_preserves_meaning_witness:
  "\<exists>c. wf_rule (eIdentities (c :: sig_envelope)) (eRule c) \<and>
     (\<forall>xs. rule_accepts (reference_eval (reference_sat ex_policy_lib (\<lambda>_ _. False))) (eIdentities c) (eRule c) xs \<longleftrightarrow>
        rule_accepts (reference_eval (reference_sat ex_policy_lib (\<lambda>_ _. False))) (eIdentities ex_envelope) (eRule ex_envelope) xs)"
proof -
  have "canonicalPolicy ex_policy_lib ex_envelope = Inr (ex_marshal_rule (eRule ex_canonical))" by code_simp
  from canonical_policy_preserves_meaning [OF ex_encodes_uniquely reference.signature_evaluator_axioms
        [of "reference_sat ex_policy_lib (\<lambda>_ _. False)"] this]
  show ?thesis by auto
qed

text \<open>
  C33. The canonical form is unique: envelopes of one version with the same principals whose rules say
  the same, however their principals are numbered or repeated, have byte-identical canonical policies,
  so policies can be compared as bytes; and the canonical form is its own canonical form.
\<close>

theorem canonical_policy_unique:
  assumes "encodes_uniquely L" "set (eIdentities d) = set (eIdentities e)" "eVersion d = eVersion e"
    "resolve_rule (eIdentities d) (eRule d) = resolve_rule (eIdentities e) (eRule (e :: sig_envelope))"
  shows "(canonicalPolicy L d = Inr bs \<longleftrightarrow> canonicalPolicy L e = Inr bs) \<and>
    (\<forall>c. canonical_envelope L e = Inr c \<longrightarrow> canonical_envelope L c = Inr c)"
proof -
  have "canonical_envelope L d = Inr c \<longleftrightarrow> canonical_envelope L e = Inr c" for c
    using canonical_envelope_same [OF assms, of c]
      canonical_envelope_same [OF assms(1) assms(2-4) [symmetric], of c] by blast
  with canonical_envelope_idem [OF assms(1)] show ?thesis by (auto simp: canonicalPolicy_def)
qed

theorem canonical_policy_unique_witness:
  "canonicalPolicy ex_policy_lib ex_canonical = Inr (ex_marshal_rule (eRule ex_canonical))"
proof -
  have same: "set (eIdentities ex_canonical) = set (eIdentities ex_envelope)"
    "eVersion ex_canonical = eVersion ex_envelope"
    "resolve_rule (eIdentities ex_canonical) (eRule ex_canonical) = resolve_rule (eIdentities ex_envelope) (eRule ex_envelope)"
    by (auto simp: ex_canonical_def ex_envelope_def ex_ids_def identity_at_def)
  have "canonicalPolicy ex_policy_lib ex_envelope = Inr (ex_marshal_rule (eRule ex_canonical))" by code_simp
  with canonical_policy_unique [OF ex_encodes_uniquely same] show ?thesis by blast
qed



subsection \<open>Implicit-meta policies\<close>

text \<open>
  \<^verbatim>\<open>independentRules\<close> decides independence: it holds exactly when every leaf of every branch is
  a role of a named MSP and no MSP occurs in two different branches.
\<close>

lemma independent_rules_decides:
  "independentRules L rules ids \<longleftrightarrow>
     (\<forall>r \<in> set rules. None \<notin> leaf_msps L ids r) \<and>
     (\<forall>m. \<forall>i < length rules. \<forall>j < length rules.
        Some m \<in> leaf_msps L ids (rules ! i) \<and> Some m \<in> leaf_msps L ids (rules ! j) \<longrightarrow> i = j)"
  unfolding independentRules_iff independent_pairwise ..

lemma independent_rules_decides_witness:
  "\<not> independentRules ex_policy_lib [SignedBy 0, SignedBy 2] ex_ids"
proof -
  have "leaf_msps ex_policy_lib ex_ids (SignedBy 0) = {Some ''b''}" "leaf_msps ex_policy_lib ex_ids (SignedBy 2) = {Some ''b''}"
    by code_simp+
  then have "Some ''b'' \<in> leaf_msps ex_policy_lib ex_ids ([SignedBy 0, SignedBy 2] ! 0) \<and>
      Some ''b'' \<in> leaf_msps ex_policy_lib ex_ids ([SignedBy 0, SignedBy 2] ! 1)" by simp
  moreover have "\<not> (0 = (1::nat)) \<and> 0 < length [SignedBy 0, SignedBy 2] \<and> 1 < length [SignedBy 0, SignedBy 2]" by simp
  ultimately show ?thesis unfolding independent_rules_decides by blast
qed

text \<open>
  Branches that pass the check do not compete for identities: evaluated one after the other as one
  signature policy, a threshold over them is reached exactly when that many branches are satisfied each
  on its own by all the identities.
\<close>

lemma independent_branches_do_not_compete:
  assumes "policy_evaluator sat ev L msp_of acc" "independentRules L rules ids" "\<forall>r \<in> set rules. wf_rule ids r"
  shows "rule_accepts ev ids (NOutOf n rules) xs \<longleftrightarrow>
    n \<le> int (length (filter (\<lambda>r. rule_accepts ev ids r xs) rules))"
proof -
  note pe = assms(1) and se = policy_evaluator.axioms(1) [OF assms(1)]
  have "fst (run_branches (ev ids) rules (unused xs)) = length (filter (\<lambda>r. rule_accepts ev ids r xs) rules)"
    using policy_evaluator.run_independent [OF pe assms(3)] assms(2) policy_evaluator.agree_refl [OF pe]
    by (simp add: independentRules_iff)
  then show ?thesis
    unfolding rule_accepts_def signature_evaluator.evaluate_NOutOf [OF se]
    by (cases "run_branches (ev ids) rules (unused xs)") simp
qed

lemma ex_independent:
  "independentRules ex_policy_lib [SignedBy 2, SignedBy 1] ex_ids"
  "\<forall>r \<in> set [SignedBy 2, SignedBy 1]. wf_rule ex_ids r"
  by code_simp+

lemma independent_branches_do_not_compete_witness:
  "rule_accepts (reference_eval (reference_sat ex_policy_lib (\<lambda>_ _. False))) ex_ids (NOutOf 2 [SignedBy 2, SignedBy 1])
     [(''a'', PEER), (''b'', PEER)]"
proof -
  have "filter (\<lambda>r. rule_accepts (reference_eval (reference_sat ex_policy_lib (\<lambda>_ _. False))) ex_ids r [(''a'', PEER), (''b'', PEER)])
      [SignedBy 2, SignedBy 1] = [SignedBy 2, SignedBy 1]"
    by code_simp
  with independent_branches_do_not_compete [OF reference_policies.policy_evaluator_axioms ex_independent,
      where n = 2 and xs = "[(''a'', PEER), (''b'', PEER)]"]
  show ?thesis by simp
qed

text \<open>
  C13. Normalising a converted implicit-meta policy keeps what it accepts: whatever merging, unwrapping and
  reordering the code does at every level, the resulting signature policy accepts a list of identities
  exactly when the implicit-meta policy does, although signature policies consume identities and
  implicit-meta policies do not. Where this cannot be had the code returns an error.
\<close>

theorem implicit_meta_keeps_acceptance:
  assumes "policy_evaluator sat ev L msp_of acc" "wf_rule ids rule" "converts_to ev acc ids src rule"
    and "normalizeImplicitMeta L src rule ids = Inr rule'"
  shows "wf_rule ids rule' \<and> (rule_accepts ev ids rule' xs \<longleftrightarrow> acc src xs)"
  using normalize_wf [OF assms(4,2)] policy_evaluator.normalizeImplicitMeta_accepts [OF assms(1,4,2,3)] by simp

text \<open>Peers of two MSPs and members of one of them: the member branch is implied by the peer branch.\<close>

definition ex_meta_ids :: "principal option list" where
  "ex_meta_ids = [ex_role 0 ''a'', ex_role 3 ''a'', ex_role 3 ''b'']"

definition ex_source :: "sig_policy src_policy" where
  "ex_source = ImplicitMeta 3 [OtherPolicy (SignedBy 0), OtherPolicy (SignedBy 1), ImplicitMeta 1 [OtherPolicy (SignedBy 2)]]"

definition ex_converted :: sig_policy where
  "ex_converted = NOutOf 3 [SignedBy 0, SignedBy 1, NOutOf 1 [SignedBy 2]]"

abbreviation ex_eval :: "principal option list \<Rightarrow> sig_policy \<Rightarrow> (string \<times> role_type) presented \<Rightarrow> bool \<times> (string \<times> role_type) presented" where
  "ex_eval \<equiv> reference_eval (reference_sat ex_policy_lib (\<lambda>_ _. False))"

abbreviation ex_accepts :: "sig_policy src_policy \<Rightarrow> (string \<times> role_type) list \<Rightarrow> bool" where
  "ex_accepts \<equiv> reference_accepts (\<lambda>p xs. rule_accepts ex_eval ex_meta_ids p xs)"

lemma ex_converts:
  "converts_to ex_eval ex_accepts ex_meta_ids ex_source ex_converted"
  "wf_rule ex_meta_ids ex_converted"
  "normalizeImplicitMeta ex_policy_lib ex_source ex_converted ex_meta_ids = Inr (NOutOf 2 [SignedBy 1, SignedBy 2])"
proof -
  show "converts_to ex_eval ex_accepts ex_meta_ids ex_source ex_converted"
    by (simp add: ex_source_def ex_converted_def)
  show "wf_rule ex_meta_ids ex_converted" by code_simp
  show "normalizeImplicitMeta ex_policy_lib ex_source ex_converted ex_meta_ids = Inr (NOutOf 2 [SignedBy 1, SignedBy 2])"
    by code_simp
qed

theorem implicit_meta_keeps_acceptance_witness:
  "rule_accepts ex_eval ex_meta_ids (NOutOf 2 [SignedBy 1, SignedBy 2]) [(''b'', PEER), (''a'', PEER)]"
proof -
  have "ex_accepts ex_source [(''b'', PEER), (''a'', PEER)]" by code_simp
  with implicit_meta_keeps_acceptance [OF reference_policies.policy_evaluator_axioms ex_converts(2,1,3)]
  show ?thesis by blast
qed

text \<open>
  The order in which Fabric's converter gathers the subpolicies of implicit-meta policies, at any
  depth, changes neither whether the normalisation succeeds nor the rule it gives.
\<close>

lemma implicit_meta_order_irrelevant:
  assumes "distinct ids" "rules_encode_uniquely L ids" "wf_rule ids rule" "wf_rule ids rule'"
    "reordered src (resolve_rule ids rule) src' (resolve_rule ids rule')"
  shows "normalizeImplicitMeta L src rule ids = Inr r \<longleftrightarrow> normalizeImplicitMeta L src' rule' ids = Inr r"
  by (rule normalizeImplicitMeta_reordered [OF assms])

definition ex_source' :: "sig_policy src_policy" where
  "ex_source' = ImplicitMeta 3 [ImplicitMeta 1 [OtherPolicy (SignedBy 2)], OtherPolicy (SignedBy 1), OtherPolicy (SignedBy 0)]"

definition ex_converted' :: sig_policy where
  "ex_converted' = NOutOf 3 [NOutOf 1 [SignedBy 2], SignedBy 1, SignedBy 0]"

lemma ex_reordered:
  "reordered ex_source (resolve_rule ex_meta_ids ex_converted) ex_source' (resolve_rule ex_meta_ids ex_converted')"
proof -
  let ?leaf = "\<lambda>i. (OtherPolicy (SignedBy i), Leaf (identity_at ex_meta_ids i)) :: sig_policy src_policy \<times> principal_rule"
  let ?meta = "(ImplicitMeta 1 [OtherPolicy (SignedBy 2)], Threshold 1 [Leaf (identity_at ex_meta_ids 2)]) :: sig_policy src_policy \<times> principal_rule"
  have inner: "reordered (fst ?meta) (snd ?meta) (fst ?meta) (snd ?meta)"
    using reordered.meta [of "[OtherPolicy (SignedBy 2)]" "[Leaf (identity_at ex_meta_ids 2)]" "[?leaf 2]" "[?leaf 2]" 1 1]
    by (simp add: reordered.other)
  show ?thesis
    using reordered.meta [of "map fst [?leaf 0, ?leaf 1, ?meta]" "map snd [?leaf 0, ?leaf 1, ?meta]"
        "[?leaf 0, ?leaf 1, ?meta]" "[?meta, ?leaf 1, ?leaf 0]" 3 3] inner
    by (simp add: reordered.other ex_source_def ex_source'_def ex_converted_def ex_converted'_def)
qed

lemma implicit_meta_order_irrelevant_witness:
  "normalizeImplicitMeta ex_policy_lib ex_source' ex_converted' ex_meta_ids = Inr (NOutOf 2 [SignedBy 1, SignedBy 2])"
proof -
  have "distinct ex_meta_ids" "wf_rule ex_meta_ids ex_converted'" by code_simp+
  from implicit_meta_order_irrelevant [OF this(1) ex_rules_encode_uniquely ex_converts(2) this(2) ex_reordered] ex_converts(3)
  show ?thesis by blast
qed

subsection \<open>resolvePolicy\<close>

text \<open>
  C12. A policy reference resolves to bytes that mean what the referenced channel policy means: when
  resolution succeeds, they are the encoding of an envelope whose rule accepts a list of identities
  exactly when the source policy does.
\<close>

theorem resolved_reference_keeps_acceptance:
  assumes "policy_evaluator sat ev L msp_of acc" "encodes_uniquely L" "canonical_roundtrip L e"
    and "mgr path = Some \<lparr>policy_object = src, converted = Some (Inr (Some e))\<rparr>"
    and "converts_to ev acc (eIdentities e) src (eRule e)"
    and "resolvePolicy L (ChannelConfigPolicyReference path) mgr = Inr bs"
  shows "\<exists>c mid. marshal_envelope L (c :: sig_envelope) = Inr mid \<and> marshal_namespace_policy L mid = Inr bs \<and>
    wf_rule (eIdentities c) (eRule c) \<and> (\<forall>xs. rule_accepts ev (eIdentities c) (eRule c) xs \<longleftrightarrow> acc src xs)"
proof -
  from assms(6) obtain c rule mid where c: "canonical_envelope L e = Inr c"
    and rule: "normalizeImplicitMeta L src (eRule c) (eIdentities c) = Inr rule"
    and out: "marshal_envelope L (c\<lparr>eRule := rule\<rparr>) = Inr mid" "marshal_namespace_policy L mid = Inr bs"
    by (auto simp: resolvePolicy_reference [of mgr, OF assms(4,3)])
  note e = canonical_envelope_Inr [OF assms(2) c]
  have "converts_to ev acc (eIdentities c) src (eRule c)"
    using policy_evaluator.converts_resolved [OF assms(1,5) e(4,5,6)] .
  from policy_evaluator.normalizeImplicitMeta_accepts [OF assms(1) rule e(5) this] normalize_wf [OF rule e(5)] out
  show ?thesis by (intro exI [of _ "c\<lparr>eRule := rule\<rparr>"] exI [of _ mid]) simp
qed

text \<open>The example channel: a reference to an any-of-two policy whose converter lists a principal twice.\<close>

definition ex_any :: "sig_policy src_policy" where
  "ex_any = ImplicitMeta 1 [OtherPolicy (SignedBy 2), OtherPolicy (SignedBy 1)]"

definition ex_manager :: "sig_policy src_policy \<Rightarrow> sig_envelope \<Rightarrow> sig_policy policy_manager" where
  "ex_manager src e path =
     (if path = ''/Channel/Application/Endorsement''
      then Some \<lparr>policy_object = src, converted = Some (Inr (Some e))\<rparr> else None)"

lemma ex_roundtrip: "canonical_roundtrip ex_policy_lib ex_envelope" "canonical_roundtrip ex_policy_lib ex_envelope'"
proof -
  have "canonical_envelope ex_policy_lib ex_envelope' = Inr ex_envelope'"
    "ex_marshal_rule (eRule ex_canonical) \<noteq> ex_marshal_rule (eRule ex_envelope')"
    by code_simp+
  then show "canonical_roundtrip ex_policy_lib ex_envelope" "canonical_roundtrip ex_policy_lib ex_envelope'"
    using ex_canonical_envelope by (auto simp: canonical_roundtrip_def) (auto simp: ex_policy_lib_def)
qed

abbreviation ex_any_accepts :: "sig_policy src_policy \<Rightarrow> (string \<times> role_type) list \<Rightarrow> bool" where
  "ex_any_accepts \<equiv> reference_accepts (\<lambda>p xs. rule_accepts ex_eval ex_ids p xs)"

lemma ex_any_resolves:
  "ex_manager ex_any ex_envelope ''/Channel/Application/Endorsement'' =
     Some \<lparr>policy_object = ex_any, converted = Some (Inr (Some ex_envelope))\<rparr>"
  "converts_to ex_eval ex_any_accepts (eIdentities ex_envelope) ex_any (eRule ex_envelope)"
  "resolvePolicy ex_policy_lib (ChannelConfigPolicyReference ''/Channel/Application/Endorsement'') (ex_manager ex_any ex_envelope) =
     Inr (9 # ex_marshal_rule (NOutOf 1 [SignedBy 0, SignedBy 1]))"
proof -
  show "ex_manager ex_any ex_envelope ''/Channel/Application/Endorsement'' =
     Some \<lparr>policy_object = ex_any, converted = Some (Inr (Some ex_envelope))\<rparr>"
    by (simp add: ex_manager_def)
  show "converts_to ex_eval ex_any_accepts (eIdentities ex_envelope) ex_any (eRule ex_envelope)"
    by (simp add: ex_any_def ex_envelope_def)
  show "resolvePolicy ex_policy_lib (ChannelConfigPolicyReference ''/Channel/Application/Endorsement'') (ex_manager ex_any ex_envelope) =
     Inr (9 # ex_marshal_rule (NOutOf 1 [SignedBy 0, SignedBy 1]))"
    by code_simp
qed

theorem resolved_reference_keeps_acceptance_witness:
  "\<exists>c mid. marshal_envelope ex_policy_lib (c :: sig_envelope) = Inr mid \<and>
     (\<forall>xs. rule_accepts ex_eval (eIdentities c) (eRule c) xs \<longleftrightarrow> ex_any_accepts ex_any xs)"
  using resolved_reference_keeps_acceptance [OF reference_policies.policy_evaluator_axioms ex_encodes_uniquely
      ex_roundtrip(1) ex_any_resolves]
  by blast

text \<open>
  C31. Resolution is reproducible: if in two runs the converter returns envelopes of one version with the
  same principals, numbered differently, and with the branches of the implicit-meta policies in different
  orders, resolution succeeds in both or in neither, and the bytes are the same.
\<close>

theorem resolved_reference_reproducible:
  assumes "encodes_uniquely L" "\<forall>ids. rules_encode_uniquely L ids" "canonical_roundtrip L e" "canonical_roundtrip L e'"
    and "\<forall>c. wf_rule (eIdentities c) (eRule c) \<longrightarrow> (\<exists>out. marshal_envelope L (c :: sig_envelope) = Inr out)"
    and "mgr path = Some \<lparr>policy_object = src, converted = Some (Inr (Some e))\<rparr>"
    and "mgr' path = Some \<lparr>policy_object = src', converted = Some (Inr (Some e'))\<rparr>"
    and "set (eIdentities e') = set (eIdentities e)" "eVersion e' = eVersion e"
    and "wf_rule (eIdentities e') (eRule e')"
    and "reordered src (resolve_rule (eIdentities e) (eRule e)) src' (resolve_rule (eIdentities e') (eRule e'))"
    and "resolvePolicy L (ChannelConfigPolicyReference path) mgr = Inr bs"
  shows "resolvePolicy L (ChannelConfigPolicyReference path) mgr' = Inr bs"
proof -
  from assms(12) obtain c canonical rule mid where c: "canonical_envelope L e = Inr c"
    and rule: "normalizeImplicitMeta L src (eRule c) (eIdentities c) = Inr rule"
    and out: "marshal_envelope L (c\<lparr>eRule := rule\<rparr>) = Inr mid" "marshal_namespace_policy L mid = Inr bs"
    by (auto simp: resolvePolicy_reference [of mgr, OF assms(6,3)])
  note e = canonical_envelope_Inr [OF assms(1) c]
  have ps: "marshals L (eIdentities e')" using e(1) assms(8) by (simp add: marshals_def)
  from canonical_envelope_total [OF assms(1) ps assms(10)] obtain c' where c': "canonical_envelope L e' = Inr c'" by blast
  note e' = canonical_envelope_Inr [OF assms(1) c']
  have ids: "eIdentities c' = eIdentities c"
    using canonical_identities_cong [OF assms(1) e(1) assms(8)] e(2) e'(2) by simp
  have "distinct (eIdentities c)" using distinct_canonical_identities [OF assms(1) e(1)] e(2) by simp
  then have "normalizeImplicitMeta L src' (eRule c') (eIdentities c) = Inr rule"
    using normalizeImplicitMeta_reordered [of "eIdentities c" L "eRule c" "eRule c'" src src' rule] rule
      assms(2,11) e(5,6) e'(5,6) ids by simp
  moreover have "c'\<lparr>eRule := rule\<rparr> = c\<lparr>eRule := rule\<rparr>" using ids e(3) e'(3) assms(9) by simp
  moreover obtain canonical' where "marshal_envelope L c' = Inr canonical'"
    using assms(5) e'(5) by blast
  ultimately show ?thesis using c' out ids by (auto simp: resolvePolicy_reference [of mgr', OF assms(7,4)])
qed

definition ex_any' :: "sig_policy src_policy" where
  "ex_any' = ImplicitMeta 1 [OtherPolicy (SignedBy 1), OtherPolicy (SignedBy 2)]"

lemma ex_any_reordered:
  "reordered ex_any (resolve_rule (eIdentities ex_envelope) (eRule ex_envelope))
     ex_any' (resolve_rule (eIdentities ex_envelope') (eRule ex_envelope'))"
proof -
  let ?a = "(OtherPolicy (SignedBy 1), Leaf (ex_role 3 ''a'')) :: sig_policy src_policy \<times> principal_rule"
    and ?b = "(OtherPolicy (SignedBy 2), Leaf (ex_role 3 ''b'')) :: sig_policy src_policy \<times> principal_rule"
  have "identity_at ex_ids 2 = ex_role 3 ''b''" "identity_at ex_ids 1 = ex_role 3 ''a''"
    by (simp_all add: identity_at_def ex_ids_def)
  then show ?thesis
    using reordered.meta [of "map fst [?b, ?a]" "map snd [?b, ?a]" "[?b, ?a]" "[?a, ?b]" 1 1]
    by (simp add: reordered.other ex_any_def ex_any'_def ex_envelope_def ex_envelope'_def identity_at_def)
qed

theorem resolved_reference_reproducible_witness:
  "resolvePolicy ex_policy_lib (ChannelConfigPolicyReference ''/Channel/Application/Endorsement'') (ex_manager ex_any' ex_envelope') =
     Inr (9 # ex_marshal_rule (NOutOf 1 [SignedBy 0, SignedBy 1]))"
proof (rule resolved_reference_reproducible [OF ex_encodes_uniquely _ ex_roundtrip _ ex_any_resolves(1) _ _ _ _ ex_any_reordered ex_any_resolves(3)])
  show "\<forall>ids. rules_encode_uniquely ex_policy_lib ids" using ex_rules_encode_uniquely by blast
  show "\<forall>c. wf_rule (eIdentities c) (eRule c) \<longrightarrow> (\<exists>out. marshal_envelope ex_policy_lib (c :: sig_envelope) = Inr out)"
    by (simp add: ex_policy_lib_def)
  show "ex_manager ex_any' ex_envelope' ''/Channel/Application/Endorsement'' =
     Some \<lparr>policy_object = ex_any', converted = Some (Inr (Some ex_envelope'))\<rparr>"
    by (simp add: ex_manager_def)
  show "set (eIdentities ex_envelope') = set (eIdentities ex_envelope)" "eVersion ex_envelope' = eVersion ex_envelope"
    by (auto simp: ex_envelope_def ex_envelope'_def ex_ids_def)
  show "wf_rule (eIdentities ex_envelope') (eRule ex_envelope')" by code_simp
qed

end
