(* ===== verification/ChannelConfig.thy ===== *)
theory ChannelConfig
  imports GoLib Wire
begin

text \<open>
  \<^verbatim>\<open>internal/migrate/config.go\<close>, lines 25 to 167: decoding and encoding a channel
  configuration, the public part of an MSP definition, and the reuse of the source channels' MSPs in
  the target configuration. The protobuf messages are records with the fields the code uses (the rest
  of a message is one opaque field); their wire format is a parameter. A map field is an association
  list, whose order is the order in which Go happens to iterate over it.
\<close>

subsection \<open>Messages\<close>

record pb_block =
  bHeader :: "uint64 option"
  bData :: "bytes list option"

record pb_envelope =
  Payload :: bytes
  Signature :: bytes

record pb_payload_header =
  ChannelHeader :: bytes
  SignatureHeader :: bytes

record pb_payload =
  pHeader :: "pb_payload_header option"
  pData :: bytes

record pb_channel_header =
  hType :: int
  ChannelId :: string

text \<open>A \<^verbatim>\<open>ConfigGroup\<close> is a tree: subgroups, values by name, and what the code does not read.\<close>

datatype config_group =
  ConfigGroup (group_subs: "(string \<times> config_group) list") (group_values: "(string \<times> bytes) list") (group_other: bytes)

record pb_config =
  Sequence :: uint64
  ChannelGroup :: "config_group option"

record pb_config_envelope =
  Config :: "pb_config option"
  LastUpdate :: bytes

record pb_msp_config =
  mType :: int
  mConfig :: bytes

text \<open>A \<^verbatim>\<open>FabricMSPConfig\<close> or \<^verbatim>\<open>IdemixMSPConfig\<close>: its name and whether it carries a signer.\<close>

record pb_msp =
  mspName :: string
  hasSigner :: bool

record config_lib =
  pb_Block :: "bytes \<Rightarrow> pb_block res"
  pb_Envelope :: "bytes \<Rightarrow> pb_envelope res"
  pb_Payload :: "bytes \<Rightarrow> pb_payload res"
  pb_ChannelHeader :: "bytes \<Rightarrow> pb_channel_header res"
  pb_ConfigEnvelope :: "bytes \<Rightarrow> pb_config_envelope res"
  pb_MSPConfig :: "bytes \<Rightarrow> pb_msp_config res"
  pb_FabricMSPConfig :: "bytes \<Rightarrow> pb_msp res"
  pb_IdemixMSPConfig :: "bytes \<Rightarrow> pb_msp res"
  wire_ConfigEnvelope :: "pb_config_envelope \<Rightarrow> bytes res"
  wire_Payload :: "pb_payload \<Rightarrow> bytes res"
  wire_Envelope :: "pb_envelope \<Rightarrow> bytes res"

subsection \<open>channelConfig\<close>

record channel_config =
  cEnvelope :: pb_envelope
  cPayload :: pb_payload
  cConfig :: pb_config_envelope
  cChannel :: string
  cBlock :: "uint64 option"

definition HeaderType_CONFIG :: int where
  "HeaderType_CONFIG = 1"

text \<open>\<^verbatim>\<open>GetConfig().GetChannelGroup().GetGroups()["Application"]\<close>\<close>

definition application_group :: "pb_config_envelope \<Rightarrow> config_group option" where
  "application_group c =
     Option.bind (Config c) (\<lambda>config. Option.bind (ChannelGroup config) (\<lambda>g. map_of (group_subs g) ''Application''))"

text \<open>The bytes of the envelope: those of the only entry of a config block, or the input itself.\<close>

definition select_envelope :: "'l config_lib_scheme \<Rightarrow> bytes \<Rightarrow> (bytes \<times> uint64 option) res" where
  "select_envelope L bs =
     (case pb_Block L bs of
        Inl _ \<Rightarrow> Inr (bs, None)
      | Inr block \<Rightarrow>
          (case (bHeader block, bData block) of
             (Some number, Some envelopes) \<Rightarrow>
               (case envelopes of
                  [e] \<Rightarrow> Inr (e, Some number)
                | _ \<Rightarrow> Inl (New ''config block must contain exactly one envelope'' []))
           | _ \<Rightarrow> Inr (bs, None)))"

definition decodeChannelConfig :: "'l config_lib_scheme \<Rightarrow> bytes \<Rightarrow> channel_config res" where
  "decodeChannelConfig L bs =
     rbind (select_envelope L bs) (\<lambda>(bs, blockNumber).
     rbind (pb_Envelope L bs) (\<lambda>envelope.
     rbind (pb_Payload L (Payload envelope)) (\<lambda>payload.
     case pHeader payload of
       None \<Rightarrow> Inl (New ''config envelope has no header'' [])
     | Some h \<Rightarrow>
         rbind (pb_ChannelHeader L (ChannelHeader h)) (\<lambda>header.
         if hType header \<noteq> HeaderType_CONFIG \<or> ChannelId header = []
         then Inl (New ''expected CONFIG envelope with a channel ID'' [])
         else rbind (pb_ConfigEnvelope L (pData payload)) (\<lambda>config.
           if application_group config = None then Inl (New ''config has no Application group'' [])
           else Inr \<lparr>cEnvelope = envelope, cPayload = payload, cConfig = config,
                     cChannel = ChannelId header, cBlock = blockNumber\<rparr>)))))"

definition application :: "channel_config \<Rightarrow> config_group" where
  "application c = the (application_group (cConfig c))"

definition encode :: "'l config_lib_scheme \<Rightarrow> channel_config \<Rightarrow> bytes res" where
  "encode L c =
     rbind (wire_ConfigEnvelope L (cConfig c)) (\<lambda>bs.
     rbind (wire_Payload L ((cPayload c)\<lparr>pData := bs\<rparr>)) (\<lambda>encoded.
       wire_Envelope L \<lparr>Payload = encoded, Signature = []\<rparr>))"

subsection \<open>publicMSP\<close>

definition publicMSP :: "'l config_lib_scheme \<Rightarrow> config_group \<Rightarrow> (string \<times> pb_msp_config) res" where
  "publicMSP L g =
     (case map_of (group_values g) ''MSP'' of
        None \<Rightarrow> Inl (New ''organization has no MSP definition'' [])
      | Some value \<Rightarrow>
          rbind (pb_MSPConfig L value) (\<lambda>config.
            if mType config = 0 then
              rbind (pb_FabricMSPConfig L (mConfig config)) (\<lambda>msp.
                if mspName msp = [] \<or> hasSigner msp
                then Inl (New ''MSP must contain an ID and public verification material only'' [])
                else Inr (mspName msp, config))
            else if mType config = 1 then
              rbind (pb_IdemixMSPConfig L (mConfig config)) (\<lambda>msp.
                if mspName msp = [] \<or> hasSigner msp
                then Inl (New ''idemix MSP must contain an ID and public verification material only'' [])
                else Inr (mspName msp, config))
            else Inl (New ''unsupported MSP type'' [])))"

subsection \<open>reuseMSPs\<close>

text \<open>The organizations of the target and the two indexes \<^verbatim>\<open>byID\<close> and \<^verbatim>\<open>byName\<close>.\<close>

record reuse_state =
  orgs :: "(string, config_group) gomap"
  byID :: "(string, pb_msp_config) gomap"
  byName :: "(string, string) gomap"

definition index_target :: "'l config_lib_scheme \<Rightarrow> string \<times> config_group \<Rightarrow> reuse_state \<Rightarrow> reuse_state res" where
  "index_target L org st = (case org of (name, g) \<Rightarrow>
     rbind (wrapped [''target organization'', name] (publicMSP L g)) (\<lambda>(mspid, msp).
       if has_key (byID st) mspid then Inl (New ''duplicate target MSP ID'' [mspid])
       else Inr (st\<lparr>byID := AList.update mspid msp (byID st), byName := AList.update name mspid (byName st)\<rparr>)))"

definition add_source_org ::
  "'l config_lib_scheme \<Rightarrow> string \<Rightarrow> (string, config_group) gomap \<Rightarrow> string \<Rightarrow> reuse_state \<Rightarrow> reuse_state res" where
  "add_source_org L channel groups name st =
     (let g = the (map_of groups name) in
      rbind (wrapped [channel, name] (publicMSP L g)) (\<lambda>(mspid, msp).
        case map_of (byID st) mspid of
          Some existing \<Rightarrow>
            if existing \<noteq> msp then Inl (New ''conflicting MSP definitions'' [mspid]) else Inr st
        | None \<Rightarrow>
            (case map_of (byName st) name of
               Some previous \<Rightarrow> Inl (New ''organization name refers to two MSPs'' [name, previous, mspid])
             | None \<Rightarrow> Inr \<lparr>orgs = AList.update name g (orgs st),
                 byID = AList.update mspid msp (byID st), byName = AList.update name mspid (byName st)\<rparr>)))"

definition add_source ::
  "'l config_lib_scheme \<Rightarrow> (string, channel_config) gomap \<Rightarrow> string \<Rightarrow> reuse_state \<Rightarrow> reuse_state res" where
  "add_source L sources channel st =
     (let groups = group_subs (application (the (map_of sources channel))) in
      rfold (add_source_org L channel groups) (sortedKeys groups) st)"

text \<open>The assignment to \<^verbatim>\<open>target.application().Groups\<close>: the configuration with other organizations.\<close>

definition set_orgs :: "(string, config_group) gomap \<Rightarrow> config_group \<Rightarrow> config_group" where
  "set_orgs groups g = ConfigGroup groups (group_values g) (group_other g)"

definition map_application :: "(config_group \<Rightarrow> config_group) \<Rightarrow> config_group \<Rightarrow> config_group" where
  "map_application f root =
     ConfigGroup (map (\<lambda>p. (fst p, if fst p = ''Application'' then f (snd p) else snd p)) (group_subs root))
       (group_values root) (group_other root)"

definition map_config :: "(config_group \<Rightarrow> config_group) \<Rightarrow> pb_config_envelope \<Rightarrow> pb_config_envelope" where
  "map_config f c = c\<lparr>Config := map_option (\<lambda>config. config\<lparr>ChannelGroup := map_option f (ChannelGroup config)\<rparr>) (Config c)\<rparr>"

definition with_orgs :: "(string, config_group) gomap \<Rightarrow> channel_config \<Rightarrow> channel_config" where
  "with_orgs groups c = c\<lparr>cConfig := map_config (map_application (set_orgs groups)) (cConfig c)\<rparr>"

text \<open>The first loop ranges over the map of the target's organizations in the order \<open>rng\<close>.\<close>

definition reuseMSPs ::
  "'l config_lib_scheme \<Rightarrow> ((string, config_group) gomap \<Rightarrow> (string, config_group) gomap) \<Rightarrow> channel_config \<Rightarrow>
   (string, channel_config) gomap \<Rightarrow> channel_config res" where
  "reuseMSPs L rng target sources =
     (let groups = group_subs (application target) in
      rbind (rfold (index_target L) (rng groups) \<lparr>orgs = groups, byID = [], byName = []\<rparr>) (\<lambda>st.
      rbind (rfold (add_source L sources) (sortedKeys sources) st) (\<lambda>st.
        Inr (with_orgs (orgs st) target))))"

subsection \<open>The indexes of reuseMSPs\<close>

text \<open>
  The invariant: \<open>names\<close> gives the MSP ID of every organization of \<open>G\<close>, \<open>ids\<close> the definition of every
  such ID, and no two organizations share an ID.
\<close>

definition indexes ::
  "'l config_lib_scheme \<Rightarrow> (string \<rightharpoonup> config_group) \<Rightarrow> (string, pb_msp_config) gomap \<Rightarrow> (string, string) gomap \<Rightarrow> bool" where
  "indexes L G ids names \<longleftrightarrow>
     (\<forall>name g. G name = Some g \<longrightarrow> (\<exists>i m. publicMSP L g = Inr (i, m) \<and> map_of names name = Some i \<and> map_of ids i = Some m)) \<and>
     dom (map_of names) = dom G \<and>
     dom (map_of ids) = ran (map_of names) \<and>
     inj_on (map_of names) (dom G)"

lemma indexes_empty: "indexes L Map.empty [] []"
  by (simp add: indexes_def)

lemma indexes_add:
  assumes "indexes L G ids names" "publicMSP L g = Inr (i, m)" "name \<notin> dom G" "map_of ids i = None"
  shows "indexes L (G(name \<mapsto> g)) (AList.update i m ids) (AList.update name i names)"
proof -
  have names: "dom (map_of names) = dom G" "dom (map_of ids) = ran (map_of names)"
    "inj_on (map_of names) (dom G)"
    using assms(1) by (simp_all add: indexes_def)
  have fresh: "map_of names name = None" using names(1) assms(3) by (auto simp: domIff)
  have unused: "i \<notin> ran (map_of names)" using names(2) assms(4) by (auto simp: domIff)
  have "inj_on ((map_of names)(name \<mapsto> i)) (insert name (dom G))"
    using names(3) unused by (auto simp: inj_on_def ran_def)
  moreover have "\<exists>i' m'. publicMSP L g' = Inr (i', m') \<and> ((map_of names)(name \<mapsto> i)) n = Some i' \<and> ((map_of ids)(i \<mapsto> m)) i' = Some m'"
    if "(G(name \<mapsto> g)) n = Some g'" for n g'
  proof (cases "n = name")
    case True
    with that assms(2) show ?thesis by simp
  next
    case False
    with that have "G n = Some g'" by simp
    then obtain i' m' where "publicMSP L g' = Inr (i', m')" "map_of names n = Some i'" "map_of ids i' = Some m'"
      using assms(1) unfolding indexes_def by blast
    with False assms(4) show ?thesis by (intro exI [of _ i'] exI [of _ m']) auto
  qed
  ultimately show ?thesis
    using names(1,2) fresh unfolding indexes_def by (auto simp: ran_map_upd)
qed

lemma indexes_org:
  assumes "indexes L G ids names" "publicMSP L g = Inr (i, m)" "map_of ids i = Some m"
  shows "\<exists>name' g'. G name' = Some g' \<and> publicMSP L g' = Inr (i, m)"
proof -
  from assms(1,3) have "i \<in> ran (map_of names)" unfolding indexes_def by blast
  then obtain name where name: "map_of names name = Some i" by (auto simp: ran_def)
  then obtain g' where "G name = Some g'" using assms(1) unfolding indexes_def by blast
  with name assms(1,3) show ?thesis unfolding indexes_def by fastforce
qed

lemma indexes_unique:
  assumes "indexes L G ids names" "G n = Some g" "G n' = Some g'" "publicMSP L g = Inr (i, m)" "publicMSP L g' = Inr (i, m')"
  shows "n' = n"
proof -
  have "map_of names n = Some i" "map_of names n' = Some i" using assms by (fastforce simp: indexes_def)+
  then show ?thesis using assms(1) unfolding indexes_def inj_on_def by (metis domI)
qed

text \<open>The first loop, over the target's own organizations.\<close>

lemma index_target_loop:
  assumes "rfold (index_target L) groups \<lparr>orgs = all, byID = [], byName = []\<rparr> = Inr st" "wf_map groups"
  shows "orgs st = all \<and> indexes L (map_of groups) (byID st) (byName st)"
proof (rule rfold_induct [OF assms(1), where P = "\<lambda>pre st. orgs st = all \<and> indexes L (map_of pre) (byID st) (byName st)"])
  show "orgs \<lparr>orgs = all, byID = [], byName = []\<rparr> = all \<and>
      indexes L (map_of []) (byID \<lparr>orgs = all, byID = [], byName = []\<rparr>) (byName \<lparr>orgs = all, byID = [], byName = []\<rparr>)"
    by (simp add: indexes_empty)
next
  fix pre x post st st'
  assume split: "groups = pre @ x # post" and IH: "orgs st = all \<and> indexes L (map_of pre) (byID st) (byName st)"
    and step: "index_target L x st = Inr st'"
  obtain name g where x: "x = (name, g)" by (cases x)
  with step obtain i m where m: "publicMSP L g = Inr (i, m)" "map_of (byID st) i = None"
    "st' = st\<lparr>byID := AList.update i m (byID st), byName := AList.update name i (byName st)\<rparr>"
    by (auto simp: index_target_def has_key_def)
  have fresh: "name \<notin> dom (map_of pre)"
    using assms(2) split x by (auto simp: wf_map_def keys_def dom_map_of_conv_image_fst)
  have "map_of (pre @ [x]) = (map_of pre)(name \<mapsto> g)"
    using fresh by (auto simp: x map_add_def domIff split: option.splits)
  with indexes_add [OF conjunct2 [OF IH] m(1) fresh m(2)] IH m(3)
  show "orgs st' = all \<and> indexes L (map_of (pre @ [x])) (byID st') (byName st')" by simp
qed

text \<open>The second loop, over the organizations of the source channels.\<close>

definition grows :: "reuse_state \<Rightarrow> reuse_state \<Rightarrow> bool" where
  "grows st st' \<longleftrightarrow> map_of (orgs st) \<subseteq>\<^sub>m map_of (orgs st') \<and> map_of (byID st) \<subseteq>\<^sub>m map_of (byID st')"

lemma grows_refl: "grows st st"
  by (simp add: grows_def)

lemma grows_trans: "grows st st' \<Longrightarrow> grows st' st'' \<Longrightarrow> grows st st''"
  by (auto simp: grows_def intro: map_le_trans)

definition reuse_inv :: "'l config_lib_scheme \<Rightarrow> (string \<Rightarrow> config_group \<Rightarrow> bool) \<Rightarrow> reuse_state \<Rightarrow> bool" where
  "reuse_inv L origin st \<longleftrightarrow> wf_map (orgs st) \<and> indexes L (map_of (orgs st)) (byID st) (byName st) \<and>
     (\<forall>name g. map_of (orgs st) name = Some g \<longrightarrow> origin name g)"

lemma add_source_org_Inr:
  assumes "add_source_org L channel groups name st = Inr st'" "reuse_inv L origin st"
    "map_of groups name = Some g" "origin name g"
  shows "reuse_inv L origin st'" "grows st st'" "\<exists>i m. publicMSP L g = Inr (i, m) \<and> map_of (byID st') i = Some m"
proof -
  from assms(1,3) obtain i m where m: "publicMSP L g = Inr (i, m)"
    and cases: "map_of (byID st) i = Some m \<and> st' = st \<or>
      map_of (byID st) i = None \<and> map_of (byName st) name = None \<and>
      st' = \<lparr>orgs = AList.update name g (orgs st), byID = AList.update i m (byID st), byName = AList.update name i (byName st)\<rparr>"
    by (auto simp: add_source_org_def Let_def)
  have "reuse_inv L origin st' \<and> grows st st' \<and> map_of (byID st') i = Some m"
    using cases
  proof
    assume "map_of (byID st) i = Some m \<and> st' = st"
    with assms(2) show ?thesis by (simp add: grows_refl)
  next
    assume new: "map_of (byID st) i = None \<and> map_of (byName st) name = None \<and>
      st' = \<lparr>orgs = AList.update name g (orgs st), byID = AList.update i m (byID st), byName = AList.update name i (byName st)\<rparr>"
    have inv: "wf_map (orgs st)" "indexes L (map_of (orgs st)) (byID st) (byName st)"
      using assms(2) by (simp_all add: reuse_inv_def)
    have fresh: "name \<notin> dom (map_of (orgs st))"
      using inv(2) new unfolding indexes_def by (metis domIff)
    have "indexes L (map_of (orgs st')) (byID st') (byName st')"
      using indexes_add [OF inv(2) m fresh] new by simp
    moreover have "\<forall>n g'. map_of (orgs st') n = Some g' \<longrightarrow> origin n g'"
      using assms(2,4) new by (auto simp: reuse_inv_def)
    moreover have "grows st st'" using new fresh by (auto simp: grows_def map_le_def)
    ultimately show ?thesis using new inv(1) by (simp add: reuse_inv_def)
  qed
  then show "reuse_inv L origin st'" "grows st st'" "\<exists>i m. publicMSP L g = Inr (i, m) \<and> map_of (byID st') i = Some m"
    using m by auto
qed

text \<open>An organization's MSP is in the index of definitions.\<close>

definition indexed :: "'l config_lib_scheme \<Rightarrow> reuse_state \<Rightarrow> config_group \<Rightarrow> bool" where
  "indexed L st g \<longleftrightarrow> (\<exists>i m. publicMSP L g = Inr (i, m) \<and> map_of (byID st) i = Some m)"

lemma indexed_grows: "indexed L st g \<Longrightarrow> grows st st' \<Longrightarrow> indexed L st' g"
  unfolding indexed_def grows_def map_le_def by (metis domI)

definition source_orgs :: "(string, channel_config) gomap \<Rightarrow> string \<Rightarrow> (string, config_group) gomap" where
  "source_orgs sources channel = group_subs (application (the (map_of sources channel)))"

lemma add_source_eq:
  "add_source L sources channel st =
     rfold (add_source_org L channel (source_orgs sources channel)) (sortedKeys (source_orgs sources channel)) st"
  by (simp add: add_source_def source_orgs_def Let_def)

lemma add_source_Inr:
  assumes "rfold (add_source_org L channel groups) names st = Inr st'" "reuse_inv L origin st"
    "\<forall>name \<in> set names. \<exists>g. map_of groups name = Some g \<and> origin name g"
  shows "reuse_inv L origin st' \<and> grows st st' \<and>
    (\<forall>name \<in> set names. \<exists>g. map_of groups name = Some g \<and> indexed L st' g)"
  using assms
proof (induction names arbitrary: st)
  case Nil
  then show ?case by (simp add: grows_refl)
next
  case (Cons name names)
  then obtain st1 where 1: "add_source_org L channel groups name st = Inr st1"
    and rest: "rfold (add_source_org L channel groups) names st1 = Inr st'" by auto
  from Cons.prems(3) obtain g where g: "map_of groups name = Some g" "origin name g" by auto
  note step = add_source_org_Inr [OF 1 Cons.prems(2) g]
  have IH: "reuse_inv L origin st' \<and> grows st1 st' \<and>
    (\<forall>name \<in> set names. \<exists>g. map_of groups name = Some g \<and> indexed L st' g)"
    by (rule Cons.IH [OF rest step(1)]) (use Cons.prems(3) in simp)
  have "indexed L st1 g" using step(3) by (simp add: indexed_def)
  with IH have "indexed L st' g" using indexed_grows by blast
  with IH g(1) step(2) grows_trans [of st st1 st'] show ?case by simp
qed

lemma add_sources_Inr:
  assumes "rfold (add_source L sources) channels st = Inr st'" "reuse_inv L origin st"
    "\<forall>channel \<in> set channels. \<forall>name g. map_of (source_orgs sources channel) name = Some g \<longrightarrow> origin name g"
  shows "reuse_inv L origin st' \<and> grows st st' \<and>
    (\<forall>channel \<in> set channels. \<forall>name g. map_of (source_orgs sources channel) name = Some g \<longrightarrow> indexed L st' g)"
  using assms
proof (induction channels arbitrary: st)
  case Nil
  then show ?case by (simp add: grows_refl)
next
  case (Cons channel channels)
  let ?groups = "source_orgs sources channel"
  from Cons.prems(1) obtain st1 where "add_source L sources channel st = Inr st1"
    and rest: "rfold (add_source L sources) channels st1 = Inr st'" by auto
  then have 1: "rfold (add_source_org L channel ?groups) (sortedKeys ?groups) st = Inr st1"
    by (simp add: add_source_eq)
  have "\<forall>name \<in> set (sortedKeys ?groups). \<exists>g. map_of ?groups name = Some g \<and> origin name g"
    using Cons.prems(3) by (auto simp: set_keys)
  note step = add_source_Inr [OF 1 Cons.prems(2) this]
  have IH: "reuse_inv L origin st' \<and> grows st1 st' \<and>
    (\<forall>channel \<in> set channels. \<forall>name g. map_of (source_orgs sources channel) name = Some g \<longrightarrow> indexed L st' g)"
    by (rule Cons.IH [OF rest]) (use step Cons.prems(3) in auto)
  have "indexed L st' g" if "map_of ?groups name = Some g" for name g
  proof -
    have "name \<in> set (sortedKeys ?groups)" using that by (auto simp: set_keys)
    with step that have "indexed L st1 g" by fastforce
    with IH indexed_grows show ?thesis by blast
  qed
  with IH step show ?case by (auto intro: grows_trans)
qed

subsection \<open>The configuration with other organizations\<close>

lemma map_of_application:
  "map_of (group_subs (map_application f root)) ''Application'' = map_option f (map_of (group_subs root) ''Application'')"
proof -
  have "map_of (map (\<lambda>p. (fst p, if fst p = a then f (snd p) else snd p)) xs) a = map_option f (map_of xs a)"
    for xs :: "(string \<times> config_group) list" and a
    by (induction xs) auto
  then show ?thesis by (simp add: map_application_def)
qed

lemma application_group_with_orgs [simp]:
  "application_group (cConfig (with_orgs groups c)) = map_option (set_orgs groups) (application_group (cConfig c))"
proof (cases "Config (cConfig c)")
  case None
  then show ?thesis by (simp add: application_group_def with_orgs_def map_config_def)
next
  case (Some config)
  then show ?thesis
    by (cases "ChannelGroup config") (simp_all add: application_group_def with_orgs_def map_config_def map_of_application)
qed

lemma application_with_orgs:
  "application_group (cConfig c) \<noteq> None \<Longrightarrow> group_subs (application (with_orgs groups c)) = groups"
  by (auto simp: application_def set_orgs_def)

lemma map_application_twice: "map_application (set_orgs g2) (map_application (set_orgs g1) root) = map_application (set_orgs g2) root"
  by (simp add: map_application_def set_orgs_def)

lemma with_orgs_twice [simp]: "with_orgs g2 (with_orgs g1 c) = with_orgs g2 c"
proof (cases "Config (cConfig c)")
  case None
  then show ?thesis by (simp add: with_orgs_def map_config_def)
next
  case (Some config)
  then show ?thesis
    by (cases "ChannelGroup config") (simp_all add: with_orgs_def map_config_def map_application_twice)
qed

lemma with_orgs_sel [simp]:
  "cChannel (with_orgs g c) = cChannel c" "cPayload (with_orgs g c) = cPayload c"
  "cEnvelope (with_orgs g c) = cEnvelope c" "cBlock (with_orgs g c) = cBlock c"
  by (simp_all add: with_orgs_def)

subsection \<open>What reuseMSPs returns\<close>

text \<open>
  The organizations a configuration may have after the reuse: those of the target, and those of the
  source channels under their own names.
\<close>

definition may_have :: "channel_config \<Rightarrow> (string, channel_config) gomap \<Rightarrow> string \<Rightarrow> config_group \<Rightarrow> bool" where
  "may_have target sources name g \<longleftrightarrow> map_of (group_subs (application target)) name = Some g \<or>
     (\<exists>channel \<in> set (keys sources). map_of (source_orgs sources channel) name = Some g)"

lemma reuseMSPs_Inr:
  assumes "reuseMSPs L rng target sources = Inr target'" "wf_map (group_subs (application target))" "iteration_order rng"
  shows "\<exists>st. target' = with_orgs (orgs st) target \<and> reuse_inv L (may_have target sources) st \<and>
    map_of (group_subs (application target)) \<subseteq>\<^sub>m map_of (orgs st) \<and>
    (\<forall>channel \<in> set (keys sources). \<forall>name g. map_of (source_orgs sources channel) name = Some g \<longrightarrow> indexed L st g)"
proof -
  let ?groups = "group_subs (application target)"
  from assms(1) obtain st st' where 1: "rfold (index_target L) (rng ?groups) \<lparr>orgs = ?groups, byID = [], byName = []\<rparr> = Inr st"
    and 2: "rfold (add_source L sources) (sortedKeys sources) st = Inr st'"
    and target': "target' = with_orgs (orgs st') target"
    by (auto simp: reuseMSPs_def Let_def)
  have "wf_map (rng ?groups)" using assms(2,3) by (simp add: iteration_order_wf)
  note loop = index_target_loop [OF 1 this, unfolded iteration_order_map_of [OF assms(3,2)]]
  from loop assms(2) have inv: "reuse_inv L (may_have target sources) st"
    by (auto simp: reuse_inv_def may_have_def)
  have "\<forall>channel \<in> set (sortedKeys sources). \<forall>name g.
      map_of (source_orgs sources channel) name = Some g \<longrightarrow> may_have target sources name g"
    by (auto simp: may_have_def)
  from add_sources_Inr [OF 2 inv this] loop target' show ?thesis
    by (auto simp: grows_def)
qed

lemma publicMSP_Inr:
  "publicMSP L g = Inr (i, m) \<longleftrightarrow>
     (\<exists>value msp. map_of (group_values g) ''MSP'' = Some value \<and> pb_MSPConfig L value = Inr m \<and>
        (mType m = 0 \<and> pb_FabricMSPConfig L (mConfig m) = Inr msp \<or> mType m = 1 \<and> pb_IdemixMSPConfig L (mConfig m) = Inr msp) \<and>
        mspName msp = i \<and> i \<noteq> [] \<and> \<not> hasSigner msp)"
  by (auto simp: publicMSP_def split: if_splits intro!: exI [of _ m])

text \<open>Running it again: the first loop accepts what the invariant describes, the second adds nothing.\<close>

lemma index_target_total:
  "\<forall>p \<in> set groups. \<exists>i m. publicMSP L (snd p) = Inr (i, m) \<and> i \<notin> set (keys (byID st)) \<Longrightarrow>
   distinct (map (\<lambda>p. fst (projr (publicMSP L (snd p)))) groups) \<Longrightarrow>
   \<exists>st'. rfold (index_target L) groups st = Inr st'"
proof (induction groups arbitrary: st)
  case (Cons p groups)
  obtain name g where p: "p = (name, g)" by (cases p)
  with Cons.prems(1) obtain i m where m: "publicMSP L g = Inr (i, m)" "i \<notin> set (keys (byID st))" by auto
  let ?st = "st\<lparr>byID := AList.update i m (byID st), byName := AList.update name i (byName st)\<rparr>"
  have "index_target L p st = Inr ?st" using m by (simp add: index_target_def p has_key_iff)
  moreover have "\<exists>st'. rfold (index_target L) groups ?st = Inr st'"
  proof (rule Cons.IH)
    show "distinct (map (\<lambda>p. fst (projr (publicMSP L (snd p)))) groups)" using Cons.prems(2) by simp
    show "\<forall>q \<in> set groups. \<exists>j k. publicMSP L (snd q) = Inr (j, k) \<and> j \<notin> set (keys (byID ?st))"
    proof
      fix q assume q: "q \<in> set groups"
      with Cons.prems(1) obtain j k where k: "publicMSP L (snd q) = Inr (j, k)" "j \<notin> set (keys (byID st))" by auto
      have "fst (projr (publicMSP L (snd q))) \<noteq> fst (projr (publicMSP L g))"
      proof -
        have "fst (projr (publicMSP L g)) \<notin> (\<lambda>p. fst (projr (publicMSP L (snd p)))) ` set groups"
          using Cons.prems(2) p by simp
        with q show ?thesis by (metis imageI)
      qed
      with m k have "j \<noteq> i" by simp
      with k show "\<exists>j k. publicMSP L (snd q) = Inr (j, k) \<and> j \<notin> set (keys (byID ?st))"
        by (auto simp: set_keys)
    qed
  qed
  ultimately show ?case by (simp del: rbind_Inr)
qed simp

lemma add_source_org_noop:
  "map_of groups name = Some g \<Longrightarrow> indexed L st g \<Longrightarrow> add_source_org L channel groups name st = Inr st"
  by (auto simp: add_source_org_def indexed_def Let_def)

lemma add_sources_noop:
  assumes "\<forall>channel \<in> set channels. \<forall>name g. map_of (source_orgs sources channel) name = Some g \<longrightarrow> indexed L st g"
  shows "rfold (add_source L sources) channels st = Inr st"
  using assms
proof (induction channels)
  case (Cons channel channels)
  let ?groups = "source_orgs sources channel"
  have "rfold (add_source_org L channel ?groups) names st = Inr st" if "set names \<subseteq> set (keys ?groups)" for names
    using that
  proof (induction names)
    case (Cons name names)
    then obtain g where "map_of ?groups name = Some g" by (auto simp: set_keys)
    with Cons \<open>\<forall>channel' \<in> set (channel # channels). _ channel'\<close> add_source_org_noop [of ?groups name g L st channel]
    show ?case by simp
  qed simp
  then have "add_source L sources channel st = Inr st" by (simp add: add_source_eq)
  with Cons show ?case by simp
qed simp

text \<open>The first loop accepts, in any order, the organizations that the invariant describes.\<close>

lemma index_target_restart:
  assumes "indexes L (map_of groups) ids names" "wf_map groups" "iteration_order rng"
  shows "\<exists>st. rfold (index_target L) (rng groups) \<lparr>orgs = all, byID = [], byName = []\<rparr> = Inr st \<and>
    orgs st = all \<and> indexes L (map_of groups) (byID st) (byName st)"
proof -
  have org: "map_of groups (fst p) = Some (snd p)" if "p \<in> set groups" for p
    using that assms(2) by (simp add: wf_map_def keys_def)
  have msp: "\<exists>i m. publicMSP L (snd p) = Inr (i, m)" if "p \<in> set groups" for p
    using org [OF that] assms(1) unfolding indexes_def by blast
  have "inj_on (\<lambda>p. fst (projr (publicMSP L (snd p)))) (set groups)"
  proof (rule inj_onI)
    fix p q assume pq: "p \<in> set groups" "q \<in> set groups"
      "fst (projr (publicMSP L (snd p))) = fst (projr (publicMSP L (snd q)))"
    with msp [of p] msp [of q] have "fst q = fst p"
      using indexes_unique [OF assms(1) org [OF pq(1)] org [OF pq(2)]] by auto
    with org [OF pq(1)] org [OF pq(2)] show "p = q" by (simp add: prod_eq_iff)
  qed
  moreover have wf: "wf_map (rng groups)" using assms(2,3) by (simp add: iteration_order_wf)
  then have "distinct (rng groups)" by (simp add: wf_map_def keys_def distinct_map)
  ultimately have "distinct (map (\<lambda>p. fst (projr (publicMSP L (snd p)))) (rng groups))"
    by (simp add: distinct_map iteration_order_set [OF assms(3)])
  moreover have "\<forall>p \<in> set (rng groups). \<exists>i m. publicMSP L (snd p) = Inr (i, m) \<and> i \<notin> set (keys (byID \<lparr>orgs = all, byID = [], byName = []\<rparr>))"
    using msp by (simp add: iteration_order_set [OF assms(3)] keys_def)
  ultimately obtain st where st: "rfold (index_target L) (rng groups) \<lparr>orgs = all, byID = [], byName = []\<rparr> = Inr st"
    using index_target_total by blast
  from index_target_loop [OF st wf] st show ?thesis
    by (simp add: iteration_order_map_of [OF assms(3,2)])
qed

lemma reuseMSPs_again:
  assumes "reuseMSPs L rng target sources = Inr target'" "wf_map (group_subs (application target))"
    "application_group (cConfig target) \<noteq> None" "iteration_order rng" "iteration_order rng'"
  shows "reuseMSPs L rng' target' sources = Inr target'"
proof -
  from reuseMSPs_Inr [OF assms(1,2,4)] obtain st where target': "target' = with_orgs (orgs st) target"
    and inv: "reuse_inv L (may_have target sources) st"
    and sources: "\<forall>channel \<in> set (keys sources). \<forall>name g. map_of (source_orgs sources channel) name = Some g \<longrightarrow> indexed L st g"
    by blast
  have groups: "group_subs (application target') = orgs st"
    using application_with_orgs [OF assms(3)] target' by simp
  have wf: "wf_map (orgs st)" and idx: "indexes L (map_of (orgs st)) (byID st) (byName st)"
    using inv by (simp_all add: reuse_inv_def)
  from index_target_restart [OF idx wf assms(5)] obtain st2 where
    st2: "rfold (index_target L) (rng' (orgs st)) \<lparr>orgs = orgs st, byID = [], byName = []\<rparr> = Inr st2"
    and idx2: "orgs st2 = orgs st" "indexes L (map_of (orgs st)) (byID st2) (byName st2)" by blast
  have "indexed L st2 g" if g: "channel \<in> set (keys sources)" "map_of (source_orgs sources channel) name = Some g"
    for channel name g
  proof -
    from sources g obtain i m where m: "publicMSP L g = Inr (i, m)" "map_of (byID st) i = Some m"
      unfolding indexed_def by blast
    from indexes_org [OF idx m] obtain name' g' where "map_of (orgs st) name' = Some g'" "publicMSP L g' = Inr (i, m)" by blast
    then have "map_of (byID st2) i = Some m" using idx2(2) unfolding indexes_def by fastforce
    with m show ?thesis unfolding indexed_def by blast
  qed
  then have "rfold (add_source L sources) (sortedKeys sources) st2 = Inr st2"
    by (intro add_sources_noop) simp
  then show ?thesis unfolding reuseMSPs_def Let_def groups using st2 idx2 target' by simp
qed

text \<open>The order of the first loop is irrelevant: the indexes are the same maps, and only they are looked up.\<close>

lemma indexes_determined:
  assumes "indexes L G ids names" "indexes L G ids' names'"
  shows "map_of names' = map_of names" "map_of ids' = map_of ids"
proof -
  have name: "map_of names' n = map_of names n" for n
  proof (cases "G n")
    case None
    then have "n \<notin> dom (map_of names)" "n \<notin> dom (map_of names')" using assms by (auto simp: indexes_def)
    then show ?thesis by (simp add: domIff)
  next
    case (Some g)
    with assms show ?thesis unfolding indexes_def by fastforce
  qed
  then show names: "map_of names' = map_of names" by (rule ext)
  have "map_of ids' i = map_of ids i" for i
  proof (cases "i \<in> ran (map_of names)")
    case False
    then have "i \<notin> dom (map_of ids)" "i \<notin> dom (map_of ids')" using assms names by (auto simp: indexes_def)
    then show ?thesis by (simp add: domIff)
  next
    case True
    then obtain n where n: "map_of names n = Some i" by (auto simp: ran_def)
    then obtain g where "G n = Some g" using assms(1) unfolding indexes_def by blast
    with assms n names show ?thesis unfolding indexes_def by fastforce
  qed
  then show "map_of ids' = map_of ids" by (rule ext)
qed

definition alike :: "reuse_state \<Rightarrow> reuse_state \<Rightarrow> bool" where
  "alike st st' \<longleftrightarrow> orgs st' = orgs st \<and> map_of (byID st') = map_of (byID st) \<and> map_of (byName st') = map_of (byName st)"

lemma add_source_org_alike:
  "add_source_org L channel groups name st = Inr st1 \<Longrightarrow> alike st st' \<Longrightarrow>
   \<exists>st1'. add_source_org L channel groups name st' = Inr st1' \<and> alike st1 st1'"
  by (auto simp: add_source_org_def alike_def Let_def)

lemma rfold_alike:
  assumes "\<And>x st st' st1. f x st = Inr st1 \<Longrightarrow> alike st st' \<Longrightarrow> \<exists>st1'. f x st' = Inr st1' \<and> alike st1 st1'"
  shows "rfold f xs st = Inr st1 \<Longrightarrow> alike st st' \<Longrightarrow> \<exists>st1'. rfold f xs st' = Inr st1' \<and> alike st1 st1'"
proof (induction xs arbitrary: st st')
  case (Cons x xs)
  from Cons.prems(1) obtain st2 where 2: "f x st = Inr st2" "rfold f xs st2 = Inr st1" by auto
  from assms [OF 2(1) Cons.prems(2)] obtain st2' where 3: "f x st' = Inr st2'" "alike st2 st2'" by blast
  from Cons.IH [OF 2(2) 3(2)] 3(1) show ?case by auto
qed auto

lemma add_source_alike:
  "add_source L sources channel st = Inr st1 \<Longrightarrow> alike st st' \<Longrightarrow>
   \<exists>st1'. add_source L sources channel st' = Inr st1' \<and> alike st1 st1'"
  unfolding add_source_def Let_def by (rule rfold_alike [OF add_source_org_alike])

lemma reuseMSPs_order:
  assumes "reuseMSPs L rng target sources = Inr target'" "wf_map (group_subs (application target))"
    "iteration_order rng" "iteration_order rng'"
  shows "reuseMSPs L rng' target sources = Inr target'"
proof -
  let ?groups = "group_subs (application target)"
  let ?st = "\<lparr>orgs = ?groups, byID = [], byName = []\<rparr>"
  from assms(1) obtain st st1 where 1: "rfold (index_target L) (rng ?groups) ?st = Inr st"
    "rfold (add_source L sources) (sortedKeys sources) st = Inr st1" "target' = with_orgs (orgs st1) target"
    by (auto simp: reuseMSPs_def Let_def)
  have "wf_map (rng ?groups)" using assms(2,3) by (simp add: iteration_order_wf)
  note loop = index_target_loop [OF 1(1) this, unfolded iteration_order_map_of [OF assms(3,2)]]
  from index_target_restart [OF conjunct2 [OF loop] assms(2,4), of ?groups] obtain st' where
    2: "rfold (index_target L) (rng' ?groups) ?st = Inr st'" "orgs st' = ?groups"
      "indexes L (map_of ?groups) (byID st') (byName st')" by blast
  have "alike st st'" using loop 2 indexes_determined [OF conjunct2 [OF loop] 2(3)] by (simp add: alike_def)
  have "\<exists>st1'. rfold (add_source L sources) (sortedKeys sources) st' = Inr st1' \<and> alike st1 st1'"
    by (rule rfold_alike [OF _ 1(2) \<open>alike st st'\<close>]) (rule add_source_alike)
  then obtain st1' where "rfold (add_source L sources) (sortedKeys sources) st' = Inr st1'" "alike st1 st1'" by blast
  with 2(1) 1(3) show ?thesis by (auto simp: reuseMSPs_def Let_def alike_def)
qed

subsection \<open>Equality of configurations\<close>

text \<open>
  \<^verbatim>\<open>proto.Equal\<close>: map fields are compared as maps, whatever order they are kept in.
\<close>

fun group_equal :: "config_group \<Rightarrow> config_group \<Rightarrow> bool" where
  "group_equal (ConfigGroup subs vals other) g \<longleftrightarrow>
     other = group_other g \<and>
     set (keys vals) = set (keys (group_values g)) \<and>
     (\<forall>k \<in> set (keys vals). map_of vals k = map_of (group_values g) k) \<and>
     set (keys subs) = set (keys (group_subs g)) \<and>
     (\<forall>p \<in> set subs. case map_of (group_subs g) (fst p) of None \<Rightarrow> False | Some g' \<Rightarrow> group_equal (snd p) g')"

definition config_equal :: "pb_config \<Rightarrow> pb_config \<Rightarrow> bool" where
  "config_equal a b \<longleftrightarrow> Sequence a = Sequence b \<and>
     (case (ChannelGroup a, ChannelGroup b) of
        (None, None) \<Rightarrow> True
      | (Some g, Some g') \<Rightarrow> group_equal g g'
      | _ \<Rightarrow> False)"

definition same_config :: "pb_config option \<Rightarrow> pb_config option \<Rightarrow> bool" where
  "same_config a b \<longleftrightarrow> (case (a, b) of (None, None) \<Rightarrow> True | (Some x, Some y) \<Rightarrow> config_equal x y | _ \<Rightarrow> False)"

lemma group_equal_keys: "group_equal g g' \<Longrightarrow> set (keys (group_subs g)) = set (keys (group_subs g'))"
  by (cases g) simp

lemma same_config_application:
  assumes "same_config (Config a) (Config b)"
  shows "application_group a = None \<longleftrightarrow> application_group b = None"
proof -
  have "map_of (group_subs g) k = None \<longleftrightarrow> map_of (group_subs g') k = None" if "group_equal g g'" for g g' k
    using group_equal_keys [OF that] by (metis domIff set_keys)
  with assms show ?thesis
    by (auto simp: application_group_def same_config_def config_equal_def split: option.splits)
qed

subsection \<open>Decoding and encoding\<close>

text \<open>What a decoded configuration satisfies, and the configuration with other organizations too.\<close>

definition decoded :: "'l config_lib_scheme \<Rightarrow> channel_config \<Rightarrow> bool" where
  "decoded L c \<longleftrightarrow> cChannel c \<noteq> [] \<and> application_group (cConfig c) \<noteq> None \<and>
     (\<exists>h header. pHeader (cPayload c) = Some h \<and> pb_ChannelHeader L (ChannelHeader h) = Inr header \<and>
        hType header = HeaderType_CONFIG \<and> ChannelId header = cChannel c)"

lemma decodeChannelConfig_Inr:
  "decodeChannelConfig L bs = Inr c \<longleftrightarrow>
     decoded L c \<and>
     (\<exists>env. select_envelope L bs = Inr (env, cBlock c) \<and> pb_Envelope L env = Inr (cEnvelope c) \<and>
        pb_Payload L (Payload (cEnvelope c)) = Inr (cPayload c) \<and> pb_ConfigEnvelope L (pData (cPayload c)) = Inr (cConfig c))"
  by (cases c) (auto simp: decodeChannelConfig_def decoded_def)

lemma decoded_with_orgs: "decoded L c \<Longrightarrow> decoded L (with_orgs groups c)"
  by (auto simp: decoded_def)

lemma select_envelope_plain:
  "(\<And>b. pb_Block L bs = Inr b \<Longrightarrow> bHeader b = None \<or> bData b = None) \<Longrightarrow> select_envelope L bs = Inr (bs, None)"
proof (cases "pb_Block L bs")
  case (Inr b)
  moreover assume "\<And>b. pb_Block L bs = Inr b \<Longrightarrow> bHeader b = None \<or> bData b = None"
  ultimately show ?thesis by (auto simp: select_envelope_def split: option.splits)
qed (simp add: select_envelope_def)

lemma encode_Inr:
  "encode L c = Inr out \<longleftrightarrow>
     (\<exists>conf payload. wire_ConfigEnvelope L (cConfig c) = Inr conf \<and>
        wire_Payload L ((cPayload c)\<lparr>pData := conf\<rparr>) = Inr payload \<and>
        wire_Envelope L \<lparr>Payload = payload, Signature = []\<rparr> = Inr out)"
  by (auto simp: encode_def)

text \<open>
  What the code relies on of protobuf. A message that was written is read back, a configuration up to
  the order of its maps. Proto3 puts a bytes field on the wire exactly when it is not empty, so an
  envelope is the fields 1 (payload) and 2 (signature) that are not empty. A block, whose fields 1 and 2
  are messages, has a header or data exactly when field 1 or field 2 occurs on the wire.
\<close>

definition envelope_fields :: "pb_envelope \<Rightarrow> (nat \<times> bytes) list" where
  "envelope_fields e = filter (\<lambda>(f, v). v \<noteq> []) [(1, Payload e), (2, Signature e)]"

definition wire_roundtrip :: "'l config_lib_scheme \<Rightarrow> channel_config \<Rightarrow> bool" where
  "wire_roundtrip L c \<longleftrightarrow>
     (\<forall>out. wire_ConfigEnvelope L (cConfig c) = Inr out \<longrightarrow>
        (\<exists>c'. pb_ConfigEnvelope L out = Inr c' \<and> same_config (Config c') (Config (cConfig c)))) \<and>
     (\<forall>p out. wire_Payload L p = Inr out \<longrightarrow> pb_Payload L out = Inr p) \<and>
     (\<forall>e out. wire_Envelope L e = Inr out \<longrightarrow> pb_Envelope L out = Inr e \<and> message_form (envelope_fields e) out) \<and>
     (\<forall>bs flds b. message_form flds bs \<longrightarrow> pb_Block L bs = Inr b \<longrightarrow>
        (bHeader b \<noteq> None \<longleftrightarrow> 1 \<in> fst ` set flds) \<and> (bData b \<noteq> None \<longleftrightarrow> 2 \<in> fst ` set flds))"

text \<open>So an envelope without a signature is never taken for a block with data.\<close>

lemma unsigned_is_no_block:
  assumes "wire_roundtrip L c" "wire_Envelope L \<lparr>Payload = p, Signature = []\<rparr> = Inr out" "pb_Block L out = Inr b"
  shows "bData b = None"
proof -
  have "message_form (envelope_fields \<lparr>Payload = p, Signature = []\<rparr>) out"
    using assms(1,2) unfolding wire_roundtrip_def by blast
  moreover have "2 \<notin> fst ` set (envelope_fields \<lparr>Payload = p, Signature = []\<rparr>)" by (simp add: envelope_fields_def)
  ultimately show ?thesis using assms(1,3) unfolding wire_roundtrip_def by blast
qed

lemma encode_decodes:
  assumes "wire_roundtrip L c" "decoded L c" "encode L c = Inr out"
  shows "\<exists>c'. decodeChannelConfig L out = Inr c' \<and> cChannel c' = cChannel c \<and>
    same_config (Config (cConfig c')) (Config (cConfig c)) \<and> Signature (cEnvelope c') = [] \<and> cBlock c' = None"
proof -
  from assms(3) obtain conf payload where wire: "wire_ConfigEnvelope L (cConfig c) = Inr conf"
    "wire_Payload L ((cPayload c)\<lparr>pData := conf\<rparr>) = Inr payload"
    "wire_Envelope L \<lparr>Payload = payload, Signature = []\<rparr> = Inr out"
    by (auto simp: encode_Inr)
  note rt = assms(1) [unfolded wire_roundtrip_def]
  have read: "pb_Payload L payload = Inr ((cPayload c)\<lparr>pData := conf\<rparr>)"
    "pb_Envelope L out = Inr \<lparr>Payload = payload, Signature = []\<rparr>"
    using rt [THEN conjunct2, THEN conjunct1] rt [THEN conjunct2, THEN conjunct2, THEN conjunct1] wire(2,3) by blast+
  have plain: "bHeader b = None \<or> bData b = None" if "pb_Block L out = Inr b" for b
    using unsigned_is_no_block [OF assms(1) wire(3) that] by simp
  from rt [THEN conjunct1] wire(1) obtain config where config: "pb_ConfigEnvelope L conf = Inr config"
    "same_config (Config config) (Config (cConfig c))" by blast
  let ?c = "\<lparr>cEnvelope = \<lparr>Payload = payload, Signature = []\<rparr>, cPayload = (cPayload c)\<lparr>pData := conf\<rparr>,
    cConfig = config, cChannel = cChannel c, cBlock = None\<rparr>"
  have "decoded L ?c" using assms(2) same_config_application [OF config(2)] by (auto simp: decoded_def)
  then have "decodeChannelConfig L out = Inr ?c"
    using read select_envelope_plain [of L out] plain config(1) by (simp add: decodeChannelConfig_Inr)
  with config(2) show ?thesis by auto
qed

end
