(* ===== verification/ConfigProps.thy ===== *)
theory ConfigProps
  imports ChannelConfig
begin

text \<open>
  The properties of the channel configurations (theory ChannelConfig), with a small wire format for
  the witnesses: one byte stands for each message.
\<close>

subsection \<open>An example\<close>

definition ex_org :: "byte \<Rightarrow> config_group" where
  "ex_org b = ConfigGroup [] [(''MSP'', [b])] []"

definition ex_conf :: "(string, config_group) gomap \<Rightarrow> pb_config_envelope" where
  "ex_conf groups = \<lparr>Config = Some \<lparr>Sequence = 0,
     ChannelGroup = Some (ConfigGroup [(''Application'', ConfigGroup groups [] [])] [] [])\<rparr>, LastUpdate = []\<rparr>"

definition ex_payload :: "bytes \<Rightarrow> pb_payload" where
  "ex_payload bs = \<lparr>pHeader = Some \<lparr>ChannelHeader = [1], SignatureHeader = []\<rparr>, pData = bs\<rparr>"

definition ex_channel :: "string \<Rightarrow> (string, config_group) gomap \<Rightarrow> channel_config" where
  "ex_channel name groups = \<lparr>cEnvelope = \<lparr>Payload = [4], Signature = [5]\<rparr>, cPayload = ex_payload [2],
     cConfig = ex_conf groups, cChannel = name, cBlock = None\<rparr>"

definition ex_target :: channel_config where
  "ex_target = ex_channel ''net'' [(''o1'', ex_org 65)]"

definition ex_sources :: "(string, channel_config) gomap" where
  "ex_sources = [(''c'', ex_channel ''c'' [(''o2'', ex_org 66), (''o1'', ex_org 65)])]"

definition ex_merged :: channel_config where
  "ex_merged = ex_channel ''net'' [(''o1'', ex_org 65), (''o2'', ex_org 66)]"

text \<open>
  The MSP of an organization is named by its byte. An envelope is its payload followed by its signature,
  a payload is \<open>[4]\<close>, \<open>[2]\<close> or \<open>[3]\<close>, and \<open>[2]\<close> and \<open>[3]\<close> are the configurations of the
  example before and after the reuse.
\<close>

definition ex_config_lib :: config_lib where
  "ex_config_lib = \<lparr>
     pb_Block = (\<lambda>bs. Inl (Ext ''block'')),
     pb_Envelope = (\<lambda>bs. case bs of n # rest \<Rightarrow> Inr \<lparr>Payload = take (unat n) rest, Signature = drop (unat n) rest\<rparr> | [] \<Rightarrow> Inl (Ext ''envelope'')),
     pb_Payload = (\<lambda>bs. Inr (ex_payload bs)),
     pb_ChannelHeader = (\<lambda>bs. Inr \<lparr>hType = 1, ChannelId = ''net''\<rparr>),
     pb_ConfigEnvelope = (\<lambda>bs. if bs = [3] then Inr (cConfig ex_merged) else Inr (cConfig ex_target)),
     pb_MSPConfig = (\<lambda>bs. Inr \<lparr>mType = 0, mConfig = bs\<rparr>),
     pb_FabricMSPConfig = (\<lambda>bs. Inr \<lparr>mspName = string_of_bytes bs, hasSigner = False\<rparr>),
     pb_IdemixMSPConfig = (\<lambda>bs. Inl (Ext ''idemix'')),
     wire_ConfigEnvelope = (\<lambda>c. if c = cConfig ex_merged then Inr [3] else Inl (Ext ''config'')),
     wire_Payload = (\<lambda>p. if p = ex_payload (pData p) then Inr (pData p) else Inl (Ext ''payload'')),
     wire_Envelope = (\<lambda>e. if length (Payload e) < 256 then Inr (of_nat (length (Payload e)) # Payload e @ Signature e)
       else Inl (Ext ''envelope''))\<rparr>"

lemma ex_reuse: "reuseMSPs ex_config_lib rev ex_target ex_sources = Inr ex_merged"
  by code_simp

lemma ex_target_wf: "wf_map (group_subs (application ex_target))" "application_group (cConfig ex_target) \<noteq> None"
  by code_simp+

lemma ex_merged_decoded: "decoded ex_config_lib ex_merged"
  by (simp add: decoded_def ex_merged_def ex_channel_def ex_conf_def ex_payload_def application_group_def
      ex_config_lib_def HeaderType_CONFIG_def)

subsection \<open>Reuse of MSPs\<close>

text \<open>
  What the reuse demands of an organization: its group has an MSP value that decodes to a Fabric or
  Idemix definition with a name (the MSP ID) and without a signing identity or signer.
\<close>

definition public_definition :: "'l config_lib_scheme \<Rightarrow> config_group \<Rightarrow> string \<Rightarrow> pb_msp_config \<Rightarrow> bool" where
  "public_definition L g mspid msp \<longleftrightarrow>
     (\<exists>value material. map_of (group_values g) ''MSP'' = Some value \<and> pb_MSPConfig L value = Inr msp \<and>
        (mType msp = 0 \<and> pb_FabricMSPConfig L (mConfig msp) = Inr material \<or>
         mType msp = 1 \<and> pb_IdemixMSPConfig L (mConfig msp) = Inr material) \<and>
        mspName material = mspid \<and> mspid \<noteq> [] \<and> \<not> hasSigner material)"

lemma publicMSP_public_definition: "publicMSP L g = Inr (mspid, msp) \<longleftrightarrow> public_definition L g mspid msp"
  unfolding public_definition_def by (rule publicMSP_Inr)

text \<open>
  C23. The target configuration after reusing the source channels' MSPs, in whatever order Go visits the
  target's organizations: every organization of the target is kept as it was, every organization of every
  source channel has its MSP in the target under the same MSP ID with the same definition, nothing else
  is added (a new organization is a source organization under its own name), no MSP ID occurs twice,
  every MSP of the result carries public material only (a named Fabric or Idemix definition without
  signing identity or signer), and nothing but the organizations of the application group has changed.
\<close>

theorem reused_msps_complete:
  assumes "reuseMSPs L rng target sources = Inr target'" "iteration_order rng" "wf_map (group_subs (application target))"
    "application_group (cConfig target) \<noteq> None"
  shows "\<exists>groups. target' = with_orgs groups target \<and> group_subs (application target') = groups \<and> wf_map groups \<and>
    map_of (group_subs (application target)) \<subseteq>\<^sub>m map_of groups \<and>
    (\<forall>channel \<in> set (keys sources). \<forall>name g.
       map_of (group_subs (application (the (map_of sources channel)))) name = Some g \<longrightarrow>
       (\<exists>mspid msp name' g'. public_definition L g mspid msp \<and> map_of groups name' = Some g' \<and>
          public_definition L g' mspid msp)) \<and>
    (\<forall>name g. map_of groups name = Some g \<longrightarrow>
       (map_of (group_subs (application target)) name = Some g \<or>
        (\<exists>channel \<in> set (keys sources). map_of (group_subs (application (the (map_of sources channel)))) name = Some g)) \<and>
       (\<exists>mspid msp. public_definition L g mspid msp)) \<and>
    (\<forall>name g name' g' mspid msp msp'. map_of groups name = Some g \<and> map_of groups name' = Some g' \<and>
       public_definition L g mspid msp \<and> public_definition L g' mspid msp' \<longrightarrow> name' = name)"
proof -
  from reuseMSPs_Inr [OF assms(1,3,2)] obtain st where target': "target' = with_orgs (orgs st) target"
    and inv: "reuse_inv L (may_have target sources) st"
    and kept: "map_of (group_subs (application target)) \<subseteq>\<^sub>m map_of (orgs st)"
    and sources: "\<forall>channel \<in> set (keys sources). \<forall>name g. map_of (source_orgs sources channel) name = Some g \<longrightarrow> indexed L st g"
    by blast
  have groups: "group_subs (application target') = orgs st" using application_with_orgs [OF assms(4)] target' by simp
  have idx: "indexes L (map_of (orgs st)) (byID st) (byName st)" using inv by (simp add: reuse_inv_def)
  have source: "\<exists>mspid msp name' g'. publicMSP L g = Inr (mspid, msp) \<and> map_of (orgs st) name' = Some g' \<and> publicMSP L g' = Inr (mspid, msp)"
    if "indexed L st g" for g
    using that indexes_org [OF idx] unfolding indexed_def by blast
  have public: "\<exists>mspid msp. publicMSP L g = Inr (mspid, msp)" if "map_of (orgs st) name = Some g" for name g
    using that idx unfolding indexes_def by blast
  show ?thesis
    unfolding publicMSP_public_definition [symmetric]
    using target' groups kept inv sources indexes_unique [OF idx] source public
    unfolding reuse_inv_def may_have_def source_orgs_def by blast
qed

theorem reused_msps_complete_witness:
  "\<exists>mspid msp name' g'. public_definition ex_config_lib (ex_org 66) mspid msp \<and>
     map_of (group_subs (application ex_merged)) name' = Some g' \<and> public_definition ex_config_lib g' mspid msp"
proof -
  have "''c'' \<in> set (keys ex_sources)"
    "map_of (group_subs (application (the (map_of ex_sources ''c'')))) ''o2'' = Some (ex_org 66)"
    by code_simp+
  with reused_msps_complete [OF ex_reuse iteration_order_examples(2) ex_target_wf] show ?thesis by blast
qed

text \<open>
  Reusing the MSPs is idempotent: run again on its own result, with the same sources, it succeeds and
  changes nothing, so an import that is repeated writes the same configuration.
\<close>

lemma reuse_is_idempotent:
  assumes "reuseMSPs L rng target sources = Inr target'" "wf_map (group_subs (application target))"
    "application_group (cConfig target) \<noteq> None" "iteration_order rng" "iteration_order rng'"
  shows "reuseMSPs L rng' target' sources = Inr target'"
  by (rule reuseMSPs_again [OF assms])

lemma reuse_is_idempotent_witness: "reuseMSPs ex_config_lib (\<lambda>m. m) ex_merged ex_sources = Inr ex_merged"
  by (rule reuse_is_idempotent [OF ex_reuse ex_target_wf iteration_order_examples(2,1)])

subsection \<open>Decoding and encoding\<close>

text \<open>
  C35. A configuration that is decoded names a channel, is of type CONFIG, has an application group, and
  carries a block number exactly when the input was a config block, which then held one envelope.
\<close>

theorem decoded_config_valid:
  assumes "decodeChannelConfig L bs = Inr c"
  shows "cChannel c \<noteq> [] \<and> application_group (cConfig c) \<noteq> None \<and>
    (\<exists>h header. pHeader (cPayload c) = Some h \<and> pb_ChannelHeader L (ChannelHeader h) = Inr header \<and>
       hType header = 1 \<and> ChannelId header = cChannel c) \<and>
    (\<forall>n. cBlock c = Some n \<longleftrightarrow> (\<exists>b env. pb_Block L bs = Inr b \<and> bHeader b = Some n \<and> bData b = Some [env]))"
proof -
  from assms obtain env where env: "decoded L c" "select_envelope L bs = Inr (env, cBlock c)"
    by (auto simp: decodeChannelConfig_Inr)
  have "cBlock c = Some n \<longleftrightarrow> (\<exists>b env. pb_Block L bs = Inr b \<and> bHeader b = Some n \<and> bData b = Some [env])" for n
    using env(2) by (auto simp: select_envelope_def split: sum.splits option.splits list.splits)
  with env(1) show ?thesis by (auto simp: decoded_def HeaderType_CONFIG_def)
qed

theorem decoded_config_valid_witness: "application_group (cConfig ex_target) \<noteq> None"
proof -
  have "decodeChannelConfig ex_config_lib [1, 2, 9] =
      Inr (ex_target\<lparr>cEnvelope := \<lparr>Payload = [2], Signature = [9]\<rparr>\<rparr>)" by code_simp
  from decoded_config_valid [OF this] show ?thesis by simp
qed

text \<open>
  A protobuf library for the witness, executable: envelopes, payloads and blocks are real messages, read
  with the parser of theory Codec. Only the configuration itself is a table of two entries.
\<close>

definition proto_message :: "(byte \<times> bytes) list \<Rightarrow> bytes res" where
  "proto_message fs = (let fs = filter (\<lambda>(f, v). v \<noteq> []) fs in
     if writable_fields fs then Inr (record_bytes fs) else Inl (Ext ''message''))"

definition proto_field :: "(uint64 \<rightharpoonup> bytes) \<Rightarrow> uint64 \<Rightarrow> bytes" where
  "proto_field m f = (case m f of None \<Rightarrow> [] | Some v \<Rightarrow> v)"

definition proto_wire_Envelope :: "pb_envelope \<Rightarrow> bytes res" where
  "proto_wire_Envelope e = proto_message [(1, Payload e), (2, Signature e)]"

definition proto_Envelope :: "bytes \<Rightarrow> pb_envelope res" where
  "proto_Envelope bs = rbind (protobufBytes bs) (\<lambda>m. Inr \<lparr>Payload = proto_field m 1, Signature = proto_field m 2\<rparr>)"

text \<open>A header without content is a field too; the header is written as a field that is always there.\<close>

definition proto_wire_Payload :: "pb_payload \<Rightarrow> bytes res" where
  "proto_wire_Payload p =
     rbind (case pHeader p of
         None \<Rightarrow> Inr []
       | Some h \<Rightarrow> rbind (proto_message [(1, ChannelHeader h), (2, SignatureHeader h)]) (\<lambda>bs. Inr [(1, bs)])) (\<lambda>header.
       let fs = header @ filter (\<lambda>(f, v). v \<noteq> []) [(2, pData p)] in
       if writable_fields fs then Inr (record_bytes fs) else Inl (Ext ''message''))"

definition proto_Payload :: "bytes \<Rightarrow> pb_payload res" where
  "proto_Payload bs = rbind (protobufBytes bs) (\<lambda>m.
     case m 1 of
       None \<Rightarrow> Inr \<lparr>pHeader = None, pData = proto_field m 2\<rparr>
     | Some header \<Rightarrow> rbind (protobufBytes header) (\<lambda>h.
         Inr \<lparr>pHeader = Some \<lparr>ChannelHeader = proto_field h 1, SignatureHeader = proto_field h 2\<rparr>, pData = proto_field m 2\<rparr>))"

text \<open>A block: the number is the varint in field 1 of the header, the data holds one envelope.\<close>

definition proto_Block :: "bytes \<Rightarrow> pb_block res" where
  "proto_Block bs = rbind (protobufBytes bs) (\<lambda>m. Inr \<lparr>
     bHeader = map_option (\<lambda>header. case consumeUvarint header 1 of Inl _ \<Rightarrow> 0 | Inr (n, _) \<Rightarrow> n) (m 1),
     bData = map_option (\<lambda>block_data. case protobufBytes block_data of Inl _ \<Rightarrow> [] | Inr d \<Rightarrow> (case d 1 of None \<Rightarrow> [] | Some e \<Rightarrow> [e])) (m 2)\<rparr>)"

definition proto_lib :: config_lib where
  "proto_lib = ex_config_lib\<lparr>pb_Block := proto_Block, pb_Envelope := proto_Envelope, pb_Payload := proto_Payload,
     wire_Payload := proto_wire_Payload, wire_Envelope := proto_wire_Envelope\<rparr>"

lemma proto_reads_a_block:
  "decodeChannelConfig proto_lib ([10, 2, 8, 7] @ [18, 15, 10, 13] @ [10, 8, 10, 3, 10, 1, 1, 18, 1, 3] @ [18, 1, 9]) =
     Inr (ex_merged\<lparr>cEnvelope := \<lparr>Payload = [10, 3, 10, 1, 1, 18, 1, 3], Signature = [9]\<rparr>,
       cPayload := ex_payload [3], cBlock := Some 7\<rparr>)"
  by code_simp

lemma proto_field_filter:
  assumes "distinct (map fst fs)" "(f, v) \<in> set fs"
  shows "proto_field (field_map (filter (\<lambda>(f, v). v \<noteq> []) fs)) (ucast f) = v"
  using assms
proof (induction fs)
  case (Cons p fs)
  have none: "field_map (filter (\<lambda>(f, v). v \<noteq> []) fs) (ucast f) = None" if "f \<notin> fst ` set fs"
    using that by (intro field_map_None) auto
  obtain g w where p: "p = (g, w)" by (cases p)
  show ?case
  proof (cases "g = f")
    case True
    with Cons.prems p have "f \<notin> fst ` set fs" "v = w" by force+
    with True none show ?thesis by (auto simp: p codec_simps proto_field_def)
  next
    case False
    with Cons p show ?thesis by (auto simp: codec_simps proto_field_def ucast_byte_inject)
  qed
qed simp

lemma proto_message_fields:
  assumes "proto_message [(1, a), (2, b)] = Inr out"
  shows "\<exists>m. protobufBytes out = Inr m \<and> proto_field m 1 = a \<and> proto_field m 2 = b"
proof -
  let ?fs = "[(1, a), (2, b)]"
  from assms have "writable_fields (filter (\<lambda>(f, v). v \<noteq> []) ?fs)" "out = record_bytes (filter (\<lambda>(f, v). v \<noteq> []) ?fs)"
    by (auto simp: proto_message_def Let_def split: if_splits)
  with protobufBytes_record [of "filter (\<lambda>(f, v). v \<noteq> []) ?fs"]
    proto_field_filter [of ?fs 1 a] proto_field_filter [of ?fs 2 b] show ?thesis by simp
qed

lemma proto_Payload_wire:
  assumes "proto_wire_Payload p = Inr out"
  shows "proto_Payload out = Inr p"
proof -
  from assms obtain header where header: "case pHeader p of
         None \<Rightarrow> header = []
       | Some h \<Rightarrow> (\<exists>bs. proto_message [(1, ChannelHeader h), (2, SignatureHeader h)] = Inr bs \<and> header = [(1, bs)])"
    and fs: "writable_fields (header @ filter (\<lambda>(f, v). v \<noteq> []) [(2, pData p)])"
      "out = record_bytes (header @ filter (\<lambda>(f, v). v \<noteq> []) [(2, pData p)])"
    by (auto simp: proto_wire_Payload_def Let_def split: option.splits if_splits)
  note read = protobufBytes_record [OF fs(1), folded fs(2)]
  show ?thesis
  proof (cases "pHeader p")
    case None
    with header read show ?thesis by (cases p) (auto simp: proto_Payload_def codec_simps proto_field_def)
  next
    case (Some h)
    with header obtain bs where bs: "proto_message [(1, ChannelHeader h), (2, SignatureHeader h)] = Inr bs" "header = [(1, bs)]" by auto
    from proto_message_fields [OF bs(1)] read Some show ?thesis
      by (cases p; cases h) (auto simp: proto_Payload_def codec_simps proto_field_def bs(2))
  qed
qed

lemma proto_Block_fields:
  assumes "message_form flds bs" "proto_Block bs = Inr b"
  shows "bHeader b \<noteq> None \<longleftrightarrow> 1 \<in> fst ` set flds" "bData b \<noteq> None \<longleftrightarrow> 2 \<in> fst ` set flds"
proof -
  from assms(2) obtain m where m: "protobufBytes bs = Inr m" "bHeader b \<noteq> None \<longleftrightarrow> m 1 \<noteq> None" "bData b \<noteq> None \<longleftrightarrow> m 2 \<noteq> None"
    by (auto simp: proto_Block_def)
  from m(1) obtain fs where fs: "message_form fs bs" "fst ` set fs \<subseteq> {1..4}" "m = field_table fs"
    unfolding protobufBytes_form by blast
  have "fs = flds" by (rule message_form_unique [OF assms(1) fs(1)])
  moreover have "m (of_nat f) \<noteq> None \<longleftrightarrow> f \<in> fst ` set fs" if "f \<le> 4" for f
  proof -
    have "\<forall>f \<in> fst ` set fs. f \<le> 4" using fs(2) by auto
    from field_table_lookup [OF this that] show ?thesis by (simp add: fs(3) map_of_eq_None_iff)
  qed
  from this [of 1] this [of 2] have "m 1 \<noteq> None \<longleftrightarrow> 1 \<in> fst ` set fs" "m 2 \<noteq> None \<longleftrightarrow> 2 \<in> fst ` set fs" by simp_all
  ultimately show "bHeader b \<noteq> None \<longleftrightarrow> 1 \<in> fst ` set flds" "bData b \<noteq> None \<longleftrightarrow> 2 \<in> fst ` set flds"
    using m(2,3) by simp_all
qed

lemma proto_wire_roundtrip: "wire_roundtrip proto_lib ex_merged"
proof -
  have config: "\<exists>c'. pb_ConfigEnvelope proto_lib out = Inr c' \<and> same_config (Config c') (Config (cConfig ex_merged))"
    if "wire_ConfigEnvelope proto_lib (cConfig ex_merged) = Inr out" for out
  proof -
    have "same_config (Config (cConfig ex_merged)) (Config (cConfig ex_merged))" by code_simp
    with that show ?thesis by (auto simp: proto_lib_def ex_config_lib_def)
  qed
  have envelope: "pb_Envelope proto_lib out = Inr e \<and> message_form (envelope_fields e) out"
    if "wire_Envelope proto_lib e = Inr out" for e out
  proof -
    from that have out: "proto_message [(1, Payload e), (2, Signature e)] = Inr out"
      by (simp add: proto_lib_def proto_wire_Envelope_def)
    from proto_message_fields [OF this] have "pb_Envelope proto_lib out = Inr e"
      by (cases e) (auto simp: proto_lib_def proto_Envelope_def)
    moreover have "writable_fields (filter (\<lambda>(f, v). v \<noteq> []) [(1, Payload e), (2, Signature e)])"
      "out = record_bytes (filter (\<lambda>(f, v). v \<noteq> []) [(1, Payload e), (2, Signature e)])"
      using out by (auto simp: proto_message_def Let_def split: if_splits)
    from message_form_record_bytes [OF this(1)] this(2) have "message_form (envelope_fields e) out"
      by (auto simp: envelope_fields_def split: if_splits)
    ultimately show ?thesis ..
  qed
  have payload: "pb_Payload proto_lib out = Inr p" if "wire_Payload proto_lib p = Inr out" for p out
    using proto_Payload_wire [of p out] that by (simp add: proto_lib_def)
  have block: "(bHeader b \<noteq> None \<longleftrightarrow> 1 \<in> fst ` set flds) \<and> (bData b \<noteq> None \<longleftrightarrow> 2 \<in> fst ` set flds)"
    if "message_form flds bs" "pb_Block proto_lib bs = Inr b" for flds bs b
    by (intro conjI proto_Block_fields [OF that(1)]) (use that(2) in \<open>simp_all add: proto_lib_def\<close>)
  show ?thesis
    unfolding wire_roundtrip_def using config envelope payload block by blast
qed

lemma proto_merged_decoded: "decoded proto_lib ex_merged"
  using ex_merged_decoded by (simp add: decoded_def proto_lib_def)

lemma uvarint_small: "x < 0x80 \<Longrightarrow> uvarint_bytes x = [ucast x]"
  by (subst uvarint_bytes_simps) simp

lemma append_small_field: "length v < 128 \<Longrightarrow> appendField [] f v = (push_bit 3 f OR 2) # of_nat (length v) # v"
proof -
  assume "length v < 128"
  then have "uvarint_bytes (of_nat (length v)) = [ucast (of_nat (length v) :: uint64)]"
    by (intro uvarint_small) (simp add: word_less_nat_alt unat_of_nat64)
  moreover have "ucast (of_nat (length v) :: uint64) = (of_nat (length v) :: byte)"
    using \<open>length v < 128\<close> by (simp add: word_unat_eq_iff unsigned_ucast_eq unsigned_of_nat take_bit_nat_eq_self)
  ultimately show ?thesis by (simp add: appendField_def appendSized_append [of "[_]"] appendSized_bytes)
qed

lemma proto_encodes: "encode proto_lib ex_merged = Inr [10, 8, 10, 3, 10, 1, 1, 18, 1, 3]"
  by (simp add: encode_def proto_lib_def ex_config_lib_def proto_wire_Payload_def proto_wire_Envelope_def proto_message_def
      writable_fields_def field_number_def codec_simps append_small_field ex_merged_def ex_channel_def ex_payload_def Let_def)

text \<open>
  C36. The configuration the importer stores is a valid, unsigned envelope of the same channel and
  configuration: what \<^verbatim>\<open>encode\<close> writes decodes to the same channel ID and an equal configuration, carries no
  signature (none of the old envelope survives the change), and is not mistaken for a config block,
  because an unsigned envelope has no second field on the wire.
\<close>

theorem encoded_config_roundtrip:
  assumes "wire_roundtrip L c" "decoded L c" "encode L c = Inr out"
  shows "\<exists>c'. decodeChannelConfig L out = Inr c' \<and> cChannel c' = cChannel c \<and>
    same_config (Config (cConfig c')) (Config (cConfig c)) \<and> Signature (cEnvelope c') = [] \<and> cBlock c' = None"
  by (rule encode_decodes [OF assms])

theorem encoded_config_roundtrip_witness:
  "\<exists>c'. decodeChannelConfig proto_lib [10, 8, 10, 3, 10, 1, 1, 18, 1, 3] = Inr c' \<and> cChannel c' = ''net'' \<and>
     Signature (cEnvelope c') = [] \<and> cBlock c' = None"
proof -
  have "encode proto_lib ex_merged = Inr [10, 8, 10, 3, 10, 1, 1, 18, 1, 3]" by (rule proto_encodes)
  from encoded_config_roundtrip [OF proto_wire_roundtrip proto_merged_decoded this] obtain c' where
    "decodeChannelConfig proto_lib [10, 8, 10, 3, 10, 1, 1, 18, 1, 3] = Inr c'" "cChannel c' = cChannel ex_merged"
    "Signature (cEnvelope c') = []" "cBlock c' = None" by (elim exE conjE)
  moreover have "cChannel ex_merged = ''net''" by (simp add: ex_merged_def ex_channel_def)
  ultimately show ?thesis by (intro exI [of _ c']) simp
qed

end
