(* ===== verification/Prepare.thy ===== *)
theory Prepare
  imports Mappings Policy ChannelConfig
begin

text \<open>
  \<^verbatim>\<open>internal/migrate/config.go\<close>, lines 389 to 584: reading the committed chaincode definitions
  from the public records of a snapshot, and preparing the endorsement policy of every target
  namespace. The lifecycle messages, the channel configuration bundle and the committer's checks are
  parameters. Go visits the entries of a map in any order, a new one for every loop, so
  \<open>preparePolicies\<close> takes the orders of its three loops over maps as an argument: the organizations of
  the target, the definitions of each channel, and the organizations of the source channel for each
  private collection.
\<close>

subsection \<open>Messages and libraries\<close>

record state_data =
  GetInt64 :: int
  GetBytes :: bytes

record legacy_chaincode =
  lcName :: string
  lcVscc :: string
  lcPolicy :: "sig_envelope option"

record validation_info =
  ValidationPlugin :: string
  ValidationParameter :: bytes

record static_collection =
  scName :: string
  scEndorsementPolicy :: "app_policy option"

text \<open>A collection configuration; \<open>None\<close> when it is not a static one.\<close>

type_synonym collection = "static_collection option"

record lifecycle_lib =
  pb_StateMetadata :: "bytes \<Rightarrow> string res"
  pb_StateData :: "bytes \<Rightarrow> state_data res"
  pb_ChaincodeData :: "bytes \<Rightarrow> legacy_chaincode res"
  pb_ValidationInfo :: "bytes \<Rightarrow> validation_info res"
  pb_ApplicationPolicy :: "bytes \<Rightarrow> app_policy res"
  pb_Collections :: "bytes \<Rightarrow> collection list res"

text \<open>
  A \<^verbatim>\<open>channelconfig.Bundle\<close>: its policy manager, the MSP version of its capabilities and, when it
  has an application configuration, the MSP ID of each organization.
\<close>

record 'o channel_bundle =
  PolicyManager :: "'o policy_manager"
  MSPVersion :: nat
  Organizations :: "(string, string) gomap option"

record 'o bundle_lib =
  NewBundle :: "string \<Rightarrow> pb_config option \<Rightarrow> 'o channel_bundle res"
  ValidateConfigTx :: "bytes \<Rightarrow> unit res"
  CreateNamespaceVerifier :: "string \<Rightarrow> bytes \<Rightarrow> 'o channel_bundle \<Rightarrow> unit res"
  SignedByAnyMember :: "string list \<Rightarrow> sig_envelope"

definition bundle_of :: "('o, 'l) bundle_lib_scheme \<Rightarrow> channel_config \<Rightarrow> 'o channel_bundle res" where
  "bundle_of B c = NewBundle B (cChannel c) (Config (cConfig c))"

subsection \<open>readChaincodePolicies\<close>

record chaincode_policy =
  cp_application :: app_policy
  cp_collections :: "collection list"

text \<open>The map \<^verbatim>\<open>fields\<close>; a nil slice is \<open>None\<close>, and reads as no bytes.\<close>

type_synonym ledger_fields = "(string, bytes option) gomap"

definition field :: "ledger_fields \<Rightarrow> string \<Rightarrow> bytes option" where
  "field flds k = (case map_of flds k of None \<Rightarrow> None | Some v \<Rightarrow> v)"

definition field_bytes :: "ledger_fields \<Rightarrow> string \<Rightarrow> bytes" where
  "field_bytes flds k = (case field flds k of None \<Rightarrow> [] | Some bs \<Rightarrow> bs)"

definition metadata_key :: "string \<Rightarrow> string" where
  "metadata_key ns = ''namespaces/metadata/'' @ ns"

definition field_key :: "string \<Rightarrow> string \<Rightarrow> string" where
  "field_key ns name = ''namespaces/fields/'' @ ns @ ''/'' @ name"

definition lscc_key :: "string \<Rightarrow> string" where
  "lscc_key key = ''lscc/'' @ key"

text \<open>What one mapping makes of a record of the lifecycle or legacy namespace.\<close>

definition collect_field :: "string \<Rightarrow> snapshot_record \<Rightarrow> mapping \<Rightarrow> ledger_fields \<Rightarrow> ledger_fields" where
  "collect_field channel rec m flds =
     (let key = string_of_bytes (rKey rec); ns = SourceNamespace m in
      if SourceChannel m \<noteq> channel then flds
      else if rNamespace rec = ''lscc'' then
        (if key = ns \<or> key = ns @ ''~collection'' then AList.update (lscc_key key) (rValue rec) flds else flds)
      else if key = metadata_key ns \<or> key = field_key ns ''Sequence'' \<or>
        key = field_key ns ''ValidationInfo'' \<or> key = field_key ns ''Collections''
      then AList.update key (rValue rec) flds
      else flds)"

definition collect_fields :: "string \<Rightarrow> mapping list \<Rightarrow> snapshot_record \<Rightarrow> ledger_fields \<Rightarrow> ledger_fields res" where
  "collect_fields channel ms rec flds =
     (if rNamespace rec \<noteq> ''_lifecycle'' \<and> rNamespace rec \<noteq> ''lscc'' then Inr flds
      else Inr (fold (collect_field channel rec) ms flds))"

definition legacy_definition :: "'l lifecycle_lib_scheme \<Rightarrow> string \<Rightarrow> ledger_fields \<Rightarrow> string \<Rightarrow> chaincode_policy res" where
  "legacy_definition Q channel flds ns =
     rbind (pb_ChaincodeData Q (field_bytes flds (lscc_key ns))) (\<lambda>legacy.
       if lcName legacy \<noteq> ns \<or> lcVscc legacy \<noteq> ''vscc'' \<or> lcPolicy legacy = None
       then Inl (New ''unsupported legacy chaincode definition'' [channel, ns])
       else rbind (pb_Collections Q (field_bytes flds (lscc_key (ns @ ''~collection'')))) (\<lambda>collections.
         Inr \<lparr>cp_application = SignaturePolicy (lcPolicy legacy), cp_collections = collections\<rparr>))"

definition lifecycle_definition :: "'l lifecycle_lib_scheme \<Rightarrow> string \<Rightarrow> ledger_fields \<Rightarrow> string \<Rightarrow> chaincode_policy res" where
  "lifecycle_definition Q channel flds ns =
     rbind (pb_StateData Q (field_bytes flds (field_key ns ''Sequence''))) (\<lambda>sequence.
     if GetInt64 sequence \<le> 0 then Inl (New ''no committed chaincode sequence'' [channel, ns])
     else rbind (pb_StateData Q (field_bytes flds (field_key ns ''ValidationInfo''))) (\<lambda>fld.
     rbind (pb_ValidationInfo Q (GetBytes fld)) (\<lambda>validation.
     if ValidationPlugin validation \<noteq> ''vscc''
     then Inl (New ''unsupported validation plugin'' [channel, ns, ValidationPlugin validation])
     else rbind (pb_ApplicationPolicy Q (ValidationParameter validation)) (\<lambda>application.
     rbind (pb_StateData Q (field_bytes flds (field_key ns ''Collections''))) (\<lambda>fld.
     rbind (pb_Collections Q (GetBytes fld)) (\<lambda>collections.
       Inr \<lparr>cp_application = application, cp_collections = collections\<rparr>))))))"

definition read_definition :: "'l lifecycle_lib_scheme \<Rightarrow> string \<Rightarrow> ledger_fields \<Rightarrow> string \<Rightarrow> chaincode_policy res" where
  "read_definition Q channel flds ns =
     rbind (pb_StateMetadata Q (field_bytes flds (metadata_key ns))) (\<lambda>datatype_name.
       if datatype_name = [] \<and> field flds (lscc_key ns) \<noteq> None then legacy_definition Q channel flds ns
       else if datatype_name \<noteq> ''ChaincodeDefinition''
       then Inl (New ''no committed lifecycle chaincode definition'' [channel, ns])
       else lifecycle_definition Q channel flds ns)"

type_synonym definitions = "(string, chaincode_policy) gomap"

definition add_definition ::
  "'l lifecycle_lib_scheme \<Rightarrow> string \<Rightarrow> ledger_fields \<Rightarrow> mapping \<Rightarrow> definitions \<Rightarrow> definitions res" where
  "add_definition Q channel flds m result =
     (if SourceChannel m \<noteq> channel then Inr result
      else rbind (read_definition Q channel flds (SourceNamespace m)) (\<lambda>d.
        Inr (AList.update (SourceNamespace m) d result)))"

definition readChaincodePolicies ::
  "'s lib_scheme \<Rightarrow> 'q lifecycle_lib_scheme \<Rightarrow> fs \<Rightarrow> snapshot_stream \<Rightarrow> mapping_config \<Rightarrow> definitions res" where
  "readChaincodePolicies S Q f s config =
     (let channel = ChannelName (Metadata s) in
      rbind (WalkPublicRecords S f s (Some (collect_fields channel (Mappings config))) []) (\<lambda>flds.
        rfold (add_definition Q channel flds) (Mappings config) []))"

subsection \<open>The policy of a collection\<close>

text \<open>
  The orders in which a run visits the maps: \<open>range_groups\<close> the target's organizations (line 132),
  \<open>range_definitions\<close> the definitions of a channel (line 528), and \<open>range_organizations\<close> the
  organizations of the source channel (line 561), once per channel, namespace and hash namespace.
\<close>

record map_orders =
  range_groups :: "(string, config_group) gomap \<Rightarrow> (string, config_group) gomap"
  range_definitions :: "string \<Rightarrow> definitions \<Rightarrow> definitions"
  range_organizations :: "string \<Rightarrow> string \<Rightarrow> string \<Rightarrow> (string, string) gomap \<Rightarrow> (string, string) gomap"

text \<open>The loop over the collection package: whether the collection was found, and the effective policy.\<close>

definition scan_collection :: "string \<Rightarrow> collection \<Rightarrow> bool \<times> app_policy \<Rightarrow> (bool \<times> app_policy) res" where
  "scan_collection collection item st = (case st of (found, effective) \<Rightarrow>
     (case item of
        None \<Rightarrow> Inl (New ''unsupported collection configuration'' [])
      | Some c \<Rightarrow>
          if scName c = collection
          then Inr (True, case scEndorsementPolicy c of None \<Rightarrow> effective | Some p \<Rightarrow> p)
          else Inr (found, effective)))"

definition endorsement_path :: "string \<Rightarrow> string" where
  "endorsement_path org = ''/Channel/Application/'' @ org @ ''/Endorsement''"

definition scan_org :: "('o, 'l) bundle_lib_scheme \<Rightarrow> 'o channel_bundle \<Rightarrow> string \<Rightarrow> string \<times> string \<Rightarrow> bool \<times> app_policy \<Rightarrow> bool \<times> app_policy" where
  "scan_org B bundle orgMSP org st = (case org of (orgName, mspid) \<Rightarrow>
     if mspid \<noteq> orgMSP then st
     else (True,
       if PolicyManager bundle (endorsement_path orgName) \<noteq> None
       then ChannelConfigPolicyReference (endorsement_path orgName)
       else SignaturePolicy (Some (SignedByAnyMember B [orgMSP]))))"

definition collection_policy ::
  "('o, 'l) bundle_lib_scheme \<Rightarrow> ((string, string) gomap \<Rightarrow> (string, string) gomap) \<Rightarrow> 'o channel_bundle \<Rightarrow>
   chaincode_policy \<Rightarrow> string \<Rightarrow> (bool \<times> app_policy) res" where
  "collection_policy B rng bundle definition collection =
     rbind (rfold (scan_collection collection) (cp_collections definition) (False, cp_application definition)) (\<lambda>st.
       case CutPrefix collection ''_implicit_org_'' of (orgMSP, implicit) \<Rightarrow>
         if implicit then
           (case Organizations bundle of
              None \<Rightarrow> Inl (New ''source channel has no application organizations'' [])
            | Some organizations \<Rightarrow> Inr (fold (scan_org B bundle orgMSP) (rng organizations) st))
         else Inr st)"

subsection \<open>preparePolicies\<close>

type_synonym policies = "(string, bytes) gomap"

text \<open>The closure \<^verbatim>\<open>add\<close>.\<close>

definition add_policy ::
  "'p policy_lib_scheme \<Rightarrow> ('o, 'l) bundle_lib_scheme \<Rightarrow> 'o channel_bundle \<Rightarrow> 'o channel_bundle \<Rightarrow> string \<Rightarrow> app_policy \<Rightarrow> policies \<Rightarrow> policies res" where
  "add_policy P B target src namespace policy result =
     rbind (resolvePolicy P policy (PolicyManager src)) (\<lambda>encoded.
       if (case map_of result namespace of None \<Rightarrow> False | Some previous \<Rightarrow> previous \<noteq> encoded)
       then Inl (New ''conflicting endorsement policies for target namespace'' [namespace])
       else rbind (CreateNamespaceVerifier B namespace encoded target) (\<lambda>_.
         Inr (AList.update namespace encoded result)))"

definition prepare_collection ::
  "'p policy_lib_scheme \<Rightarrow> ('o, 'l) bundle_lib_scheme \<Rightarrow> map_orders \<Rightarrow> 'o channel_bundle \<Rightarrow> 'o channel_bundle \<Rightarrow> string \<Rightarrow> string \<Rightarrow>
   mapping \<Rightarrow> chaincode_policy \<Rightarrow> namespace \<Rightarrow> policies \<Rightarrow> policies res" where
  "prepare_collection P B rng target src channel namespace m definition hashes result =
     rbind (SplitHashNamespace (Name hashes)) (\<lambda>(source, collection).
       if source \<noteq> namespace then Inr result
       else rbind (collection_policy B (range_organizations rng channel namespace (Name hashes)) src definition collection) (\<lambda>(found, effective).
         if \<not> found then Inl (New ''hashes for unknown collection'' [channel, namespace, collection])
         else wrapped [channel, Name hashes] (add_policy P B target src (hashTarget m) effective result)))"

definition prepare_definition ::
  "'p policy_lib_scheme \<Rightarrow> ('o, 'l) bundle_lib_scheme \<Rightarrow> map_orders \<Rightarrow> 'o channel_bundle \<Rightarrow> 'o channel_bundle \<Rightarrow> mapping_config \<Rightarrow> string \<Rightarrow>
   snapshot_stream \<Rightarrow> string \<times> chaincode_policy \<Rightarrow> policies \<Rightarrow> policies res" where
  "prepare_definition P B rng target src config channel s d result = (case d of (namespace, definition) \<Rightarrow>
     let m = fst (mappingFor config channel namespace) in
     rbind (wrapped [channel, namespace] (add_policy P B target src (TargetNamespace m) (cp_application definition) result)) (\<lambda>result.
       rfold (prepare_collection P B rng target src channel namespace m definition) (PrivateHashNamespaces s) result))"

definition prepare_channel ::
  "'s lib_scheme \<Rightarrow> 'p policy_lib_scheme \<Rightarrow> 'q lifecycle_lib_scheme \<Rightarrow> ('o, 'l) bundle_lib_scheme \<Rightarrow> map_orders \<Rightarrow> fs \<Rightarrow>
   mapping_config \<Rightarrow> (string, snapshot_stream) gomap \<Rightarrow> (string, channel_config) gomap \<Rightarrow> 'o channel_bundle \<Rightarrow> string \<Rightarrow> policies \<Rightarrow> policies res" where
  "prepare_channel S P Q B rng f config snapshots sources target channel result =
     (let s = the (map_of snapshots channel) in
      rbind (wrapped [''source channel'', channel] (bundle_of B (the (map_of sources channel)))) (\<lambda>src.
      if MSPVersion target < MSPVersion src
      then Inl (New ''target channel capabilities downgrade MSP validation from source channel'' [channel])
      else rbind (readChaincodePolicies S Q f s config) (\<lambda>defs.
        rfold (prepare_definition P B rng target src config channel s) (range_definitions rng channel defs) result)))"

text \<open>
  The target configuration is changed in place by \<open>reuseMSPs\<close>, and the importer encodes it again
  afterwards, so it is part of the result.
\<close>

definition preparePolicies ::
  "'s lib_scheme \<Rightarrow> 'c config_lib_scheme \<Rightarrow> 'p policy_lib_scheme \<Rightarrow> 'q lifecycle_lib_scheme \<Rightarrow> ('o, 'l) bundle_lib_scheme \<Rightarrow>
   map_orders \<Rightarrow> fs \<Rightarrow> mapping_config \<Rightarrow> (string, snapshot_stream) gomap \<Rightarrow>
   (string, channel_config) gomap \<Rightarrow> channel_config \<Rightarrow> (channel_config \<times> policies) res" where
  "preparePolicies S C P Q B rng f config snapshots sources target =
     rbind (reuseMSPs C (range_groups rng) target sources) (\<lambda>target.
     rbind (encode C target) (\<lambda>encoded.
     rbind (wrapped [''target configuration''] (ValidateConfigTx B encoded)) (\<lambda>_.
     rbind (bundle_of B target) (\<lambda>targetBundle.
     rbind (rfold (prepare_channel S P Q B rng f config snapshots sources targetBundle) (sortedKeys snapshots) []) (\<lambda>result.
       Inr (target, result))))))"

end
