(* ===== verification/Ledger.thy ===== *)
theory Ledger
  imports Prepare
begin

text \<open>
  The chaincode definitions a snapshot has committed, stated on its public records, and the proof that
  \<open>readChaincodePolicies\<close> (theory Prepare), which collects the fields it needs during one walk, returns
  exactly these.
\<close>

subsection \<open>The specification\<close>

text \<open>The value the ledger holds under a key of one of its namespaces; a record's key is unique.\<close>

definition ledger :: "snapshot_record list \<Rightarrow> string \<Rightarrow> string \<Rightarrow> bytes option" where
  "ledger recs namespace key =
     (case find (\<lambda>rec. rNamespace rec = namespace \<and> string_of_bytes (rKey rec) = key) recs of
        None \<Rightarrow> None
      | Some rec \<Rightarrow> rValue rec)"

definition ledger_bytes :: "snapshot_record list \<Rightarrow> string \<Rightarrow> string \<Rightarrow> bytes" where
  "ledger_bytes recs namespace key = (case ledger recs namespace key of None \<Rightarrow> [] | Some bs \<Rightarrow> bs)"

text \<open>A definition committed by the lifecycle: sequence at least 1, the built-in validation plugin.\<close>

definition lifecycle_committed :: "'l lifecycle_lib_scheme \<Rightarrow> snapshot_record list \<Rightarrow> string \<Rightarrow> chaincode_policy \<Rightarrow> bool" where
  "lifecycle_committed Q recs ns d \<longleftrightarrow>
     pb_StateMetadata Q (ledger_bytes recs ''_lifecycle'' (metadata_key ns)) = Inr ''ChaincodeDefinition'' \<and>
     (\<exists>sequence validation v collections.
        pb_StateData Q (ledger_bytes recs ''_lifecycle'' (field_key ns ''Sequence'')) = Inr sequence \<and> GetInt64 sequence \<ge> 1 \<and>
        pb_StateData Q (ledger_bytes recs ''_lifecycle'' (field_key ns ''ValidationInfo'')) = Inr validation \<and>
        pb_ValidationInfo Q (GetBytes validation) = Inr v \<and> ValidationPlugin v = ''vscc'' \<and>
        pb_ApplicationPolicy Q (ValidationParameter v) = Inr (cp_application d) \<and>
        pb_StateData Q (ledger_bytes recs ''_lifecycle'' (field_key ns ''Collections'')) = Inr collections \<and>
        pb_Collections Q (GetBytes collections) = Inr (cp_collections d))"

text \<open>A legacy definition, in the namespace of the lifecycle system chaincode of Fabric 1.\<close>

definition legacy_committed :: "'l lifecycle_lib_scheme \<Rightarrow> snapshot_record list \<Rightarrow> string \<Rightarrow> chaincode_policy \<Rightarrow> bool" where
  "legacy_committed Q recs ns d \<longleftrightarrow>
     pb_StateMetadata Q (ledger_bytes recs ''_lifecycle'' (metadata_key ns)) = Inr [] \<and>
     (\<exists>bs legacy policy. ledger recs ''lscc'' ns = Some bs \<and> pb_ChaincodeData Q bs = Inr legacy \<and>
        lcName legacy = ns \<and> lcVscc legacy = ''vscc'' \<and> lcPolicy legacy = Some policy \<and>
        cp_application d = SignaturePolicy (Some policy) \<and>
        pb_Collections Q (ledger_bytes recs ''lscc'' (ns @ ''~collection'')) = Inr (cp_collections d))"

subsection \<open>The collected fields\<close>

definition wanted :: "string \<Rightarrow> mapping list \<Rightarrow> string \<Rightarrow> string \<Rightarrow> bool" where
  "wanted channel ms namespace key \<longleftrightarrow>
     (\<exists>m \<in> set ms. SourceChannel m = channel \<and>
        (if namespace = ''lscc'' then key = SourceNamespace m \<or> key = SourceNamespace m @ ''~collection''
         else namespace = ''_lifecycle'' \<and>
           (key = metadata_key (SourceNamespace m) \<or> key = field_key (SourceNamespace m) ''Sequence'' \<or>
            key = field_key (SourceNamespace m) ''ValidationInfo'' \<or> key = field_key (SourceNamespace m) ''Collections'')))"

text \<open>The key under which a record is kept.\<close>

definition kept_key :: "string \<Rightarrow> string \<Rightarrow> string" where
  "kept_key namespace key = (if namespace = ''lscc'' then lscc_key key else key)"

lemma kept_lscc: "\<exists>t. kept_key ''lscc'' k = CHR ''l'' # t" "kept_key ''lscc'' k = kept_key ''lscc'' k' \<longleftrightarrow> k = k'"
  by (simp_all add: kept_key_def lscc_key_def)

lemma wanted_lifecycle:
  assumes "wanted channel ms n k" "n \<noteq> ''lscc''"
  shows "n = ''_lifecycle''" "\<exists>t. kept_key n k = CHR ''n'' # t" "kept_key n k = k"
proof -
  have "\<exists>t. metadata_key ns = CHR ''n'' # t" "\<exists>t. field_key ns name = CHR ''n'' # t" for ns name
    by (simp_all add: metadata_key_def field_key_def)
  with assms show "n = ''_lifecycle''" "\<exists>t. kept_key n k = CHR ''n'' # t" "kept_key n k = k"
    unfolding wanted_def kept_key_def by metis+
qed

lemma kept_key_inject:
  assumes "wanted channel ms n k" "wanted channel ms n' k'" "kept_key n k = kept_key n' k'"
  shows "n = n' \<and> k = k'"
proof (cases "n = ''lscc''")
  case True
  have "n' = ''lscc''"
  proof (rule ccontr)
    assume "n' \<noteq> ''lscc''"
    from wanted_lifecycle(2) [OF assms(2) this] kept_lscc(1) [of k] True assms(3) show False by auto
  qed
  with True kept_lscc(2) [of k k'] assms(3) show ?thesis by blast
next
  case False
  have "n' \<noteq> ''lscc''"
  proof
    assume "n' = ''lscc''"
    with wanted_lifecycle(2) [OF assms(1) False] kept_lscc(1) [of k'] assms(3) show False by auto
  qed
  from wanted_lifecycle(1,3) [OF assms(1) False] wanted_lifecycle(1,3) [OF assms(2) this] assms(3)
  show ?thesis by presburger
qed

lemma collect_field_fold:
  "map_of (fold (collect_field channel rec) ms flds) =
     (if wanted channel ms (rNamespace rec) (string_of_bytes (rKey rec)) \<and> rNamespace rec \<in> {''_lifecycle'', ''lscc''}
      then (map_of flds)(kept_key (rNamespace rec) (string_of_bytes (rKey rec)) \<mapsto> rValue rec) else map_of flds)"
  if "rNamespace rec \<in> {''_lifecycle'', ''lscc''}"
proof (induction ms arbitrary: flds)
  case (Cons m ms)
  have "map_of (collect_field channel rec m flds) =
      (if wanted channel [m] (rNamespace rec) (string_of_bytes (rKey rec))
       then (map_of flds)(kept_key (rNamespace rec) (string_of_bytes (rKey rec)) \<mapsto> rValue rec) else map_of flds)"
    using that by (auto simp: collect_field_def wanted_def kept_key_def Let_def)
  moreover have "wanted channel (m # ms) n k \<longleftrightarrow> wanted channel [m] n k \<or> wanted channel ms n k" for n k
    by (auto simp: wanted_def)
  ultimately show ?case using that
    by (cases "wanted channel [m] (rNamespace rec) (string_of_bytes (rKey rec))") (simp_all add: Cons.IH fun_eq_iff)
qed (simp add: wanted_def)

lemma collect_fields_step:
  "\<exists>flds'. collect_fields channel ms rec flds = Inr flds' \<and> map_of flds' =
     (if wanted channel ms (rNamespace rec) (string_of_bytes (rKey rec))
      then (map_of flds)(kept_key (rNamespace rec) (string_of_bytes (rKey rec)) \<mapsto> rValue rec) else map_of flds)"
proof (cases "rNamespace rec \<in> {''_lifecycle'', ''lscc''}")
  case True
  with collect_field_fold [OF True] show ?thesis by (auto simp: collect_fields_def)
next
  case False
  then have "\<not> wanted channel ms (rNamespace rec) (string_of_bytes (rKey rec))" by (auto simp: wanted_def)
  with False show ?thesis by (auto simp: collect_fields_def)
qed

abbreviation matches :: "string \<Rightarrow> string \<Rightarrow> snapshot_record \<Rightarrow> bool" where
  "matches n k \<equiv> \<lambda>rec. rNamespace rec = n \<and> string_of_bytes (rKey rec) = k"

lemma collected:
  assumes "rfold (collect_fields channel ms) recs flds = Inr flds'" "distinct (map record_id recs)" "wanted channel ms n k"
  shows "map_of flds' (kept_key n k) =
    (case find (matches n k) recs of None \<Rightarrow> map_of flds (kept_key n k) | Some rec \<Rightarrow> Some (rValue rec))"
  using assms(1,2)
proof (induction recs arbitrary: flds)
  case (Cons rec recs)
  let ?n = "rNamespace rec" and ?k = "string_of_bytes (rKey rec)"
  obtain flds1 where flds1: "collect_fields channel ms rec flds = Inr flds1"
    "map_of flds1 = (if wanted channel ms ?n ?k then (map_of flds)(kept_key ?n ?k \<mapsto> rValue rec) else map_of flds)"
    using collect_fields_step by blast
  with Cons.prems(1) have rest: "rfold (collect_fields channel ms) recs flds1 = Inr flds'" by simp
  have IH: "map_of flds' (kept_key n k) =
      (case find (matches n k) recs of None \<Rightarrow> map_of flds1 (kept_key n k) | Some rec \<Rightarrow> Some (rValue rec))"
    using Cons.IH [OF rest] Cons.prems(2) by simp
  show ?case
  proof (cases "matches n k rec")
    case True
    then have "find (matches n k) recs = None"
      using Cons.prems(2) by (auto simp: find_None_iff record_id_def image_iff)
    with True IH flds1(2) assms(3) show ?thesis by simp
  next
    case False
    then have "map_of flds1 (kept_key n k) = map_of flds (kept_key n k)"
      using kept_key_inject [OF assms(3), of ?n ?k] flds1(2) by auto
    with IH have "map_of flds' (kept_key n k) =
        (case find (matches n k) recs of None \<Rightarrow> map_of flds (kept_key n k) | Some rec \<Rightarrow> Some (rValue rec))"
      by (simp only:)
    with False show ?thesis by auto
  qed
qed simp

lemma collected_field:
  assumes "rfold (collect_fields channel ms) recs [] = Inr flds" "distinct (map record_id recs)" "wanted channel ms n k"
  shows "field flds (kept_key n k) = ledger recs n k" "field_bytes flds (kept_key n k) = ledger_bytes recs n k"
proof -
  show "field flds (kept_key n k) = ledger recs n k"
    using collected [OF assms] by (simp add: field_def ledger_def split: option.splits)
  then show "field_bytes flds (kept_key n k) = ledger_bytes recs n k"
    by (simp add: field_bytes_def ledger_bytes_def)
qed

lemma collected_fields:
  assumes "rfold (collect_fields channel ms) recs [] = Inr flds" "distinct (map record_id recs)"
    "m \<in> set ms" "SourceChannel m = channel" "ns = SourceNamespace m"
  shows "field_bytes flds (metadata_key ns) = ledger_bytes recs ''_lifecycle'' (metadata_key ns)"
    "field_bytes flds (field_key ns ''Sequence'') = ledger_bytes recs ''_lifecycle'' (field_key ns ''Sequence'')"
    "field_bytes flds (field_key ns ''ValidationInfo'') = ledger_bytes recs ''_lifecycle'' (field_key ns ''ValidationInfo'')"
    "field_bytes flds (field_key ns ''Collections'') = ledger_bytes recs ''_lifecycle'' (field_key ns ''Collections'')"
    "field flds (lscc_key ns) = ledger recs ''lscc'' ns"
    "field_bytes flds (lscc_key ns) = ledger_bytes recs ''lscc'' ns"
    "field_bytes flds (lscc_key (ns @ ''~collection'')) = ledger_bytes recs ''lscc'' (ns @ ''~collection'')"
proof -
  have lifecycle: "wanted channel ms ''_lifecycle'' k"
    if "k = metadata_key ns \<or> k = field_key ns ''Sequence'' \<or> k = field_key ns ''ValidationInfo'' \<or> k = field_key ns ''Collections''" for k
    unfolding wanted_def using that assms(3-5) by (intro bexI [of _ m]) simp_all
  have lscc: "wanted channel ms ''lscc'' k" if "k = ns \<or> k = ns @ ''~collection''" for k
    unfolding wanted_def using that assms(3-5) by (intro bexI [of _ m]) simp_all
  have kept: "kept_key ''_lifecycle'' k = k" "kept_key ''lscc'' k = lscc_key k" for k by (simp_all add: kept_key_def)
  note field = collected_field [OF assms(1,2)]
  show "field_bytes flds (metadata_key ns) = ledger_bytes recs ''_lifecycle'' (metadata_key ns)"
    "field_bytes flds (field_key ns ''Sequence'') = ledger_bytes recs ''_lifecycle'' (field_key ns ''Sequence'')"
    "field_bytes flds (field_key ns ''ValidationInfo'') = ledger_bytes recs ''_lifecycle'' (field_key ns ''ValidationInfo'')"
    "field_bytes flds (field_key ns ''Collections'') = ledger_bytes recs ''_lifecycle'' (field_key ns ''Collections'')"
    using field(2) [OF lifecycle] unfolding kept by blast+
  show "field flds (lscc_key ns) = ledger recs ''lscc'' ns" using field(1) [OF lscc] unfolding kept by blast
  show "field_bytes flds (lscc_key ns) = ledger_bytes recs ''lscc'' ns"
    "field_bytes flds (lscc_key (ns @ ''~collection'')) = ledger_bytes recs ''lscc'' (ns @ ''~collection'')"
    using field(2) [OF lscc] unfolding kept by blast+
qed

lemma read_definition_committed:
  assumes "rfold (collect_fields channel ms) recs [] = Inr flds" "distinct (map record_id recs)"
    "m \<in> set ms" "SourceChannel m = channel" "ns = SourceNamespace m"
  shows "read_definition Q channel flds ns = Inr d \<longleftrightarrow> lifecycle_committed Q recs ns d \<or> legacy_committed Q recs ns d"
proof -
  note fields = collected_fields [OF assms]
  have legacy: "legacy_definition Q channel flds ns = Inr d \<longleftrightarrow>
      (\<exists>legacy policy. pb_ChaincodeData Q (ledger_bytes recs ''lscc'' ns) = Inr legacy \<and>
        lcName legacy = ns \<and> lcVscc legacy = ''vscc'' \<and> lcPolicy legacy = Some policy \<and>
        cp_application d = SignaturePolicy (Some policy) \<and>
        pb_Collections Q (ledger_bytes recs ''lscc'' (ns @ ''~collection'')) = Inr (cp_collections d))"
    unfolding legacy_definition_def fields by (cases d) auto
  have lifecycle: "lifecycle_definition Q channel flds ns = Inr d \<longleftrightarrow>
     (\<exists>sequence validation v collections.
        pb_StateData Q (ledger_bytes recs ''_lifecycle'' (field_key ns ''Sequence'')) = Inr sequence \<and> GetInt64 sequence \<ge> 1 \<and>
        pb_StateData Q (ledger_bytes recs ''_lifecycle'' (field_key ns ''ValidationInfo'')) = Inr validation \<and>
        pb_ValidationInfo Q (GetBytes validation) = Inr v \<and> ValidationPlugin v = ''vscc'' \<and>
        pb_ApplicationPolicy Q (ValidationParameter v) = Inr (cp_application d) \<and>
        pb_StateData Q (ledger_bytes recs ''_lifecycle'' (field_key ns ''Collections'')) = Inr collections \<and>
        pb_Collections Q (GetBytes collections) = Inr (cp_collections d))"
    unfolding lifecycle_definition_def fields by (cases d) (auto simp: not_le)
  show ?thesis
  proof (cases "pb_StateMetadata Q (ledger_bytes recs ''_lifecycle'' (metadata_key ns))")
    case (Inl e)
    then show ?thesis
      unfolding read_definition_def fields lifecycle_committed_def legacy_committed_def by simp
  next
    case (Inr name)
    show ?thesis
    proof (cases "name = []")
      case True
      show ?thesis
      proof (cases "ledger recs ''lscc'' ns")
        case None
        with True Inr show ?thesis
          unfolding read_definition_def fields lifecycle_committed_def legacy_committed_def by simp
      next
        case (Some bs)
        then have "ledger_bytes recs ''lscc'' ns = bs" by (simp add: ledger_bytes_def)
        with True Inr Some show ?thesis
          unfolding read_definition_def fields lifecycle_committed_def legacy_committed_def by (simp add: legacy)
      qed
    next
      case False
      with Inr show ?thesis
        unfolding read_definition_def fields lifecycle_committed_def legacy_committed_def
        by (cases "name = ''ChaincodeDefinition''") (simp_all add: lifecycle)
    qed
  qed
qed

lemma snapshot_records_distinct: "snapshot_records L f s pfx = Inr recs \<Longrightarrow> distinct (map record_id recs)"
  using snapshot_records_sound(3) by (fastforce simp: snapshot_records_parse)

lemma collect_fields_total: "\<exists>flds'. rfold (collect_fields channel ms) recs flds = Inr flds'"
proof (induction recs arbitrary: flds)
  case (Cons rec recs)
  obtain flds1 where "collect_fields channel ms rec flds = Inr flds1" using collect_fields_step by blast
  with Cons.IH [of flds1] show ?case by simp
qed simp

text \<open>The definitions are read from some collection of fields that agrees with the ledger.\<close>

lemma readChaincodePolicies_fields:
  assumes "snapshot_records S f s ''public_state'' = Inr recs"
  obtains flds where "rfold (collect_fields (ChannelName (Metadata s)) (Mappings config)) recs [] = Inr flds"
    "\<And>defs. readChaincodePolicies S Q f s config = Inr defs \<longleftrightarrow>
       rfold (add_definition Q (ChannelName (Metadata s)) flds) (Mappings config) [] = Inr defs"
proof -
  obtain flds where flds: "rfold (collect_fields (ChannelName (Metadata s)) (Mappings config)) recs [] = Inr flds"
    using collect_fields_total by blast
  have "WalkPublicRecords S f s (Some (collect_fields (ChannelName (Metadata s)) (Mappings config))) [] = Inr flds' \<longleftrightarrow> flds' = flds" for flds'
    unfolding WalkPublicRecords_def walkRecords_iff using assms flds by auto
  then have "readChaincodePolicies S Q f s config = Inr defs \<longleftrightarrow>
       rfold (add_definition Q (ChannelName (Metadata s)) flds) (Mappings config) [] = Inr defs" for defs
    by (auto simp: readChaincodePolicies_def Let_def)
  with flds that show ?thesis by blast
qed

lemma add_definitions_total:
  "(\<exists>defs'. rfold (add_definition Q channel flds) ms defs = Inr defs') \<longleftrightarrow>
     (\<forall>m \<in> set ms. SourceChannel m = channel \<longrightarrow> (\<exists>d. read_definition Q channel flds (SourceNamespace m) = Inr d))"
proof (induction ms arbitrary: defs)
  case (Cons m ms)
  show ?case
  proof (cases "SourceChannel m = channel")
    case True
    then show ?thesis using Cons.IH
      by (cases "read_definition Q channel flds (SourceNamespace m)") (simp_all add: add_definition_def)
  next
    case False
    then show ?thesis using Cons.IH by (simp add: add_definition_def)
  qed
qed simp

end
