(* ===== verification/Agreement.thy ===== *)
theory Agreement
  imports GoLib
begin

text \<open>
  Maps filled by requests that must agree: a step asks for some keys with their values and fails when
  a key is already there with another value or when the value is not acceptable. \<open>realizes\<close>
  says that a map operation is such a step; it is closed under the control structure the code uses, so
  the result of nested loops is the set of the pairs they asked for, in whatever order.
\<close>

subsection \<open>The graph of a Go map\<close>

definition entries :: "('k, 'v) gomap \<Rightarrow> ('k \<times> 'v) set" where
  "entries m = {(k, v). map_of m k = Some v}"

lemma entries_empty [simp]: "entries [] = {}"
  by (simp add: entries_def)

lemma in_entries [simp]: "(k, v) \<in> entries m \<longleftrightarrow> map_of m k = Some v"
  by (simp add: entries_def)

lemma single_valued_entries [simp]: "single_valued (entries m)"
  by (simp add: single_valued_def)

definition settle :: "('k \<times> 'v) list \<Rightarrow> ('k, 'v) gomap \<Rightarrow> ('k, 'v) gomap" where
  "settle kvs m = fold (\<lambda>(k, v). AList.update k v) kvs m"

lemma settle_simps [simp]:
  "settle [] m = m"
  "settle ((k, v) # kvs) m = settle kvs (AList.update k v m)"
  "settle (xs @ ys) m = settle ys (settle xs m)"
  by (simp_all add: settle_def)

lemma entries_update:
  "single_valued (insert (k, v) (entries m)) \<Longrightarrow> entries (AList.update k v m) = insert (k, v) (entries m)"
  by (auto simp: entries_def single_valued_def split: if_splits)

lemma single_valued_mono: "single_valued s \<Longrightarrow> r \<subseteq> s \<Longrightarrow> single_valued r"
  by (rule single_valued_subset)

lemma entries_settle:
  "single_valued (set kvs \<union> entries m) \<Longrightarrow> entries (settle kvs m) = set kvs \<union> entries m"
proof (induction kvs arbitrary: m)
  case (Cons kv kvs)
  obtain k v where kv: "kv = (k, v)" by (cases kv)
  have "single_valued (insert (k, v) (entries m))"
    by (rule single_valued_mono [OF Cons.prems]) (auto simp: kv)
  note this = entries_update [OF this]
  with Cons.prems have "single_valued (set kvs \<union> entries (AList.update k v m))" by (simp add: kv)
  from Cons.IH [OF this] this show ?case by (simp add: kv \<open>entries (AList.update k v m) = _\<close>)
qed simp

lemma single_valued_append:
  "single_valued (set (xs @ ys) \<union> entries m) \<longleftrightarrow>
     single_valued (set xs \<union> entries m) \<and> single_valued (set ys \<union> entries (settle xs m))"
proof -
  have "set (xs @ ys) \<union> entries m = set ys \<union> (set xs \<union> entries m)" by auto
  then show ?thesis
    using entries_settle [of xs m] single_valued_mono [of "set (xs @ ys) \<union> entries m" "set xs \<union> entries m"]
    by auto
qed

lemma wf_settle [simp]: "wf_map m \<Longrightarrow> wf_map (settle kvs m)"
  by (induction kvs arbitrary: m) (auto simp: settle_def)

subsection \<open>Steps that realize requests\<close>

definition realizes ::
  "('k \<Rightarrow> 'v \<Rightarrow> bool) \<Rightarrow> (('k, 'v) gomap \<Rightarrow> ('k, 'v) gomap res) \<Rightarrow> ('k \<times> 'v) list res \<Rightarrow> bool" where
  "realizes accept f q \<longleftrightarrow>
     (\<forall>m m'. f m = Inr m' \<longleftrightarrow>
        (\<exists>kvs. q = Inr kvs \<and> (\<forall>(k, v) \<in> set kvs. accept k v) \<and> single_valued (set kvs \<union> entries m) \<and>
           m' = settle kvs m))"

lemma realizes_iff:
  "realizes accept f q \<Longrightarrow> f m = Inr m' \<longleftrightarrow>
     (\<exists>kvs. q = Inr kvs \<and> (\<forall>(k, v) \<in> set kvs. accept k v) \<and> single_valued (set kvs \<union> entries m) \<and>
        m' = settle kvs m)"
  unfolding realizes_def by blast

lemma realizes_skip: "realizes accept Inr (Inr [])"
  by (auto simp: realizes_def)

lemma realizes_fail: "realizes accept (\<lambda>m. Inl e) (Inl e')"
  by (simp add: realizes_def)

lemma realizes_if:
  "(b \<Longrightarrow> realizes accept f q) \<Longrightarrow> (\<not> b \<Longrightarrow> realizes accept g r) \<Longrightarrow>
   realizes accept (\<lambda>m. if b then f m else g m) (if b then q else r)"
  by simp

lemma realizes_rbind:
  assumes "\<And>x. r = Inr x \<Longrightarrow> realizes accept (f x) (q x)"
  shows "realizes accept (\<lambda>m. rbind r (\<lambda>x. f x m)) (rbind r q)"
  using assms by (cases r) (auto intro: realizes_fail)

lemma realizes_rbind_pair:
  assumes "\<And>a b. r = Inr (a, b) \<Longrightarrow> realizes accept (f a b) (q a b)"
  shows "realizes accept (\<lambda>m. rbind r (\<lambda>(a, b). f a b m)) (rbind r (\<lambda>(a, b). q a b))"
  using assms by (cases r) (auto intro: realizes_fail split: prod.splits)

lemma realizes_wrapped: "realizes accept f q \<Longrightarrow> realizes accept (\<lambda>m. wrapped c (f m)) q"
  by (simp add: realizes_def)

lemma realizes_seq:
  assumes "realizes accept f q" "realizes accept g r"
  shows "realizes accept (\<lambda>m. rbind (f m) g) (rbind q (\<lambda>xs. rbind r (\<lambda>ys. Inr (xs @ ys))))"
  unfolding realizes_def
proof (intro allI)
  fix m m'
  have "rbind (f m) g = Inr m' \<longleftrightarrow> (\<exists>m1. f m = Inr m1 \<and> g m1 = Inr m')" by simp
  also have "\<dots> \<longleftrightarrow> (\<exists>xs ys. q = Inr xs \<and> r = Inr ys \<and> (\<forall>(k, v) \<in> set (xs @ ys). accept k v) \<and>
      single_valued (set xs \<union> entries m) \<and> single_valued (set ys \<union> entries (settle xs m)) \<and>
      m' = settle ys (settle xs m))"
    unfolding realizes_iff [OF assms(1)] realizes_iff [OF assms(2)] by auto
  also have "\<dots> \<longleftrightarrow> (\<exists>xs ys. q = Inr xs \<and> r = Inr ys \<and> (\<forall>(k, v) \<in> set (xs @ ys). accept k v) \<and>
      single_valued (set (xs @ ys) \<union> entries m) \<and> m' = settle (xs @ ys) m)"
    by (simp only: single_valued_append settle_simps conj_assoc)
  finally show "rbind (f m) g = Inr m' \<longleftrightarrow>
      (\<exists>kvs. rbind q (\<lambda>xs. rbind r (\<lambda>ys. Inr (xs @ ys))) = Inr kvs \<and> (\<forall>(k, v) \<in> set kvs. accept k v) \<and>
         single_valued (set kvs \<union> entries m) \<and> m' = settle kvs m)" by auto
qed

fun gather :: "('x \<Rightarrow> ('k \<times> 'v) list res) \<Rightarrow> 'x list \<Rightarrow> ('k \<times> 'v) list res" where
  "gather q [] = Inr []"
| "gather q (x # xs) = rbind (q x) (\<lambda>kvs. rbind (gather q xs) (\<lambda>rest. Inr (kvs @ rest)))"

lemma realizes_rfold:
  "(\<And>x. x \<in> set xs \<Longrightarrow> realizes accept (f x) (q x)) \<Longrightarrow> realizes accept (rfold f xs) (gather q xs)"
proof (induction xs)
  case Nil
  have "rfold f [] = Inr" by auto
  then show ?case by (simp add: realizes_skip)
next
  case (Cons x xs)
  have "rfold f (x # xs) = (\<lambda>m. rbind (f x m) (rfold f xs))" by auto
  then show ?case using realizes_seq [of accept "f x" "q x" "rfold f xs" "gather q xs"] Cons by simp
qed

text \<open>What a loop asks for, as a set: the order of its elements does not matter.\<close>

lemma gather_Inr:
  "(\<exists>kvs. gather q xs = Inr kvs \<and> set kvs = R) \<longleftrightarrow>
     (\<forall>x \<in> set xs. \<exists>kvs. q x = Inr kvs) \<and> R = (\<Union>x \<in> set xs. {kv. \<exists>kvs. q x = Inr kvs \<and> kv \<in> set kvs})"
proof (induction xs arbitrary: R)
  case Nil
  then show ?case by auto
next
  case (Cons x xs)
  have "(\<exists>kvs. gather q (x # xs) = Inr kvs \<and> set kvs = R) \<longleftrightarrow>
      (\<exists>kvs R'. q x = Inr kvs \<and> (\<exists>rest. gather q xs = Inr rest \<and> set rest = R') \<and> R = set kvs \<union> R')"
    by auto
  then show ?case unfolding Cons.IH by auto
qed

lemma gather_set:
  "gather q xs = Inr kvs \<Longrightarrow> kv \<in> set kvs \<longleftrightarrow> (\<exists>x \<in> set xs. \<exists>kvs. q x = Inr kvs \<and> kv \<in> set kvs)"
  using gather_Inr [of q xs "set kvs"] by auto

lemma gather_total: "gather q xs = Inr kvs \<Longrightarrow> x \<in> set xs \<Longrightarrow> \<exists>kvs. q x = Inr kvs"
  using gather_Inr [of q xs "set kvs"] by auto

lemma gather_same_set:
  assumes "gather q xs = Inr kvs" "set ys = set xs"
  shows "\<exists>kvs'. gather q ys = Inr kvs' \<and> set kvs' = set kvs"
  using gather_Inr [of q xs "set kvs"] gather_Inr [of q ys "set kvs"] assms by auto

lemma gather_set_cong:
  assumes "gather q xs = Inr kvs"
    and "\<And>x a. x \<in> set xs \<Longrightarrow> q x = Inr a \<Longrightarrow> \<exists>a'. q' x = Inr a' \<and> set a' = set a"
  shows "\<exists>kvs'. gather q' xs = Inr kvs' \<and> set kvs' = set kvs"
  using assms
proof (induction xs arbitrary: kvs)
  case (Cons x xs)
  from Cons.prems(1) obtain a rest where ar: "q x = Inr a" "gather q xs = Inr rest" "kvs = a @ rest" by auto
  obtain a' where "q' x = Inr a'" "set a' = set a" using Cons.prems(2) [OF _ ar(1)] by auto
  moreover obtain rest' where "gather q' xs = Inr rest'" "set rest' = set rest"
    using Cons.IH [OF ar(2)] Cons.prems(2) by (meson list.set_intros(2))
  ultimately show ?case by (simp add: ar(3))
qed simp

lemma gather_agree:
  assumes "gather q xs = Inr a" "gather q' xs = Inr b"
    and "\<And>x a b. x \<in> set xs \<Longrightarrow> q x = Inr a \<Longrightarrow> q' x = Inr b \<Longrightarrow> set b = set a"
  shows "set b = set a"
  using assms
proof (induction xs arbitrary: a b)
  case (Cons x xs)
  from Cons.prems(1,2) obtain a1 a2 b1 b2 where "q x = Inr a1" "gather q xs = Inr a2" "a = a1 @ a2"
    "q' x = Inr b1" "gather q' xs = Inr b2" "b = b1 @ b2" by auto
  moreover from this Cons.IH Cons.prems(3) have "set b2 = set a2" by (metis list.set_intros(2))
  moreover from calculation Cons.prems(3) have "set b1 = set a1" by (metis list.set_intros(1))
  ultimately show ?case by simp
qed simp

lemma settle_same_set:
  assumes "single_valued (set kvs)" "set kvs' = set kvs"
  shows "map_of (settle kvs' []) = map_of (settle kvs [])"
proof -
  have "entries (settle kvs' []) = entries (settle kvs [])"
    using entries_settle [of kvs "[]"] entries_settle [of kvs' "[]"] assms by simp
  then show ?thesis by (auto simp: entries_def set_eq_iff fun_eq_iff) (metis option.exhaust)
qed

end
