(* ===== verification/Collections.thy ===== *)
theory Collections
  imports Prepare
begin

text \<open>
  What the policy of a private collection is, stated without the loops of theory Prepare
  (\<open>governs\<close>), and that the loops compute it whatever order Go visits the organizations in, provided
  no two organizations of the source channel share an MSP ID.
\<close>

subsection \<open>Orders\<close>

definition some_order :: "map_orders \<Rightarrow> bool" where
  "some_order rng \<longleftrightarrow> iteration_order (range_groups rng) \<and> (\<forall>channel. iteration_order (range_definitions rng channel)) \<and>
     (\<forall>channel namespace hashes. iteration_order (range_organizations rng channel namespace hashes))"

definition listed_order :: map_orders where
  "listed_order = \<lparr>range_groups = (\<lambda>m. m), range_definitions = (\<lambda>_ m. m), range_organizations = (\<lambda>_ _ _ m. m)\<rparr>"

definition reversed_order :: map_orders where
  "reversed_order = \<lparr>range_groups = rev, range_definitions = (\<lambda>_. rev), range_organizations = (\<lambda>_ _ _. rev)\<rparr>"

lemma some_order_examples: "some_order listed_order" "some_order reversed_order"
  by (simp_all add: some_order_def listed_order_def reversed_order_def iteration_order_examples)

lemma some_order_sel:
  assumes "some_order rng"
  shows "iteration_order (range_groups rng)" "iteration_order (range_definitions rng channel)"
    "iteration_order (range_organizations rng channel namespace hashes)"
  using assms by (simp_all add: some_order_def)

subsection \<open>The specification\<close>

text \<open>
  The policy of a declared collection: the last endorsement policy that a declaration of that name has,
  or else the policy of the chaincode.
\<close>

definition own_policies :: "chaincode_policy \<Rightarrow> string \<Rightarrow> app_policy list" where
  "own_policies d collection = concat (map (\<lambda>item. case item of None \<Rightarrow> [] | Some c \<Rightarrow>
     if scName c = collection then (case scEndorsementPolicy c of None \<Rightarrow> [] | Some p \<Rightarrow> [p]) else []) (cp_collections d))"

definition declared_policy :: "chaincode_policy \<Rightarrow> string \<Rightarrow> app_policy \<Rightarrow> bool" where
  "declared_policy d collection p \<longleftrightarrow>
     (\<exists>c. Some c \<in> set (cp_collections d) \<and> scName c = collection) \<and>
     p = (if own_policies d collection = [] then cp_application d else last (own_policies d collection))"

text \<open>
  The policy of the implicit collection of an organization: its endorsement policy in the channel
  configuration if there is one, or else any member of its MSP.
\<close>

definition organization_policy :: "('o, 'l) bundle_lib_scheme \<Rightarrow> 'o channel_bundle \<Rightarrow> string \<Rightarrow> string \<Rightarrow> app_policy" where
  "organization_policy B bundle org mspid =
     (let path = ''/Channel/Application/'' @ org @ ''/Endorsement'' in
      if PolicyManager bundle path \<noteq> None then ChannelConfigPolicyReference path
      else SignaturePolicy (Some (SignedByAnyMember B [mspid])))"

text \<open>
  A collection whose name is \<^verbatim>\<open>_implicit_org_\<close> and an MSP ID is governed by the organization with that
  MSP ID, if the channel has one; any other collection must be declared. Only static collection
  configurations are supported, and implicit collections need an application configuration.
\<close>

definition governs :: "('o, 'l) bundle_lib_scheme \<Rightarrow> 'o channel_bundle \<Rightarrow> chaincode_policy \<Rightarrow> string \<Rightarrow> app_policy \<Rightarrow> bool" where
  "governs B bundle d collection p \<longleftrightarrow> None \<notin> set (cp_collections d) \<and>
     (if \<exists>mspid. collection = ''_implicit_org_'' @ mspid
      then \<exists>mspid org_map. collection = ''_implicit_org_'' @ mspid \<and> Organizations bundle = Some org_map \<and>
        (if mspid \<in> snd ` set org_map then \<exists>org. (org, mspid) \<in> set org_map \<and> p = organization_policy B bundle org mspid
         else declared_policy d collection p)
      else declared_policy d collection p)"

definition unique_msps :: "'o channel_bundle \<Rightarrow> bool" where
  "unique_msps bundle \<longleftrightarrow> (\<forall>org_map. Organizations bundle = Some org_map \<longrightarrow> distinct (map snd org_map))"

subsection \<open>The loops\<close>

lemma scan_collections_Inr:
  "rfold (scan_collection collection) items (found, effective) = Inr st \<longleftrightarrow>
     None \<notin> set items \<and>
     st = (found \<or> (\<exists>c. Some c \<in> set items \<and> scName c = collection),
       last (effective # concat (map (\<lambda>item. case item of None \<Rightarrow> [] | Some c \<Rightarrow>
         if scName c = collection then (case scEndorsementPolicy c of None \<Rightarrow> [] | Some p \<Rightarrow> [p]) else []) items)))"
proof (induction items arbitrary: found effective)
  case (Cons item items)
  show ?case
  proof (cases item)
    case (Some c)
    have "rfold (scan_collection collection) (item # items) (found, effective) = Inr st \<longleftrightarrow>
        rfold (scan_collection collection) items
          (found \<or> scName c = collection,
           if scName c = collection then (case scEndorsementPolicy c of None \<Rightarrow> effective | Some p \<Rightarrow> p) else effective) = Inr st"
      by (cases "scName c = collection") (simp_all add: scan_collection_def Some)
    then show ?thesis unfolding Cons.IH by (cases "scEndorsementPolicy c") (auto simp: Some)
  qed (simp add: scan_collection_def)
qed auto

text \<open>The last organization with the MSP ID decides.\<close>

lemma scan_org_step:
  "scan_org B bundle mspid (name, i) st = (if i = mspid then (True, organization_policy B bundle name mspid) else st)"
  by (simp add: scan_org_def organization_policy_def endorsement_path_def Let_def)

lemma scan_orgs:
  "fold (scan_org B bundle mspid) org_map st =
     (case filter (\<lambda>org. snd org = mspid) org_map of
        [] \<Rightarrow> st
      | o' # os \<Rightarrow> (True, organization_policy B bundle (fst (last (o' # os))) mspid))"
proof (induction org_map rule: rev_induct)
  case (snoc org org_map)
  obtain name i where org: "org = (name, i)" by (cases org)
  show ?case
    by (cases "i = mspid"; cases "filter (\<lambda>org. snd org = mspid) org_map") (simp_all add: snoc org scan_org_step)
qed simp

lemma scan_orgs_unique:
  assumes "distinct (map snd org_map)" "(org, mspid) \<in> set org_map"
  shows "fold (scan_org B bundle mspid) org_map st = (True, organization_policy B bundle org mspid)"
proof -
  have "filter (\<lambda>org. snd org = mspid) org_map = [(org, mspid)]"
    using assms by (induction org_map) (auto simp: filter_empty_conv image_iff)
  then show ?thesis by (simp add: scan_orgs)
qed

lemma scan_orgs_none: "mspid \<notin> snd ` set org_map \<Longrightarrow> fold (scan_org B bundle mspid) org_map st = st"
proof -
  assume "mspid \<notin> snd ` set org_map"
  then have "filter (\<lambda>org. snd org = mspid) org_map = []" by (auto simp: filter_empty_conv)
  then show ?thesis by (simp add: scan_orgs)
qed

lemma CutPrefix_implicit:
  "CutPrefix collection ''_implicit_org_'' = (mspid, True) \<longleftrightarrow> collection = ''_implicit_org_'' @ mspid"
  by (auto simp: CutPrefix_def HasPrefix_iff)

lemma declared_iff:
  "rfold (scan_collection collection) (cp_collections d) (False, cp_application d) = Inr (True, p) \<longleftrightarrow>
     None \<notin> set (cp_collections d) \<and> declared_policy d collection p"
  unfolding scan_collections_Inr declared_policy_def own_policies_def by auto

text \<open>The program finds a policy for a collection exactly when the specification has one, the same.\<close>

lemma collection_policy_governs:
  assumes "iteration_order rng" "unique_msps bundle"
  shows "collection_policy B rng bundle d collection = Inr (True, p) \<longleftrightarrow> governs B bundle d collection p"
proof (cases "\<exists>mspid. collection = ''_implicit_org_'' @ mspid")
  case False
  have "snd (CutPrefix collection ''_implicit_org_'') = False"
    using False CutPrefix_implicit [of collection "fst (CutPrefix collection ''_implicit_org_'')"]
    by (metis prod.collapse)
  then have "collection_policy B rng bundle d collection = Inr (True, p) \<longleftrightarrow>
      rfold (scan_collection collection) (cp_collections d) (False, cp_application d) = Inr (True, p)"
    by (auto simp: collection_policy_def split_beta)
  with False show ?thesis by (simp add: declared_iff governs_def)
next
  case True
  then obtain mspid where c: "collection = ''_implicit_org_'' @ mspid" by blast
  have policy: "collection_policy B rng bundle d collection = Inr (True, p) \<longleftrightarrow>
      (\<exists>org_map st. Organizations bundle = Some org_map \<and>
         rfold (scan_collection collection) (cp_collections d) (False, cp_application d) = Inr st \<and>
         fold (scan_org B bundle mspid) (rng org_map) st = (True, p))"
    using c [folded CutPrefix_implicit] by (auto simp: collection_policy_def)
  have spec: "governs B bundle d collection p \<longleftrightarrow> None \<notin> set (cp_collections d) \<and>
      (\<exists>org_map. Organizations bundle = Some org_map \<and>
        (if mspid \<in> snd ` set org_map then \<exists>org. (org, mspid) \<in> set org_map \<and> p = organization_policy B bundle org mspid
         else declared_policy d collection p))"
    unfolding governs_def c by simp
  show ?thesis
  proof (cases "Organizations bundle")
    case None
    then show ?thesis by (simp add: policy spec)
  next
    case (Some org_map)
    show ?thesis
    proof (cases "mspid \<in> snd ` set org_map")
      case True
      then obtain org where org: "(org, mspid) \<in> set org_map" by auto
      have d: "distinct (map snd (rng org_map))" "(org, mspid) \<in> set (rng org_map)"
        using assms Some org mset_eq_imp_distinct_iff [OF iteration_order_map [OF assms(1)], of snd org_map]
        by (auto simp: unique_msps_def iteration_order_set)
      have "org' = org" if "(org', mspid) \<in> set org_map" for org'
        using that org assms(2) Some unfolding unique_msps_def by (metis (no_types, lifting) distinct_map inj_onD prod.inject snd_conv)
      then have "(\<exists>org. (org, mspid) \<in> set org_map \<and> p = organization_policy B bundle org mspid) \<longleftrightarrow>
          p = organization_policy B bundle org mspid"
        using org by blast
      moreover have "(\<exists>st. rfold (scan_collection collection) (cp_collections d) (False, cp_application d) = Inr st) \<longleftrightarrow>
          None \<notin> set (cp_collections d)" unfolding scan_collections_Inr by blast
      ultimately show ?thesis
        unfolding policy spec using Some True scan_orgs_unique [OF d, of B "bundle"] by auto
    next
      case False
      then have none: "fold (scan_org B bundle mspid) (rng org_map) st = st" for st
        by (intro scan_orgs_none) (simp add: iteration_order_set [OF assms(1)])
      have "collection_policy B rng bundle d collection = Inr (True, p) \<longleftrightarrow>
          rfold (scan_collection collection) (cp_collections d) (False, cp_application d) = Inr (True, p)"
        unfolding policy using Some by (auto simp: none)
      also have "\<dots> \<longleftrightarrow> governs B bundle d collection p"
        unfolding declared_iff spec using Some False by simp
      finally show ?thesis .
    qed
  qed
qed

text \<open>Whether there is a policy does not depend on the order, even if organizations share an MSP ID.\<close>

lemma collection_policy_found:
  assumes "iteration_order rng"
  shows "(\<exists>p. collection_policy B rng bundle d collection = Inr (True, p)) \<longleftrightarrow>
    (\<exists>p. collection_policy B (\<lambda>m. m) bundle d collection = Inr (True, p))"
proof -
  have "(\<exists>p. fold (scan_org B bundle mspid) (rng org_map) st = (True, p)) \<longleftrightarrow>
      (\<exists>p. fold (scan_org B bundle mspid) org_map st = (True, p))" for mspid org_map st
  proof (cases "mspid \<in> snd ` set org_map")
    case True
    then have "filter (\<lambda>org. snd org = mspid) org_map \<noteq> []" "filter (\<lambda>org. snd org = mspid) (rng org_map) \<noteq> []"
      by (auto simp: filter_empty_conv iteration_order_set [OF assms])
    then show ?thesis unfolding scan_orgs by (auto split: list.splits)
  next
    case False
    then show ?thesis by (simp add: scan_orgs_none iteration_order_set [OF assms])
  qed
  note same = this
  obtain mspid implicit where cut: "CutPrefix collection ''_implicit_org_'' = (mspid, implicit)" by fastforce
  show ?thesis
  proof (cases "rfold (scan_collection collection) (cp_collections d) (False, cp_application d)")
    case (Inr st)
    then show ?thesis
      using same [of mspid _ st] by (cases "Organizations bundle") (simp_all add: collection_policy_def cut)
  qed (simp add: collection_policy_def)
qed

text \<open>
  Where two organizations do share an MSP ID, the policy of its implicit collection is that of the
  organization Go happens to visit last: two runs may prepare different policies.
\<close>

lemma implicit_policy_depends_on_order:
  fixes B :: "('o, 'l) bundle_lib_scheme" and m :: "'o policy_manager"
  assumes "m (endorsement_path ''o1'') \<noteq> None" "m (endorsement_path ''o2'') \<noteq> None"
  defines "bundle \<equiv> \<lparr>PolicyManager = m, MSPVersion = 2, Organizations = Some [(''o1'', ''M''), (''o2'', ''M'')]\<rparr>"
  shows "collection_policy B (\<lambda>m. m) bundle \<lparr>cp_application = p, cp_collections = []\<rparr> ''_implicit_org_M'' =
      Inr (True, ChannelConfigPolicyReference ''/Channel/Application/o2/Endorsement'') \<and>
    collection_policy B rev bundle \<lparr>cp_application = p, cp_collections = []\<rparr> ''_implicit_org_M'' =
      Inr (True, ChannelConfigPolicyReference ''/Channel/Application/o1/Endorsement'')"
  using assms by (simp add: collection_policy_def CutPrefix_def HasPrefix_def scan_org_def endorsement_path_def)

subsection \<open>The names of hash namespaces\<close>

text \<open>\<^verbatim>\<open>namespace$$hcollection\<close>, split at the first separator.\<close>

definition hash_name :: "string \<Rightarrow> string \<Rightarrow> string \<Rightarrow> bool" where
  "hash_name name ns collection \<longleftrightarrow> name = ns @ ''$$h'' @ collection \<and> ns \<noteq> [] \<and> collection \<noteq> [] \<and>
     \<not> sublist ''$$h'' ns \<and> \<not> sublist ''$$'' collection"

lemma Contains_sublist: "Contains s sub \<longleftrightarrow> sublist sub s"
  by (simp add: Contains_iff sublist_def)

lemma separator_first:
  assumes "ns @ ''$$h'' @ collection = u @ ''$$h'' @ v" "\<not> sublist ''$$h'' ns"
  shows "length ns \<le> length u"
proof (rule ccontr)
  assume "\<not> length ns \<le> length u"
  moreover obtain w where "ns = u @ w \<and> w @ ''$$h'' @ collection = ''$$h'' @ v \<or> ns @ w = u"
    using assms(1) by (auto simp: append_eq_append_conv2)
  ultimately have ns: "ns = u @ w" "w \<noteq> []" and w: "w @ ''$$h'' @ collection = ''$$h'' @ v" by auto
  have "sublist ''$$h'' w"
  proof (cases w rule: remdups_adj.cases)
    case (3 a b w')
    with w show ?thesis by (cases w') auto
  qed (use ns(2) w in auto)
  with ns(1) assms(2) show False by (auto simp: sublist_append)
qed

lemma SplitHashNamespace_iff: "SplitHashNamespace name = Inr (ns, collection) \<longleftrightarrow> hash_name name ns collection"
proof
  assume split: "SplitHashNamespace name = Inr (ns, collection)"
  then have "cut_at ''$$h'' name = Some (ns, collection)"
    by (auto simp: SplitHashNamespace_def Cut_def split: option.splits if_splits)
  note first = cut_at_first [OF this]
  note parts = SplitHashNamespace_Inr [OF split]
  have "\<not> sublist ''$$h'' ns"
  proof
    assume "sublist ''$$h'' ns"
    then obtain x y where ns: "ns = x @ ''$$h'' @ y" by (auto simp: sublist_def)
    with parts have "name = x @ ''$$h'' @ (y @ ''$$h'' @ collection)" by simp
    from first [OF this] ns show False by simp
  qed
  with parts show "hash_name name ns collection" by (simp add: hash_name_def Contains_sublist)
next
  assume name: "hash_name name ns collection"
  then have "cut_at ''$$h'' (ns @ ''$$h'' @ collection) = Some (ns, collection)"
    by (intro cut_at_append) (rule separator_first, assumption, simp add: hash_name_def)
  with name have "cut_at ''$$h'' name = Some (ns, collection)" by (simp only: hash_name_def)
  with name show "SplitHashNamespace name = Inr (ns, collection)"
    by (simp add: SplitHashNamespace_def Cut_def hash_name_def Contains_sublist)
qed

end
