(* ===== verification/Example.thy ===== *)
theory Example
  imports SnapshotProps ConfigProps PolicyProps Collections
begin

text \<open>
  A whole migration to evaluate on: the channel \<open>assets\<close> with the chaincode \<open>b\<close> (one public
  record), its legacy definition in \<open>lscc\<close>, and the private collection \<open>c\<close> (one hash); the
  mapping sends \<open>b\<close> to \<open>tb\<close> and its hashes to \<open>th\<close>. Every parameter is an executable function.
\<close>

subsection \<open>The snapshot\<close>

definition mig_public_meta :: bytes where
  "mig_public_meta = [1, 2, 1, 98, 1, 4, 108, 115, 99, 99, 2]"

definition mig_public_data :: bytes where
  "mig_public_data = [1, 11, 10, 1, 97, 18, 1, 98, 34, 3, 1, 3, 0,
     11, 10, 1, 98, 18, 1, 1, 34, 3, 1, 3, 0,
     22, 10, 12, 98, 126, 99, 111, 108, 108, 101, 99, 116, 105, 111, 110, 18, 1, 2, 34, 3, 1, 3, 0]"

definition mig_raw :: "(string, string) gomap" where
  "mig_raw =
     [(''public_state.data'', hex_EncodeToString (ex_digest mig_public_data)),
      (''public_state.metadata'', hex_EncodeToString (ex_digest mig_public_meta)),
      (''private_state_hashes.data'', ''cf''), (''private_state_hashes.metadata'', ''7d'')]"

definition mig_metadata :: metadata where
  "mig_metadata = ex_metadata\<lparr>SnapshotFilesRawHashes := mig_raw\<rparr>"

definition mig_files :: "(string \<times> bytes) list" where
  "mig_files =
     [(''_snapshot_signable_metadata.json'', [1]), (''_snapshot_additional_metadata.json'', [2]),
      (''public_state.data'', mig_public_data), (''public_state.metadata'', mig_public_meta),
      (''private_state_hashes.data'', ex_private_data), (''private_state_hashes.metadata'', ex_private_meta)]"

definition mig_snapshot_lib :: snapshot_lib where
  "mig_snapshot_lib = ex_lib\<lparr>decode_metadata := (\<lambda>bs. if bs = [1] then Inr (mig_metadata, []) else Inl (Ext ''json''))\<rparr>"

definition mig_stream :: snapshot_stream where
  "mig_stream = \<lparr>Directory = ''d'', Metadata = mig_metadata, AdditionalMetadata = ex_additional,
     PublicNamespaces = [\<lparr>Name = ''b'', Records = 1\<rparr>, \<lparr>Name = ''lscc'', Records = 2\<rparr>],
     PrivateHashNamespaces = [\<lparr>Name = ''b$$hc'', Records = 1\<rparr>],
     fileHashes = mig_raw @ [(signable_name, ''01''), (additional_name, ''02'')]\<rparr>"

definition mig_lscc :: "string \<Rightarrow> byte \<Rightarrow> snapshot_record" where
  "mig_lscc key v = \<lparr>rNamespace = ''lscc'', rKey = bytes_of_string key, rValue = Some [v], rMetadata = None\<rparr>"

lemma mig_opens: "OpenStream mig_snapshot_lib (ex_fs mig_files) ''d'' = Inr mig_stream"
  by code_simp

lemma mig_public_records:
  "snapshot_records mig_snapshot_lib (ex_fs mig_files) mig_stream ''public_state'' =
     Inr [ex_record, mig_lscc ''b'' 1, mig_lscc ''b~collection'' 2]"
  by code_simp

lemma mig_private_records:
  "snapshot_records mig_snapshot_lib (ex_fs mig_files) mig_stream private_prefix = Inr [ex_private_record]"
  by code_simp

subsection \<open>Mappings and configurations\<close>

definition mig_config :: mapping_config where
  "mig_config = \<lparr>TargetNetwork = ''net'',
     Mappings = [\<lparr>SourceChannel = ''assets'', SourceNamespace = ''b'', TargetNamespace = ''tb'', TargetHashNamespace = ''th''\<rparr>]\<rparr>"

definition mig_source_config :: pb_config_envelope where
  "mig_source_config = ex_conf [(''o2'', ex_org 66), (''o1'', ex_org 65)]"

text \<open>The byte 10 is a config block with the envelope \<open>[11]\<close> of the source channel.\<close>

definition mig_config_lib :: config_lib where
  "mig_config_lib = ex_config_lib\<lparr>
     pb_Block := (\<lambda>bs. if bs = [10] then Inr \<lparr>bHeader = Some 2, bData = Some [[11]]\<rparr> else Inl (Ext ''block'')),
     pb_Envelope := (\<lambda>bs. if bs = [11] then Inr \<lparr>Payload = [21], Signature = []\<rparr> else pb_Envelope ex_config_lib bs),
     pb_Payload := (\<lambda>bs. if bs = [21] then Inr \<lparr>pHeader = Some \<lparr>ChannelHeader = [2], SignatureHeader = []\<rparr>, pData = [21]\<rparr>
       else pb_Payload ex_config_lib bs),
     pb_ChannelHeader := (\<lambda>bs. Inr \<lparr>hType = 1, ChannelId = (if bs = [2] then ''assets'' else ''net'')\<rparr>),
     pb_ConfigEnvelope := (\<lambda>bs. if bs = [21] then Inr mig_source_config else pb_ConfigEnvelope ex_config_lib bs)\<rparr>"

definition mig_source :: channel_config where
  "mig_source = \<lparr>cEnvelope = \<lparr>Payload = [21], Signature = []\<rparr>,
     cPayload = \<lparr>pHeader = Some \<lparr>ChannelHeader = [2], SignatureHeader = []\<rparr>, pData = [21]\<rparr>,
     cConfig = mig_source_config, cChannel = ''assets'', cBlock = Some 2\<rparr>"

definition mig_target :: channel_config where
  "mig_target = \<lparr>cEnvelope = \<lparr>Payload = [2], Signature = []\<rparr>, cPayload = ex_payload [2],
     cConfig = cConfig ex_target, cChannel = ''net'', cBlock = None\<rparr>"

definition mig_merged :: channel_config where
  "mig_merged = mig_target\<lparr>cConfig := cConfig ex_merged\<rparr>"

lemma mig_decodes:
  "decodeChannelConfig mig_config_lib [10] = Inr mig_source"
  "decodeChannelConfig mig_config_lib [1, 2] = Inr mig_target"
  by code_simp+

subsection \<open>Policies\<close>

definition mig_lifecycle_lib :: lifecycle_lib where
  "mig_lifecycle_lib = \<lparr>pb_StateMetadata = (\<lambda>bs. if bs = [] then Inr [] else Inl (Ext ''metadata'')),
     pb_StateData = (\<lambda>bs. Inr \<lparr>GetInt64 = 0, GetBytes = []\<rparr>),
     pb_ChaincodeData = (\<lambda>bs. if bs = [1] then Inr \<lparr>lcName = ''b'', lcVscc = ''vscc'', lcPolicy = Some ex_envelope\<rparr> else Inl (Ext ''chaincode'')),
     pb_ValidationInfo = (\<lambda>bs. Inl (Ext ''validation'')), pb_ApplicationPolicy = (\<lambda>bs. Inl (Ext ''policy'')),
     pb_Collections = (\<lambda>bs. if bs = [2] then Inr [Some \<lparr>scName = ''c'', scEndorsementPolicy = None\<rparr>] else Inr [])\<rparr>"

definition mig_bundle :: "unit channel_bundle" where
  "mig_bundle = \<lparr>PolicyManager = (\<lambda>p. None), MSPVersion = 2, Organizations = Some [(''o1'', ''A''), (''o2'', ''B'')]\<rparr>"

definition mig_bundle_lib :: "unit bundle_lib" where
  "mig_bundle_lib = \<lparr>NewBundle = (\<lambda>channel config. Inr mig_bundle), ValidateConfigTx = (\<lambda>bs. Inr ()),
     CreateNamespaceVerifier = (\<lambda>n bs b. if bs = [] then Inl (Ext ''policy'') else Inr ()),
     SignedByAnyMember = (\<lambda>msps. ex_envelope)\<rparr>"

definition mig_policy :: bytes where
  "mig_policy = 9 # ex_marshal_rule (eRule ex_canonical)"

definition mig_snapshots :: "(string, snapshot_stream) gomap" where
  "mig_snapshots = [(''assets'', mig_stream)]"

definition mig_sources :: "(string, channel_config) gomap" where
  "mig_sources = [(''assets'', mig_source)]"

lemma mig_counts: "mappingCounts mig_config mig_snapshots = Inr [(''tb'', 1), (''th'', 1)]"
  by code_simp

lemma mig_prepares:
  "preparePolicies mig_snapshot_lib mig_config_lib ex_policy_lib mig_lifecycle_lib mig_bundle_lib listed_order (ex_fs mig_files)
     mig_config mig_snapshots mig_sources mig_target = Inr (mig_merged, [(''tb'', mig_policy), (''th'', mig_policy)])"
  by code_simp

end
