(* ===== verification/PrepareProps.thy ===== *)
theory PrepareProps
  imports Ledger Agreement Example Collections
begin

text \<open>
  The properties of the preparation of policies (theory Prepare). Every step of the nested loops
  realizes a list of requests (theory Agreement): a target namespace with the encoded policy it must
  get. The loops succeed when all requests agree and the committer accepts them, and the prepared
  policies are the requests, whatever the order of iteration.
\<close>

subsection \<open>The requests\<close>

definition accepted :: "('o, 'l) bundle_lib_scheme \<Rightarrow> 'o channel_bundle \<Rightarrow> string \<Rightarrow> bytes \<Rightarrow> bool" where
  "accepted B target t enc \<longleftrightarrow> CreateNamespaceVerifier B t enc target = Inr ()"

definition policy_request :: "'p policy_lib_scheme \<Rightarrow> 'o channel_bundle \<Rightarrow> string \<Rightarrow> app_policy \<Rightarrow> (string \<times> bytes) list res" where
  "policy_request P src t p = rbind (resolvePolicy P p (PolicyManager src)) (\<lambda>enc. Inr [(t, enc)])"

definition collection_request ::
  "'p policy_lib_scheme \<Rightarrow> ('o, 'l) bundle_lib_scheme \<Rightarrow> map_orders \<Rightarrow> 'o channel_bundle \<Rightarrow> string \<Rightarrow> string \<Rightarrow> mapping \<Rightarrow>
   chaincode_policy \<Rightarrow> namespace \<Rightarrow> (string \<times> bytes) list res" where
  "collection_request P B rng src channel namespace m d hashes =
     rbind (SplitHashNamespace (Name hashes)) (\<lambda>(source, collection).
       if source \<noteq> namespace then Inr []
       else rbind (collection_policy B (range_organizations rng channel namespace (Name hashes)) src d collection) (\<lambda>(found, effective).
         if \<not> found then Inl (New [] []) else policy_request P src (hashTarget m) effective))"

definition definition_request ::
  "'p policy_lib_scheme \<Rightarrow> ('o, 'l) bundle_lib_scheme \<Rightarrow> map_orders \<Rightarrow> 'o channel_bundle \<Rightarrow> mapping_config \<Rightarrow> string \<Rightarrow> snapshot_stream \<Rightarrow>
   string \<times> chaincode_policy \<Rightarrow> (string \<times> bytes) list res" where
  "definition_request P B rng src config channel s nd = (case nd of (namespace, d) \<Rightarrow>
     let m = fst (mappingFor config channel namespace) in
     rbind (policy_request P src (TargetNamespace m) (cp_application d)) (\<lambda>xs.
     rbind (gather (collection_request P B rng src channel namespace m d) (PrivateHashNamespaces s)) (\<lambda>ys. Inr (xs @ ys))))"

definition channel_request ::
  "'s lib_scheme \<Rightarrow> 'p policy_lib_scheme \<Rightarrow> 'q lifecycle_lib_scheme \<Rightarrow> ('o, 'l) bundle_lib_scheme \<Rightarrow> map_orders \<Rightarrow> fs \<Rightarrow>
   mapping_config \<Rightarrow> (string, snapshot_stream) gomap \<Rightarrow> (string, channel_config) gomap \<Rightarrow> 'o channel_bundle \<Rightarrow> string \<Rightarrow>
   (string \<times> bytes) list res" where
  "channel_request S P Q B rng f config snapshots sources target channel =
     (let s = the (map_of snapshots channel) in
      rbind (wrapped [''source channel'', channel] (bundle_of B (the (map_of sources channel)))) (\<lambda>src.
      if MSPVersion target < MSPVersion src then Inl (New [] [])
      else rbind (readChaincodePolicies S Q f s config) (\<lambda>defs.
        gather (definition_request P B rng src config channel s) (range_definitions rng channel defs))))"

lemma realizes_put:
  "realizes (accepted B target)
     (\<lambda>result. if (case map_of result t of None \<Rightarrow> False | Some previous \<Rightarrow> previous \<noteq> enc) then Inl e
       else rbind (CreateNamespaceVerifier B t enc target) (\<lambda>_. Inr (AList.update t enc result)))
     (Inr [(t, enc)])"
  unfolding realizes_def
proof (intro allI)
  fix m m' :: policies
  have "single_valued (insert (t, enc) (entries m)) \<longleftrightarrow> map_of m t = None \<or> map_of m t = Some enc"
    by (cases "map_of m t") (auto simp: single_valued_def)
  then show "(if (case map_of m t of None \<Rightarrow> False | Some previous \<Rightarrow> previous \<noteq> enc) then Inl e
       else rbind (CreateNamespaceVerifier B t enc target) (\<lambda>_. Inr (AList.update t enc m))) = Inr m' \<longleftrightarrow>
      (\<exists>kvs. Inr [(t, enc)] = Inr kvs \<and> (\<forall>(k, v) \<in> set kvs. accepted B target k v) \<and>
         single_valued (set kvs \<union> entries m) \<and> m' = settle kvs m)"
    by (cases "map_of m t") (auto simp: accepted_def)
qed

lemma realizes_add_policy:
  "realizes (accepted B target) (add_policy P B target src t p) (policy_request P src t p)"
proof -
  have "add_policy P B target src t p =
      (\<lambda>result. rbind (resolvePolicy P p (PolicyManager src)) (\<lambda>enc.
         if (case map_of result t of None \<Rightarrow> False | Some previous \<Rightarrow> previous \<noteq> enc)
         then Inl (New ''conflicting endorsement policies for target namespace'' [t])
         else rbind (CreateNamespaceVerifier B t enc target) (\<lambda>_. Inr (AList.update t enc result))))"
    by (rule ext) (simp add: add_policy_def)
  then show ?thesis
    unfolding policy_request_def by (simp only:) (intro realizes_rbind realizes_put)
qed

lemma realizes_collection:
  "realizes (accepted B target) (prepare_collection P B rng target src channel namespace m d hashes)
     (collection_request P B rng src channel namespace m d hashes)"
proof -
  have "prepare_collection P B rng target src channel namespace m d hashes =
      (\<lambda>result. rbind (SplitHashNamespace (Name hashes)) (\<lambda>(source, collection).
         if source \<noteq> namespace then Inr result
         else rbind (collection_policy B (range_organizations rng channel namespace (Name hashes)) src d collection) (\<lambda>(found, effective).
           if \<not> found then Inl (New ''hashes for unknown collection'' [channel, namespace, collection])
           else wrapped [channel, Name hashes] (add_policy P B target src (hashTarget m) effective result))))"
    by (rule ext) (simp add: prepare_collection_def)
  moreover have "realizes (accepted B target) \<dots> (collection_request P B rng src channel namespace m d hashes)"
    unfolding collection_request_def
    by (intro realizes_rbind_pair realizes_if realizes_skip realizes_fail realizes_wrapped realizes_add_policy)
  ultimately show ?thesis by simp
qed

lemma realizes_definition:
  "realizes (accepted B target) (prepare_definition P B rng target src config channel s nd)
     (definition_request P B rng src config channel s nd)"
proof -
  obtain namespace d where nd: "nd = (namespace, d)" by (cases nd)
  let ?m = "fst (mappingFor config channel namespace)"
  have "prepare_definition P B rng target src config channel s nd =
      (\<lambda>result. rbind (wrapped [channel, namespace] (add_policy P B target src (TargetNamespace ?m) (cp_application d) result))
         (rfold (prepare_collection P B rng target src channel namespace ?m d) (PrivateHashNamespaces s)))"
    by (rule ext) (simp add: prepare_definition_def nd Let_def)
  moreover have "realizes (accepted B target) \<dots> (definition_request P B rng src config channel s nd)"
    unfolding definition_request_def nd prod.case Let_def
    by (intro realizes_seq realizes_wrapped realizes_add_policy realizes_rfold realizes_collection)
  ultimately show ?thesis by simp
qed

lemma realizes_channel:
  "realizes (accepted B target) (prepare_channel S P Q B rng f config snapshots sources target channel)
     (channel_request S P Q B rng f config snapshots sources target channel)"
proof -
  let ?s = "the (map_of snapshots channel)"
  have "prepare_channel S P Q B rng f config snapshots sources target channel =
      (\<lambda>result. rbind (wrapped [''source channel'', channel] (bundle_of B (the (map_of sources channel)))) (\<lambda>src.
         if MSPVersion target < MSPVersion src
         then Inl (New ''target channel capabilities downgrade MSP validation from source channel'' [channel])
         else rbind (readChaincodePolicies S Q f ?s config) (\<lambda>defs.
           rfold (prepare_definition P B rng target src config channel ?s) (range_definitions rng channel defs) result)))"
    by (rule ext) (simp add: prepare_channel_def Let_def)
  moreover have "realizes (accepted B target) \<dots> (channel_request S P Q B rng f config snapshots sources target channel)"
    unfolding channel_request_def Let_def
    by (intro realizes_rbind realizes_if realizes_fail realizes_rfold realizes_definition)
  ultimately show ?thesis by simp
qed

subsection \<open>What the loops ask for\<close>

text \<open>The policy \<open>p\<close> that the loop over the definitions asks for the target namespace \<open>t\<close>.\<close>

definition requested ::
  "('o, 'l) bundle_lib_scheme \<Rightarrow> map_orders \<Rightarrow> 'o channel_bundle \<Rightarrow> mapping_config \<Rightarrow> string \<Rightarrow> snapshot_stream \<Rightarrow>
   string \<Rightarrow> chaincode_policy \<Rightarrow> string \<Rightarrow> app_policy \<Rightarrow> bool" where
  "requested B rng src config channel s namespace d t p \<longleftrightarrow>
     (let m = fst (mappingFor config channel namespace) in
      (t = TargetNamespace m \<and> p = cp_application d) \<or>
      (\<exists>hashes \<in> set (PrivateHashNamespaces s). \<exists>collection. SplitHashNamespace (Name hashes) = Inr (namespace, collection) \<and>
         t = hashTarget m \<and> collection_policy B (range_organizations rng channel namespace (Name hashes)) src d collection = Inr (True, p)))"

definition demanded ::
  "('o, 'l) bundle_lib_scheme \<Rightarrow> map_orders \<Rightarrow> 'o channel_bundle \<Rightarrow> definitions \<Rightarrow> mapping_config \<Rightarrow> string \<Rightarrow> snapshot_stream \<Rightarrow>
   string \<Rightarrow> app_policy \<Rightarrow> bool" where
  "demanded B rng src defs config channel s t p \<longleftrightarrow>
     (\<exists>namespace d. map_of defs namespace = Some d \<and> requested B rng src config channel s namespace d t p)"

lemma policy_request_Inr:
  "policy_request P src t p = Inr kvs \<longleftrightarrow> (\<exists>enc. resolvePolicy P p (PolicyManager src) = Inr enc \<and> kvs = [(t, enc)])"
  by (auto simp: policy_request_def)

lemma collection_request_Inr:
  "collection_request P B rng src channel namespace m d hashes = Inr kvs \<longleftrightarrow>
     (\<exists>source collection. SplitHashNamespace (Name hashes) = Inr (source, collection) \<and>
        (if source = namespace
         then \<exists>p enc. collection_policy B (range_organizations rng channel namespace (Name hashes)) src d collection = Inr (True, p) \<and>
           resolvePolicy P p (PolicyManager src) = Inr enc \<and> kvs = [(hashTarget m, enc)]
         else kvs = []))"
  by (auto simp: collection_request_def policy_request_Inr split: if_splits)

lemma collection_requests_in:
  assumes "gather (collection_request P B rng src channel namespace m d) nss = Inr ys"
  shows "(t, enc) \<in> set ys \<longleftrightarrow>
    (\<exists>hashes \<in> set nss. \<exists>collection p. SplitHashNamespace (Name hashes) = Inr (namespace, collection) \<and>
       t = hashTarget m \<and> collection_policy B (range_organizations rng channel namespace (Name hashes)) src d collection = Inr (True, p) \<and>
       resolvePolicy P p (PolicyManager src) = Inr enc)"
  unfolding gather_set [OF assms] collection_request_Inr
proof (rule bex_cong [OF refl])
  fix hashes
  show "(\<exists>kvs. (\<exists>source collection. SplitHashNamespace (Name hashes) = Inr (source, collection) \<and>
        (if source = namespace
         then \<exists>p enc. collection_policy B (range_organizations rng channel namespace (Name hashes)) src d collection = Inr (True, p) \<and>
           resolvePolicy P p (PolicyManager src) = Inr enc \<and> kvs = [(hashTarget m, enc)]
         else kvs = [])) \<and> (t, enc) \<in> set kvs) \<longleftrightarrow>
      (\<exists>collection p. SplitHashNamespace (Name hashes) = Inr (namespace, collection) \<and>
       t = hashTarget m \<and> collection_policy B (range_organizations rng channel namespace (Name hashes)) src d collection = Inr (True, p) \<and>
       resolvePolicy P p (PolicyManager src) = Inr enc)"
    by (cases "SplitHashNamespace (Name hashes)") (auto split: if_splits)
qed

lemma definition_request_parts:
  assumes "definition_request P B rng src config channel s (namespace, d) = Inr kvs"
  obtains enc ys where "resolvePolicy P (cp_application d) (PolicyManager src) = Inr enc"
    "gather (collection_request P B rng src channel namespace (fst (mappingFor config channel namespace)) d) (PrivateHashNamespaces s) = Inr ys"
    "kvs = (TargetNamespace (fst (mappingFor config channel namespace)), enc) # ys"
  using assms by (auto simp: definition_request_def policy_request_Inr Let_def)

lemma definition_request_set:
  assumes "definition_request P B rng src config channel s (namespace, d) = Inr kvs"
  shows "(t, enc) \<in> set kvs \<longleftrightarrow>
    (\<exists>p. requested B rng src config channel s namespace d t p \<and> resolvePolicy P p (PolicyManager src) = Inr enc)"
proof -
  from assms obtain enc0 ys where parts: "resolvePolicy P (cp_application d) (PolicyManager src) = Inr enc0"
    "gather (collection_request P B rng src channel namespace (fst (mappingFor config channel namespace)) d) (PrivateHashNamespaces s) = Inr ys"
    "kvs = (TargetNamespace (fst (mappingFor config channel namespace)), enc0) # ys"
    by (rule definition_request_parts)
  have "(t, enc) \<in> set kvs \<longleftrightarrow> (t = TargetNamespace (fst (mappingFor config channel namespace)) \<and> enc = enc0) \<or> (t, enc) \<in> set ys"
    by (simp add: parts(3))
  then show ?thesis
    unfolding collection_requests_in [OF parts(2)] using parts(1) unfolding requested_def Let_def by fastforce
qed

lemma definition_request_total:
  assumes "definition_request P B rng src config channel s (namespace, d) = Inr kvs"
    "requested B rng src config channel s namespace d t p"
  shows "\<exists>enc. resolvePolicy P p (PolicyManager src) = Inr enc"
proof -
  from assms(1) obtain enc0 ys where parts: "resolvePolicy P (cp_application d) (PolicyManager src) = Inr enc0"
    "gather (collection_request P B rng src channel namespace (fst (mappingFor config channel namespace)) d) (PrivateHashNamespaces s) = Inr ys"
    by (rule definition_request_parts)
  from assms(2) consider "p = cp_application d"
    | hashes collection where "hashes \<in> set (PrivateHashNamespaces s)"
      "SplitHashNamespace (Name hashes) = Inr (namespace, collection)" "collection_policy B (range_organizations rng channel namespace (Name hashes)) src d collection = Inr (True, p)"
    unfolding requested_def Let_def by blast
  then show ?thesis
  proof cases
    case 1
    with parts(1) show ?thesis by blast
  next
    case 2
    from gather_total [OF parts(2) 2(1)] 2(2,3) show ?thesis by (auto simp: collection_request_Inr)
  qed
qed

lemma demanded_iff:
  "wf_map defs \<Longrightarrow> demanded B rng src defs config channel s t p \<longleftrightarrow>
     (\<exists>(namespace, d) \<in> set defs. requested B rng src config channel s namespace d t p)"
  unfolding demanded_def wf_map_def keys_def by (auto simp: map_of_eq_Some_iff)

lemma add_definition_Inr:
  "add_definition Q channel flds m defs = Inr defs' \<longleftrightarrow>
     (if SourceChannel m \<noteq> channel then defs' = defs
      else \<exists>d. read_definition Q channel flds (SourceNamespace m) = Inr d \<and>
        defs' = AList.update (SourceNamespace m) d defs)"
  by (auto simp: add_definition_def)

lemma add_definitions_Inr:
  assumes "rfold (add_definition Q channel flds) ms [] = Inr defs"
  shows "wf_map defs \<and> set (keys defs) = SourceNamespace ` {m \<in> set ms. SourceChannel m = channel} \<and>
    (\<forall>namespace d. map_of defs namespace = Some d \<longrightarrow> read_definition Q channel flds namespace = Inr d)"
proof (rule rfold_induct [OF assms, where P = "\<lambda>pre defs. wf_map defs \<and>
      set (keys defs) = SourceNamespace ` {m \<in> set pre. SourceChannel m = channel} \<and>
      (\<forall>namespace d. map_of defs namespace = Some d \<longrightarrow> read_definition Q channel flds namespace = Inr d)"])
  fix pre post :: "mapping list" and m s t
  assume IH: "wf_map s \<and> set (keys s) = SourceNamespace ` {m \<in> set pre. SourceChannel m = channel} \<and>
      (\<forall>namespace d. map_of s namespace = Some d \<longrightarrow> read_definition Q channel flds namespace = Inr d)"
    and step: "add_definition Q channel flds m s = Inr t"
  have ms: "{m' \<in> set (pre @ [m]). SourceChannel m' = channel} =
      (if SourceChannel m = channel then insert m else id) {m' \<in> set pre. SourceChannel m' = channel}" by auto
  have "set (keys (AList.update k d s)) = insert k (set (keys s))" for k d by (auto simp: set_keys)
  with IH step show "wf_map t \<and> set (keys t) = SourceNamespace ` {m' \<in> set (pre @ [m]). SourceChannel m' = channel} \<and>
      (\<forall>namespace d. map_of t namespace = Some d \<longrightarrow> read_definition Q channel flds namespace = Inr d)"
    unfolding ms by (auto simp: add_definition_Inr split: if_splits)
qed (simp add: wf_map_def keys_def)

lemma readChaincodePolicies_Inr:
  "readChaincodePolicies S Q f s config = Inr defs \<longleftrightarrow>
     (\<exists>flds. WalkPublicRecords S f s (Some (collect_fields (ChannelName (Metadata s)) (Mappings config))) [] = Inr flds \<and>
        rfold (add_definition Q (ChannelName (Metadata s)) flds) (Mappings config) [] = Inr defs)"
  by (simp add: readChaincodePolicies_def Let_def)

lemma readChaincodePolicies_keys:
  assumes "readChaincodePolicies S Q f s config = Inr defs"
  shows "wf_map defs"
    and "set (keys defs) = SourceNamespace ` {m \<in> set (Mappings config). SourceChannel m = ChannelName (Metadata s)}"
proof -
  from assms obtain flds where "rfold (add_definition Q (ChannelName (Metadata s)) flds) (Mappings config) [] = Inr defs"
    by (auto simp: readChaincodePolicies_Inr)
  from add_definitions_Inr [OF this] show "wf_map defs"
    "set (keys defs) = SourceNamespace ` {m \<in> set (Mappings config). SourceChannel m = ChannelName (Metadata s)}" by auto
qed

subsection \<open>A channel\<close>

lemma some_order_set: "some_order rng \<Longrightarrow> set (range_definitions rng channel defs) = set defs"
  by (rule iteration_order_set [OF some_order_sel(2)])

text \<open>The requests of a channel: its bundle, no downgrade of the MSP version, its definitions.\<close>

lemma channel_request_Inr:
  "channel_request S P Q B rng f config snapshots sources target channel = Inr kvs \<longleftrightarrow>
     (\<exists>src defs. bundle_of B (the (map_of sources channel)) = Inr src \<and> MSPVersion src \<le> MSPVersion target \<and>
        readChaincodePolicies S Q f (the (map_of snapshots channel)) config = Inr defs \<and>
        gather (definition_request P B rng src config channel (the (map_of snapshots channel))) (range_definitions rng channel defs) = Inr kvs)"
  by (auto simp: channel_request_def Let_def not_less)

lemma definition_requests:
  assumes "gather (definition_request P B rng src config channel s) (range_definitions rng channel defs) = Inr kvs" "wf_map defs" "some_order rng"
  shows "(t, enc) \<in> set kvs \<longleftrightarrow>
      (\<exists>p. demanded B rng src defs config channel s t p \<and> resolvePolicy P p (PolicyManager src) = Inr enc)"
    and "demanded B rng src defs config channel s t p \<Longrightarrow> \<exists>enc. resolvePolicy P p (PolicyManager src) = Inr enc"
proof -
  note total = gather_total [OF assms(1), unfolded some_order_set [OF assms(3)]]
  show "(t, enc) \<in> set kvs \<longleftrightarrow>
      (\<exists>p. demanded B rng src defs config channel s t p \<and> resolvePolicy P p (PolicyManager src) = Inr enc)"
    unfolding gather_set [OF assms(1)] some_order_set [OF assms(3)] demanded_iff [OF assms(2)]
  proof
    assume "\<exists>x \<in> set defs. \<exists>kvs. definition_request P B rng src config channel s x = Inr kvs \<and> (t, enc) \<in> set kvs"
    then show "\<exists>p. (\<exists>(namespace, d) \<in> set defs. requested B rng src config channel s namespace d t p) \<and>
        resolvePolicy P p (PolicyManager src) = Inr enc"
      using definition_request_set by fastforce
  next
    assume "\<exists>p. (\<exists>(namespace, d) \<in> set defs. requested B rng src config channel s namespace d t p) \<and>
        resolvePolicy P p (PolicyManager src) = Inr enc"
    then obtain p namespace d where nd: "(namespace, d) \<in> set defs" "requested B rng src config channel s namespace d t p"
      "resolvePolicy P p (PolicyManager src) = Inr enc" by blast
    from total [OF nd(1)] obtain kvs where "definition_request P B rng src config channel s (namespace, d) = Inr kvs" by blast
    with nd definition_request_set [OF this] show "\<exists>x \<in> set defs. \<exists>kvs. definition_request P B rng src config channel s x = Inr kvs \<and> (t, enc) \<in> set kvs"
      by blast
  qed
  assume "demanded B rng src defs config channel s t p"
  then obtain namespace d where nd: "(namespace, d) \<in> set defs" "requested B rng src config channel s namespace d t p"
    unfolding demanded_iff [OF assms(2)] by blast
  from total [OF nd(1)] definition_request_total nd(2) show "\<exists>enc. resolvePolicy P p (PolicyManager src) = Inr enc" by blast
qed

subsection \<open>preparePolicies\<close>

definition all_requests ::
  "'s lib_scheme \<Rightarrow> 'p policy_lib_scheme \<Rightarrow> 'q lifecycle_lib_scheme \<Rightarrow> ('o, 'l) bundle_lib_scheme \<Rightarrow> map_orders \<Rightarrow> fs \<Rightarrow>
   mapping_config \<Rightarrow> (string, snapshot_stream) gomap \<Rightarrow> (string, channel_config) gomap \<Rightarrow> 'o channel_bundle \<Rightarrow>
   (string \<times> bytes) list res" where
  "all_requests S P Q B rng f config snapshots sources target =
     gather (channel_request S P Q B rng f config snapshots sources target) (sortedKeys snapshots)"

lemma preparePolicies_Inr:
  "preparePolicies S C P Q B rng f config snapshots sources target = Inr (target', policies) \<longleftrightarrow>
     reuseMSPs C (range_groups rng) target sources = Inr target' \<and>
     (\<exists>encoded tb kvs. encode C target' = Inr encoded \<and> ValidateConfigTx B encoded = Inr () \<and> bundle_of B target' = Inr tb \<and>
        all_requests S P Q B rng f config snapshots sources tb = Inr kvs \<and>
        (\<forall>(t, enc) \<in> set kvs. accepted B tb t enc) \<and> single_valued (set kvs) \<and> policies = settle kvs [])"
proof -
  have r: "realizes (accepted B tb) (rfold (prepare_channel S P Q B rng f config snapshots sources tb) (sortedKeys snapshots))
      (all_requests S P Q B rng f config snapshots sources tb)" for tb
    unfolding all_requests_def by (intro realizes_rfold realizes_channel)
  have "rfold (prepare_channel S P Q B rng f config snapshots sources tb) (sortedKeys snapshots) [] = Inr policies \<longleftrightarrow>
      (\<exists>kvs. all_requests S P Q B rng f config snapshots sources tb = Inr kvs \<and>
        (\<forall>(t, enc) \<in> set kvs. accepted B tb t enc) \<and> single_valued (set kvs) \<and> policies = settle kvs [])" for tb
    using realizes_iff [OF r, of tb "[]" policies] by simp
  then show ?thesis by (auto simp: preparePolicies_def)
qed

text \<open>What a channel brings: the bundle of its configuration and its committed definitions.\<close>

definition channel_inputs ::
  "'s lib_scheme \<Rightarrow> 'q lifecycle_lib_scheme \<Rightarrow> ('o, 'l) bundle_lib_scheme \<Rightarrow> fs \<Rightarrow> mapping_config \<Rightarrow>
   (string, snapshot_stream) gomap \<Rightarrow> (string, channel_config) gomap \<Rightarrow> string \<Rightarrow> 'o channel_bundle \<Rightarrow> definitions \<Rightarrow> bool" where
  "channel_inputs S Q B f config snapshots sources channel src defs \<longleftrightarrow>
     bundle_of B (the (map_of sources channel)) = Inr src \<and>
     readChaincodePolicies S Q f (the (map_of snapshots channel)) config = Inr defs"

lemma channel_inputs_unique:
  "channel_inputs S Q B f config snapshots sources channel src defs \<Longrightarrow>
   channel_inputs S Q B f config snapshots sources channel src' defs' \<Longrightarrow> src' = src \<and> defs' = defs"
  by (simp add: channel_inputs_def)

lemma channel_requests:
  assumes "channel_request S P Q B rng f config snapshots sources tb channel = Inr kvs" "some_order rng"
  shows "\<exists>src defs. channel_inputs S Q B f config snapshots sources channel src defs \<and> MSPVersion src \<le> MSPVersion tb \<and>
    wf_map defs \<and>
    gather (definition_request P B rng src config channel (the (map_of snapshots channel))) (range_definitions rng channel defs) = Inr kvs \<and>
    (\<forall>t p. demanded B rng src defs config channel (the (map_of snapshots channel)) t p \<longrightarrow>
       (\<exists>enc. resolvePolicy P p (PolicyManager src) = Inr enc)) \<and>
    (\<forall>t enc. (t, enc) \<in> set kvs \<longleftrightarrow> (\<exists>p. demanded B rng src defs config channel (the (map_of snapshots channel)) t p \<and>
       resolvePolicy P p (PolicyManager src) = Inr enc))"
proof -
  from assms(1) obtain src defs where in_: "channel_inputs S Q B f config snapshots sources channel src defs"
    "MSPVersion src \<le> MSPVersion tb"
    and g: "gather (definition_request P B rng src config channel (the (map_of snapshots channel))) (range_definitions rng channel defs) = Inr kvs"
    unfolding channel_request_Inr channel_inputs_def by blast
  from in_(1) have wf: "wf_map defs" by (auto simp: channel_inputs_def dest: readChaincodePolicies_keys)
  show ?thesis
    by (intro exI [of _ src] exI [of _ defs] conjI allI impI in_ wf g definition_requests [OF g wf assms(2)])
qed

lemma all_requests_in:
  assumes "all_requests S P Q B rng f config snapshots sources tb = Inr kvs" "some_order rng"
  shows "(t, enc) \<in> set kvs \<longleftrightarrow>
    (\<exists>channel \<in> set (keys snapshots). \<exists>src defs p. channel_inputs S Q B f config snapshots sources channel src defs \<and>
       demanded B rng src defs config channel (the (map_of snapshots channel)) t p \<and>
       resolvePolicy P p (PolicyManager src) = Inr enc)" (is "_ \<longleftrightarrow> (\<exists>channel \<in> _. ?from channel)")
proof -
  have "(\<exists>kvs. channel_request S P Q B rng f config snapshots sources tb channel = Inr kvs \<and> (t, enc) \<in> set kvs) \<longleftrightarrow>
      ?from channel" if "channel \<in> set (keys snapshots)" for channel
  proof -
    from that obtain kvs where kvs: "channel_request S P Q B rng f config snapshots sources tb channel = Inr kvs"
      using gather_total [OF assms(1) [unfolded all_requests_def], of channel] by auto
    from channel_requests [OF kvs assms(2)] obtain src defs where
      in_: "channel_inputs S Q B f config snapshots sources channel src defs"
      and iff: "\<forall>t enc. (t, enc) \<in> set kvs \<longleftrightarrow> (\<exists>p. demanded B rng src defs config channel (the (map_of snapshots channel)) t p \<and>
        resolvePolicy P p (PolicyManager src) = Inr enc)" by blast
    have "(\<exists>kvs. channel_request S P Q B rng f config snapshots sources tb channel = Inr kvs \<and> (t, enc) \<in> set kvs) \<longleftrightarrow>
        (t, enc) \<in> set kvs" by (simp add: kvs)
    also have "\<dots> \<longleftrightarrow> (\<exists>p. demanded B rng src defs config channel (the (map_of snapshots channel)) t p \<and>
        resolvePolicy P p (PolicyManager src) = Inr enc)" by (rule iff [rule_format])
    also have "\<dots> \<longleftrightarrow> ?from channel" using in_ channel_inputs_unique [OF in_] by blast
    finally show ?thesis .
  qed
  then show ?thesis
    unfolding gather_set [OF assms(1) [unfolded all_requests_def]] by (simp cong: bex_cong)
qed

subsection \<open>What the snapshots ask for\<close>

text \<open>
  The policy that a committed definition \<open>d\<close>, mapped by \<open>m\<close>, asks for the target namespace \<open>t\<close>: its own
  for the target of its public records, and that of every private collection with hashes in the snapshot
  for the target of the hashes.
\<close>

definition asks ::
  "('o, 'l) bundle_lib_scheme \<Rightarrow> 'o channel_bundle \<Rightarrow> snapshot_stream \<Rightarrow> mapping \<Rightarrow> chaincode_policy \<Rightarrow> string \<Rightarrow> app_policy \<Rightarrow> bool" where
  "asks B src s m d t p \<longleftrightarrow>
     t = TargetNamespace m \<and> p = cp_application d \<or>
     (\<exists>hashes \<in> set (PrivateHashNamespaces s). \<exists>collection. hash_name (Name hashes) (SourceNamespace m) collection \<and>
        t = (if TargetHashNamespace m = [] then TargetNamespace m else TargetHashNamespace m) \<and>
        governs B src d collection p)"

definition demands ::
  "('o, 'l) bundle_lib_scheme \<Rightarrow> 'o channel_bundle \<Rightarrow> definitions \<Rightarrow> mapping_config \<Rightarrow> string \<Rightarrow> snapshot_stream \<Rightarrow>
   string \<Rightarrow> app_policy \<Rightarrow> bool" where
  "demands B src defs config channel s t p \<longleftrightarrow>
     (\<exists>m \<in> set (Mappings config). SourceChannel m = channel \<and>
        (\<exists>d. map_of defs (SourceNamespace m) = Some d \<and> asks B src s m d t p))"

lemma requested_asks:
  assumes "some_order rng" "unique_msps src"
  shows "requested B rng src config channel s namespace d t p \<longleftrightarrow>
    (let m = fst (mappingFor config channel namespace) in
     t = TargetNamespace m \<and> p = cp_application d \<or>
     (\<exists>hashes \<in> set (PrivateHashNamespaces s). \<exists>collection. hash_name (Name hashes) namespace collection \<and>
        t = hashTarget m \<and> governs B src d collection p))"
  unfolding requested_def Let_def SplitHashNamespace_iff
    collection_policy_governs [OF some_order_sel(3) [OF assms(1)] assms(2)] by blast

lemma demanded_demands:
  assumes "some_order rng" "unique_msps src" "distinct (map source_of (Mappings config))"
    "set (keys defs) = SourceNamespace ` {m \<in> set (Mappings config). SourceChannel m = channel}"
  shows "demanded B rng src defs config channel s t p \<longleftrightarrow> demands B src defs config channel s t p"
proof -
  have found: "fst (mappingFor config channel (SourceNamespace m)) = m"
    if "m \<in> set (Mappings config)" "SourceChannel m = channel" for m
    using that mappingFor_iff [OF assms(3), of channel "SourceNamespace m" m] by (simp add: source_of_def)
  have eq: "requested B rng src config channel s (SourceNamespace m) d t p \<longleftrightarrow> asks B src s m d t p"
    if "m \<in> set (Mappings config)" "SourceChannel m = channel" for m d
    unfolding requested_asks [OF assms(1,2)] asks_def Let_def found [OF that] hashTarget_def by auto
  show ?thesis
  proof
    assume "demanded B rng src defs config channel s t p"
    then obtain namespace d where nd: "map_of defs namespace = Some d" "requested B rng src config channel s namespace d t p"
      unfolding demanded_def by blast
    then have "namespace \<in> set (keys defs)" by (auto simp: set_keys)
    then obtain m where m: "m \<in> set (Mappings config)" "SourceChannel m = channel" "namespace = SourceNamespace m"
      using assms(4) by auto
    with nd eq [OF m(1,2)] show "demands B src defs config channel s t p" unfolding demands_def by blast
  next
    assume "demands B src defs config channel s t p"
    then show "demanded B rng src defs config channel s t p" unfolding demanded_def demands_def using eq by blast
  qed
qed

text \<open>No two organizations of a source channel share an MSP ID.\<close>

definition unique_source_msps ::
  "('o, 'l) bundle_lib_scheme \<Rightarrow> (string, snapshot_stream) gomap \<Rightarrow> (string, channel_config) gomap \<Rightarrow> bool" where
  "unique_source_msps B snapshots sources \<longleftrightarrow>
     (\<forall>channel \<in> set (keys snapshots). \<forall>src. bundle_of B (the (map_of sources channel)) = Inr src \<longrightarrow> unique_msps src)"

lemma channel_inputs_demanded:
  assumes "channel_inputs S Q B f config snapshots sources channel src defs" "channel \<in> set (keys snapshots)"
    "some_order rng" "unique_source_msps B snapshots sources" "distinct (map source_of (Mappings config))"
    "\<forall>channel s. map_of snapshots channel = Some s \<longrightarrow> ChannelName (Metadata s) = channel"
  shows "demanded B rng src defs config channel (the (map_of snapshots channel)) t p \<longleftrightarrow>
    demands B src defs config channel (the (map_of snapshots channel)) t p"
proof -
  have in_: "bundle_of B (the (map_of sources channel)) = Inr src"
    "readChaincodePolicies S Q f (the (map_of snapshots channel)) config = Inr defs"
    using assms(1) by (simp_all add: channel_inputs_def)
  have unique: "unique_msps src" using assms(2,4) in_(1) unfolding unique_source_msps_def by blast
  have "ChannelName (Metadata (the (map_of snapshots channel))) = channel"
    using assms(2,6) by (auto simp: set_keys)
  from demanded_demands [OF assms(3) unique assms(5) readChaincodePolicies_keys(2) [OF in_(2), unfolded this]] show ?thesis .
qed

subsection \<open>The prepared policies\<close>

text \<open>
  C11. The prepared policies are exactly what the snapshots ask for. A target namespace has the policy
  \<open>enc\<close> if and only if some committed chaincode definition of some source channel, or a private
  collection with hashes in the snapshot, is mapped to it and its endorsement policy resolves to
  \<open>enc\<close> in that channel; all policies asked for one target namespace resolve to the same bytes. The
  policy of a collection is the endorsement policy it declares, or else the chaincode's; that of an
  implicit collection is the \<^verbatim>\<open>Endorsement\<close> policy of the organization with its MSP ID, or else any
  member of that MSP. Every prepared policy is accepted by the committer under the target's MSPs, every
  policy asked for resolves, and no source channel has a newer MSP version than the target. Each mapped
  source is mapped once, as in every accepted mapping file, and no two organizations of a source channel
  share an MSP ID.
\<close>

theorem prepared_policies_exact:
  assumes "preparePolicies S C P Q B rng f config snapshots sources target = Inr (target', policies)" "some_order rng"
    "unique_source_msps B snapshots sources" "distinct (map source_of (Mappings config))"
    "\<forall>channel s. map_of snapshots channel = Some s \<longrightarrow> ChannelName (Metadata s) = channel"
  shows "(\<forall>t enc. map_of policies t = Some enc \<longleftrightarrow>
      (\<exists>channel \<in> set (keys snapshots). \<exists>src defs p. channel_inputs S Q B f config snapshots sources channel src defs \<and>
         demands B src defs config channel (the (map_of snapshots channel)) t p \<and>
         resolvePolicy P p (PolicyManager src) = Inr enc)) \<and>
    (\<exists>tb. bundle_of B target' = Inr tb \<and>
      (\<forall>t enc. map_of policies t = Some enc \<longrightarrow> CreateNamespaceVerifier B t enc tb = Inr ()) \<and>
      (\<forall>channel \<in> set (keys snapshots). \<exists>src defs. channel_inputs S Q B f config snapshots sources channel src defs \<and>
         MSPVersion src \<le> MSPVersion tb \<and>
         (\<forall>t p. demands B src defs config channel (the (map_of snapshots channel)) t p \<longrightarrow>
            (\<exists>enc. resolvePolicy P p (PolicyManager src) = Inr enc))))"
proof -
  from assms(1) obtain tb kvs where tb: "bundle_of B target' = Inr tb"
    and all: "all_requests S P Q B rng f config snapshots sources tb = Inr kvs"
    and ok: "\<forall>(t, enc) \<in> set kvs. accepted B tb t enc" "single_valued (set kvs)" "policies = settle kvs []"
    unfolding preparePolicies_Inr by blast
  have entries: "map_of policies t = Some enc \<longleftrightarrow> (t, enc) \<in> set kvs" for t enc
    using entries_settle [of kvs "[]"] ok(2,3) by (auto simp: set_eq_iff)
  note same = channel_inputs_demanded [OF _ _ assms(2-5)]
  have asked: "map_of policies t = Some enc \<longleftrightarrow>
      (\<exists>channel \<in> set (keys snapshots). \<exists>src defs p. channel_inputs S Q B f config snapshots sources channel src defs \<and>
         demands B src defs config channel (the (map_of snapshots channel)) t p \<and>
         resolvePolicy P p (PolicyManager src) = Inr enc)" for t enc
    unfolding entries all_requests_in [OF all assms(2)] using same by blast
  have inputs: "\<exists>src defs. channel_inputs S Q B f config snapshots sources channel src defs \<and> MSPVersion src \<le> MSPVersion tb \<and>
      (\<forall>t p. demands B src defs config channel (the (map_of snapshots channel)) t p \<longrightarrow>
        (\<exists>enc. resolvePolicy P p (PolicyManager src) = Inr enc))" if "channel \<in> set (keys snapshots)" for channel
  proof -
    from that obtain kvs where "channel_request S P Q B rng f config snapshots sources tb channel = Inr kvs"
      using gather_total [OF all [unfolded all_requests_def], of channel] by auto
    from channel_requests [OF this assms(2)] same [OF _ that] show ?thesis by blast
  qed
  have "\<forall>t enc. map_of policies t = Some enc \<longrightarrow> CreateNamespaceVerifier B t enc tb = Inr ()"
    unfolding entries using ok(1) by (auto simp: accepted_def)
  with asked inputs tb show ?thesis by blast
qed

lemma mig_unique: "unique_source_msps mig_bundle_lib snaps srcs"
  by (auto simp: unique_source_msps_def unique_msps_def bundle_of_def mig_bundle_lib_def mig_bundle_def)

lemma mig_mapped: "distinct (map source_of (Mappings mig_config))"
  "\<forall>channel s. map_of mig_snapshots channel = Some s \<longrightarrow> ChannelName (Metadata s) = channel"
  by (simp_all add: mig_config_def mig_snapshots_def mig_stream_def mig_metadata_def ex_metadata_def)

theorem prepared_policies_exact_witness:
  "\<exists>src defs p. channel_inputs mig_snapshot_lib mig_lifecycle_lib mig_bundle_lib (ex_fs mig_files) mig_config mig_snapshots mig_sources ''assets'' src defs \<and>
     demands mig_bundle_lib src defs mig_config ''assets'' mig_stream ''th'' p \<and>
     resolvePolicy ex_policy_lib p (PolicyManager src) = Inr mig_policy"
  using conjunct1 [OF prepared_policies_exact [OF mig_prepares some_order_examples(1) mig_unique mig_mapped], rule_format, of "''th''" mig_policy]
  by (simp add: mig_snapshots_def keys_def)

subsection \<open>The order of iteration\<close>

lemma collection_policy_order:
  assumes "iteration_order r" "iteration_order r'" "unique_msps src" "collection_policy B r src d collection = Inr (True, p)"
  shows "collection_policy B r' src d collection = Inr (True, p)"
  using assms(4) unfolding collection_policy_governs [OF assms(1,3)] collection_policy_governs [OF assms(2,3)] .

lemma collection_request_order:
  assumes "collection_request P B rng src channel namespace m d hashes = Inr xs" "some_order rng" "some_order rng'" "unique_msps src"
  shows "collection_request P B rng' src channel namespace m d hashes = Inr xs"
  using assms(1) collection_policy_order [OF some_order_sel(3) [OF assms(2)] some_order_sel(3) [OF assms(3)] assms(4)]
  unfolding collection_request_Inr by (fastforce split: if_splits)

lemma gather_mono:
  assumes "gather f xs = Inr a" "\<And>x b. x \<in> set xs \<Longrightarrow> f x = Inr b \<Longrightarrow> g x = Inr b"
  shows "gather g xs = Inr a"
  using assms by (induction xs arbitrary: a) auto

lemma definition_request_order:
  assumes "definition_request P B rng src config channel s nd = Inr xs" "some_order rng" "some_order rng'" "unique_msps src"
  shows "definition_request P B rng' src config channel s nd = Inr xs"
proof -
  obtain namespace d where nd: "nd = (namespace, d)" by (cases nd)
  from definition_request_parts [OF assms(1) [unfolded nd]] obtain enc ys where parts:
    "resolvePolicy P (cp_application d) (PolicyManager src) = Inr enc"
    "gather (collection_request P B rng src channel namespace (fst (mappingFor config channel namespace)) d) (PrivateHashNamespaces s) = Inr ys"
    "xs = (TargetNamespace (fst (mappingFor config channel namespace)), enc) # ys" .
  have "gather (collection_request P B rng' src channel namespace (fst (mappingFor config channel namespace)) d) (PrivateHashNamespaces s) = Inr ys"
    by (rule gather_mono [OF parts(2)]) (rule collection_request_order [OF _ assms(2-4)])
  with parts(1,3) show ?thesis by (simp add: nd definition_request_def policy_request_def Let_def)
qed

lemma channel_request_order:
  assumes "channel_request S P Q B rng f config snapshots sources tb channel = Inr a" "some_order rng" "some_order rng'"
    "unique_source_msps B snapshots sources" "channel \<in> set (keys snapshots)"
  shows "\<exists>a'. channel_request S P Q B rng' f config snapshots sources tb channel = Inr a' \<and> set a' = set a"
proof -
  from assms(1) obtain src defs where parts: "bundle_of B (the (map_of sources channel)) = Inr src"
    "MSPVersion src \<le> MSPVersion tb" "readChaincodePolicies S Q f (the (map_of snapshots channel)) config = Inr defs"
    and g: "gather (definition_request P B rng src config channel (the (map_of snapshots channel))) (range_definitions rng channel defs) = Inr a"
    unfolding channel_request_Inr by blast
  have unique: "unique_msps src" using assms(4,5) parts(1) unfolding unique_source_msps_def by blast
  have "gather (definition_request P B rng' src config channel (the (map_of snapshots channel))) (range_definitions rng channel defs) = Inr a"
    by (rule gather_mono [OF g]) (rule definition_request_order [OF _ assms(2,3) unique])
  moreover have "set (range_definitions rng' channel defs) = set (range_definitions rng channel defs)"
    using assms(2,3) by (simp add: some_order_set)
  ultimately show ?thesis using gather_same_set parts unfolding channel_request_Inr by blast
qed


lemma mig_target_wf: "wf_map (group_subs (application mig_target))"
  by code_simp


subsection \<open>The prepared namespaces are the counted ones\<close>

lemma collection_known:
  assumes "definition_request P B rng src config channel s (namespace, d) = Inr kvs"
    "hashes \<in> set (PrivateHashNamespaces s)" "hash_source (Name hashes) = Some namespace"
  shows "\<exists>p. requested B rng src config channel s namespace d (hashTarget (fst (mappingFor config channel namespace))) p"
proof -
  from assms(3) obtain collection where split: "SplitHashNamespace (Name hashes) = Inr (namespace, collection)"
    by (auto simp: hash_source_def split: sum.splits)
  from assms(1) obtain ys where
    ys: "gather (collection_request P B rng src channel namespace (fst (mappingFor config channel namespace)) d) (PrivateHashNamespaces s) = Inr ys"
    by (rule definition_request_parts)
  from gather_total [OF ys assms(2)] split obtain p where "collection_policy B (range_organizations rng channel namespace (Name hashes)) src d collection = Inr (True, p)"
    by (auto simp: collection_request_Inr)
  with assms(2) split show ?thesis unfolding requested_def Let_def by blast
qed

lemma demanded_targets:
  assumes "channel_request S P Q B rng f config snapshots sources tb channel = Inr kvs" "some_order rng"
    "map_of snapshots channel = Some s" "ChannelName (Metadata s) = channel" "distinct (map source_of (Mappings config))"
  shows "fst ` set kvs = (\<Union>m \<in> {m \<in> set (Mappings config). SourceChannel m = channel}. touched snapshots m)"
proof -
  from assms(1) obtain src defs where defs: "readChaincodePolicies S Q f s config = Inr defs"
    and g: "gather (definition_request P B rng src config channel s) (range_definitions rng channel defs) = Inr kvs"
    unfolding channel_request_Inr assms(3) option.sel by blast
  note wf = readChaincodePolicies_keys [OF defs, unfolded assms(4)]
  have found: "fst (mappingFor config (SourceChannel m) (SourceNamespace m)) = m" if "m \<in> set (Mappings config)" for m
    using that mappingFor_iff [OF assms(5), of "SourceChannel m" "SourceNamespace m" m] by (simp add: source_of_def)
  have one: "fst ` set kvs' = touched snapshots m"
    if m: "m \<in> set (Mappings config)" "SourceChannel m = channel"
      and req: "definition_request P B rng src config channel s (SourceNamespace m, d) = Inr kvs'" for m d kvs'
  proof -
    note fst_m = found [OF m(1), unfolded m(2)]
    have "t \<in> fst ` set kvs' \<longleftrightarrow> (\<exists>p. requested B rng src config channel s (SourceNamespace m) d t p)" for t
    proof
      assume "t \<in> fst ` set kvs'"
      then obtain enc where "(t, enc) \<in> set kvs'" by auto
      then show "\<exists>p. requested B rng src config channel s (SourceNamespace m) d t p"
        unfolding definition_request_set [OF req] by blast
    next
      assume "\<exists>p. requested B rng src config channel s (SourceNamespace m) d t p"
      then obtain p where p: "requested B rng src config channel s (SourceNamespace m) d t p" by blast
      with definition_request_total [OF req p] obtain enc where "(t, enc) \<in> set kvs'"
        unfolding definition_request_set [OF req] by blast
      then show "t \<in> fst ` set kvs'" by force
    qed
    moreover have "(\<exists>p. requested B rng src config channel s (SourceNamespace m) d t p) \<longleftrightarrow> t \<in> touched snapshots m" for t
    proof
      assume "\<exists>p. requested B rng src config channel s (SourceNamespace m) d t p"
      then show "t \<in> touched snapshots m"
        unfolding requested_def touched_def Let_def fst_m m(2) assms(3) by (auto simp: hash_source_def)
    next
      assume "t \<in> touched snapshots m"
      then consider "t = TargetNamespace m" | hashes where "hashes \<in> set (PrivateHashNamespaces s)"
          "hash_source (Name hashes) = Some (SourceNamespace m)" "t = hashTarget m"
        by (auto simp: touched_def m(2) assms(3) split: if_splits)
      then show "\<exists>p. requested B rng src config channel s (SourceNamespace m) d t p"
      proof cases
        case 1
        then show ?thesis unfolding requested_def Let_def fst_m by blast
      next
        case 2
        with collection_known [OF req 2(1,2)] show ?thesis by (simp add: fst_m)
      qed
    qed
    ultimately show ?thesis by blast
  qed
  have "fst ` set kvs = (\<Union>nd \<in> set defs. {t. \<exists>kvs'. definition_request P B rng src config channel s nd = Inr kvs' \<and> t \<in> fst ` set kvs'})"
    using gather_set [OF g] some_order_set [OF assms(2), of channel defs] by (auto simp: image_iff) (metis fst_conv)+
  also have "\<dots> = (\<Union>m \<in> {m \<in> set (Mappings config). SourceChannel m = channel}. touched snapshots m)"
  proof (intro set_eqI iffI)
    fix t
    assume "t \<in> (\<Union>nd \<in> set defs. {t. \<exists>kvs'. definition_request P B rng src config channel s nd = Inr kvs' \<and> t \<in> fst ` set kvs'})"
    then obtain ns d kvs' where nd: "(ns, d) \<in> set defs" "definition_request P B rng src config channel s (ns, d) = Inr kvs'" "t \<in> fst ` set kvs'"
      by auto
    from nd(1) have "ns \<in> set (keys defs)" by (force simp: keys_def)
    then obtain m where m: "m \<in> set (Mappings config)" "SourceChannel m = channel" "ns = SourceNamespace m" using wf(2) by auto
    from one [OF m(1,2) nd(2) [unfolded m(3)]] nd(3) m(1,2)
    show "t \<in> (\<Union>m \<in> {m \<in> set (Mappings config). SourceChannel m = channel}. touched snapshots m)" by auto
  next
    fix t
    assume "t \<in> (\<Union>m \<in> {m \<in> set (Mappings config). SourceChannel m = channel}. touched snapshots m)"
    then obtain m where m: "m \<in> set (Mappings config)" "SourceChannel m = channel" "t \<in> touched snapshots m" by auto
    then have "SourceNamespace m \<in> set (keys defs)" using wf(2) by auto
    then obtain d where d: "(SourceNamespace m, d) \<in> set defs" by (auto simp: keys_def)
    then obtain kvs' where "definition_request P B rng src config channel s (SourceNamespace m, d) = Inr kvs'"
      using gather_total [OF g] some_order_set [OF assms(2), of channel defs] by blast
    with one [OF m(1,2) this] m(3) d
    show "t \<in> (\<Union>nd \<in> set defs. {t. \<exists>kvs'. definition_request P B rng src config channel s nd = Inr kvs' \<and> t \<in> fst ` set kvs'})"
      by blast
  qed
  finally show ?thesis .
qed

text \<open>
  C21. The two halves of the preparation agree on the target namespaces: a namespace has a prepared
  endorsement policy exactly when it has an expected record count, so the importer never creates a
  namespace without a policy nor writes a policy for a namespace it does not create.
\<close>

theorem prepared_namespaces_are_counted:
  assumes "preparePolicies S C P Q B rng f config snapshots sources target = Inr (target', policies)" "some_order rng"
    "mappingCounts config snapshots = Inr counts" "distinct (map source_of (Mappings config))"
    "\<forall>channel s. map_of snapshots channel = Some s \<longrightarrow> ChannelName (Metadata s) = channel"
  shows "dom (map_of policies) = set (keys counts)"
proof -
  from assms(1) obtain tb kvs where all: "all_requests S P Q B rng f config snapshots sources tb = Inr kvs"
    and ok: "single_valued (set kvs)" "policies = settle kvs []"
    unfolding preparePolicies_Inr by blast
  have "dom (map_of policies) = fst ` set kvs"
    using entries_settle [of kvs "[]"] ok by (force simp: set_eq_iff)
  also have "\<dots> = (\<Union>channel \<in> set (keys snapshots).
      {t. \<exists>kvs'. channel_request S P Q B rng f config snapshots sources tb channel = Inr kvs' \<and> t \<in> fst ` set kvs'})"
    using gather_set [OF all [unfolded all_requests_def]] by (auto simp: image_iff) (metis fst_conv)+
  also have "\<dots> = (\<Union>channel \<in> set (keys snapshots). \<Union>m \<in> {m \<in> set (Mappings config). SourceChannel m = channel}. touched snapshots m)"
  proof (rule SUP_cong [OF refl])
    fix channel assume "channel \<in> set (keys snapshots)"
    then obtain s where s: "map_of snapshots channel = Some s" by (auto simp: set_keys)
    obtain kvs' where kvs': "channel_request S P Q B rng f config snapshots sources tb channel = Inr kvs'"
      using gather_total [OF all [unfolded all_requests_def], of channel] \<open>channel \<in> _\<close> by auto
    have "ChannelName (Metadata s) = channel" using assms(5) s by blast
    from demanded_targets [OF kvs' assms(2) s this assms(4)] kvs'
    show "{t. \<exists>kvs'. channel_request S P Q B rng f config snapshots sources tb channel = Inr kvs' \<and> t \<in> fst ` set kvs'} =
        (\<Union>m \<in> {m \<in> set (Mappings config). SourceChannel m = channel}. touched snapshots m)" by auto
  qed
  also have "\<dots> = (\<Union>m \<in> set (Mappings config). touched snapshots m)"
  proof -
    have "SourceChannel m \<in> set (keys snapshots)" if "t \<in> touched snapshots m" for t m
      using that unfolding touched_def set_keys by (cases "map_of snapshots (SourceChannel m)") auto
    then show ?thesis by fast
  qed
  also have "\<dots> = set (keys counts)" by (rule mappingCounts_Inr(2) [OF assms(3), symmetric])
  finally show ?thesis .
qed

theorem prepared_namespaces_are_counted_witness:
  "dom (map_of [(''tb'', mig_policy), (''th'', mig_policy)]) = set (keys [(''tb'', 1 :: uint64), (''th'', 1)])"
proof -
  have "distinct (map source_of (Mappings mig_config))" by (simp add: mig_config_def)
  moreover have "\<forall>channel s. map_of mig_snapshots channel = Some s \<longrightarrow> ChannelName (Metadata s) = channel"
    by (simp add: mig_snapshots_def mig_stream_def mig_metadata_def ex_metadata_def)
  ultimately show ?thesis
    by (rule prepared_namespaces_are_counted [OF mig_prepares some_order_examples(1) mig_counts])
qed

subsection \<open>The committed definitions\<close>

text \<open>
  C14. The chaincode definitions are those the ledger has committed. Reading the definitions of a
  snapshot succeeds exactly when every mapped source namespace of its channel has a committed
  definition: one of the lifecycle with sequence at least 1 and the built-in validation plugin, or,
  where the lifecycle has none, a legacy record under its own name with that plugin and a policy. The
  result then gives for each mapped namespace, and for no other, the endorsement policy and the
  collections of its committed definition.
\<close>

theorem committed_definitions_read:
  assumes "snapshot_records S f s ''public_state'' = Inr recs"
  shows "((\<exists>defs. readChaincodePolicies S Q f s config = Inr defs) \<longleftrightarrow>
      (\<forall>m \<in> set (Mappings config). SourceChannel m = ChannelName (Metadata s) \<longrightarrow>
         (\<exists>d. lifecycle_committed Q recs (SourceNamespace m) d \<or> legacy_committed Q recs (SourceNamespace m) d))) \<and>
    (\<forall>defs ns d. readChaincodePolicies S Q f s config = Inr defs \<longrightarrow>
       (map_of defs ns = Some d \<longleftrightarrow>
          (\<exists>m \<in> set (Mappings config). SourceChannel m = ChannelName (Metadata s) \<and> SourceNamespace m = ns) \<and>
          (lifecycle_committed Q recs ns d \<or> legacy_committed Q recs ns d)))"
proof -
  let ?channel = "ChannelName (Metadata s)" and ?ms = "Mappings config"
  obtain flds where flds: "rfold (collect_fields ?channel ?ms) recs [] = Inr flds"
    and read: "\<And>defs. readChaincodePolicies S Q f s config = Inr defs \<longleftrightarrow> rfold (add_definition Q ?channel flds) ?ms [] = Inr defs"
    by (rule readChaincodePolicies_fields [OF assms]) blast
  note committed = read_definition_committed [OF flds snapshot_records_distinct [OF assms], of _ _ Q]
  have "map_of defs ns = Some d \<longleftrightarrow>
      (\<exists>m \<in> set ?ms. SourceChannel m = ?channel \<and> SourceNamespace m = ns) \<and>
      (lifecycle_committed Q recs ns d \<or> legacy_committed Q recs ns d)"
    if defs: "rfold (add_definition Q ?channel flds) ?ms [] = Inr defs" for defs ns d
  proof -
    note r = add_definitions_Inr [OF defs]
    have mapped: "(\<exists>m \<in> set ?ms. SourceChannel m = ?channel \<and> SourceNamespace m = ns) \<longleftrightarrow> (\<exists>d. map_of defs ns = Some d)"
    proof -
      have "ns \<in> set (keys defs) \<longleftrightarrow> ns \<in> SourceNamespace ` {m \<in> set ?ms. SourceChannel m = ?channel}" using r by simp
      then show ?thesis unfolding set_keys by blast
    qed
    have iff: "map_of defs ns = Some d \<longleftrightarrow> lifecycle_committed Q recs ns d \<or> legacy_committed Q recs ns d"
      if "map_of defs ns = Some d'" for d'
    proof -
      from that mapped obtain m where m: "m \<in> set ?ms" "SourceChannel m = ?channel" "ns = SourceNamespace m" by blast
      from r that have "read_definition Q ?channel flds ns = Inr d'" by blast
      with that committed [OF m] show ?thesis by auto
    qed
    show ?thesis using mapped iff by blast
  qed
  moreover have "(\<exists>defs. rfold (add_definition Q ?channel flds) ?ms [] = Inr defs) \<longleftrightarrow>
      (\<forall>m \<in> set ?ms. SourceChannel m = ?channel \<longrightarrow>
         (\<exists>d. lifecycle_committed Q recs (SourceNamespace m) d \<or> legacy_committed Q recs (SourceNamespace m) d))"
    unfolding add_definitions_total using committed [OF _ _ refl] by blast
  ultimately show ?thesis unfolding read by blast
qed

lemma mig_definitions:
  "readChaincodePolicies mig_snapshot_lib mig_lifecycle_lib (ex_fs mig_files) mig_stream mig_config =
     Inr [(''b'', \<lparr>cp_application = SignaturePolicy (Some ex_envelope),
       cp_collections = [Some \<lparr>scName = ''c'', scEndorsementPolicy = None\<rparr>]\<rparr>)]"
  by code_simp

theorem committed_definitions_read_witness:
  "legacy_committed mig_lifecycle_lib [ex_record, mig_lscc ''b'' 1, mig_lscc ''b~collection'' 2] ''b''
     \<lparr>cp_application = SignaturePolicy (Some ex_envelope), cp_collections = [Some \<lparr>scName = ''c'', scEndorsementPolicy = None\<rparr>]\<rparr>"
proof -
  let ?recs = "[ex_record, mig_lscc ''b'' 1, mig_lscc ''b~collection'' 2]"
  let ?d = "\<lparr>cp_application = SignaturePolicy (Some ex_envelope), cp_collections = [Some \<lparr>scName = ''c'', scEndorsementPolicy = None\<rparr>]\<rparr>"
  have "lifecycle_committed mig_lifecycle_lib ?recs ''b'' ?d \<or> legacy_committed mig_lifecycle_lib ?recs ''b'' ?d"
    using conjunct2 [OF committed_definitions_read [OF mig_public_records], rule_format, OF mig_definitions, of "''b''" ?d]
    by simp
  then show ?thesis by (simp add: lifecycle_committed_def mig_lifecycle_lib_def)
qed

end
