(* ===== verification/Database.thy ===== *)
theory Database
  imports GoLib
begin

text \<open>
  The target database as the importer of \<^verbatim>\<open>internal/migrate/import.go\<close> uses it: the
  statements it sends, the values it scans, and the parameters that stand for pgx, PostgreSQL and the
  committer's schema. The locales state what PostgreSQL documents about these statements, and no more;
  an engine that keeps its tables in an association list interprets them.
\<close>

subsection \<open>Statements and values\<close>

datatype sql_arg = Bytea bytes | ByteaArray "bytes list"

text \<open>A column of a row: \<open>None\<close> is NULL.\<close>

datatype sql_value = VBytea "bytes option" | VInt int | VBool bool | VText "string option"

text \<open>
  \<^verbatim>\<open>Exec\<close> returns the rows affected; a statement changes the state \<open>'tx\<close> of the
  transaction. \<open>MakeNsTablesQuery\<close>, \<open>TableName\<close>, \<open>SystemNamespaces\<close> and the three identifiers come from
  the committer's packages, \<open>Sanitize\<close> from pgx, and \<open>systemSQL\<close> is the text of \<^verbatim>\<open>system.sql\<close>.
\<close>

record ('db, 'tx) db_lib =
  PoolQueryRow :: "string \<Rightarrow> 'db \<Rightarrow> sql_value list res"
  BeginTx :: "'db \<Rightarrow> 'tx res"
  Exec :: "string \<Rightarrow> sql_arg list \<Rightarrow> 'tx \<Rightarrow> (int \<times> 'tx) res"
  QueryRow :: "string \<Rightarrow> sql_arg list \<Rightarrow> 'tx \<Rightarrow> (sql_value list \<times> 'tx) res"
  Commit :: "'tx \<Rightarrow> 'db \<Rightarrow> unit res \<times> 'db"
  Rollback :: "'tx \<Rightarrow> 'db \<Rightarrow> 'db"
  systemSQL :: string
  MakeNsTablesQuery :: "string \<Rightarrow> string"
  TableName :: "string \<Rightarrow> string"
  Sanitize :: "string list \<Rightarrow> string"
  SystemNamespaces :: "string list"
  ConfigNamespaceID :: string
  MetaNamespaceID :: string
  ConfigKey :: string

definition namespaceTable :: "('db, 'tx, 'l) db_lib_scheme \<Rightarrow> string \<Rightarrow> string" where
  "namespaceTable D namespace = Sanitize D [TableName D namespace]"

definition sql_insert_entry :: "string \<Rightarrow> string" where
  "sql_insert_entry table =
     ''INSERT INTO '' @ table @ '' (key, value, version) VALUES ($1,$2,0) ON CONFLICT (key) DO NOTHING''"

definition sql_select_entry :: "string \<Rightarrow> string" where
  "sql_select_entry table = ''SELECT value, version FROM '' @ table @ '' WHERE key=$1 FOR UPDATE''"

definition sql_update_entry :: "string \<Rightarrow> string" where
  "sql_update_entry table = ''UPDATE '' @ table @ '' SET value=$2 WHERE key=$1''"

definition sql_has_rows :: "string \<Rightarrow> string" where
  "sql_has_rows table = ''SELECT EXISTS (SELECT 1 FROM '' @ table @ '')''"

definition sql_insert_batch :: "string \<Rightarrow> string" where
  "sql_insert_batch table = ''INSERT INTO '' @ table @ '' (key, value, version)'' @ [CHR 0x0A] @
     ''SELECT key, value, 0 FROM unnest($1::bytea[], $2::bytea[]) AS rows(key, value)''"

definition sql_count :: "string \<Rightarrow> string" where
  "sql_count table = ''SELECT count(*), count(*) FILTER (WHERE version <> 0) FROM '' @ table"

subsection \<open>Scan\<close>

text \<open>\<^verbatim>\<open>Scan\<close> into Go variables fails when the number or the type of the columns differs.\<close>

fun scan_bytes :: "sql_value \<Rightarrow> bytes res" where
  "scan_bytes (VBytea None) = Inr []"
| "scan_bytes (VBytea (Some bs)) = Inr bs"
| "scan_bytes v = Inl (Ext ''scan'')"

fun scan_uint64 :: "sql_value \<Rightarrow> uint64 res" where
  "scan_uint64 (VInt i) = (if 0 \<le> i \<and> i < 2 ^ 64 then Inr (word_of_int i) else Inl (Ext ''scan''))"
| "scan_uint64 v = Inl (Ext ''scan'')"

fun scan_bool :: "sql_value \<Rightarrow> bool res" where
  "scan_bool (VBool b) = Inr b"
| "scan_bool v = Inl (Ext ''scan'')"

fun scan_string :: "sql_value \<Rightarrow> string res" where
  "scan_string (VText (Some s)) = Inr s"
| "scan_string v = Inl (Ext ''scan'')"

definition scan1 :: "(sql_value \<Rightarrow> 'a res) \<Rightarrow> sql_value list \<Rightarrow> 'a res" where
  "scan1 f row = (case row of [a] \<Rightarrow> f a | _ \<Rightarrow> Inl (Ext ''scan''))"

definition scan2 :: "(sql_value \<Rightarrow> 'a res) \<Rightarrow> (sql_value \<Rightarrow> 'b res) \<Rightarrow> sql_value list \<Rightarrow> ('a \<times> 'b) res" where
  "scan2 f g row =
     (case row of [a, b] \<Rightarrow> rbind (f a) (\<lambda>x. rbind (g b) (\<lambda>y. Inr (x, y))) | _ \<Rightarrow> Inl (Ext ''scan''))"

lemma scan_simps [simp]:
  "scan1 f [a] = f a"
  "scan2 f g [a, b] = rbind (f a) (\<lambda>x. rbind (g b) (\<lambda>y. Inr (x, y)))"
  by (simp_all add: scan1_def scan2_def)

lemma scan_uint64_Inr:
  "scan_uint64 (VInt i) = Inr w \<longleftrightarrow> 0 \<le> i \<and> i < 2 ^ 64 \<and> w = word_of_int i"
  by auto

subsection \<open>What the statements do\<close>

text \<open>
  The rows of a namespace's table: value and version by key. \<open>rows tx n\<close> is \<open>None\<close> when the table of
  the namespace \<open>n\<close> does not exist. The laws hold for the \<open>valid\<close> namespaces, whose tables are distinct.
\<close>

type_synonym table = "bytes \<Rightarrow> (bytes option \<times> int) option"

definition batch_rows :: "bytes list \<Rightarrow> bytes list \<Rightarrow> table" where
  "batch_rows ks vs = map_of (zip ks (map (\<lambda>v. (Some v, 0)) vs))"

definition insert_new :: "bytes \<Rightarrow> bytes \<Rightarrow> table \<Rightarrow> table" where
  "insert_new k v r = (case r k of None \<Rightarrow> r(k \<mapsto> (Some v, 0)) | Some _ \<Rightarrow> r)"

definition set_value :: "bytes \<Rightarrow> bytes \<Rightarrow> table \<Rightarrow> table" where
  "set_value k v r = (case r k of None \<Rightarrow> r | Some (_, version) \<Rightarrow> r(k \<mapsto> (Some v, version)))"

text \<open>Only the table of \<open>n\<close> may differ: the effect of a statement on one table.\<close>

definition becomes ::
  "('tx \<Rightarrow> string \<Rightarrow> table option) \<Rightarrow> (string \<Rightarrow> bool) \<Rightarrow> 'tx \<Rightarrow> 'tx \<Rightarrow> string \<Rightarrow> table option \<Rightarrow> bool" where
  "becomes rows valid tx tx' n r \<longleftrightarrow> rows tx' n = r \<and> (\<forall>m. valid m \<longrightarrow> m \<noteq> n \<longrightarrow> rows tx' m = rows tx m)"

locale sql_tables =
  fixes D :: "('db, 'tx, 'l) db_lib_scheme" and rows :: "'tx \<Rightarrow> string \<Rightarrow> table option" and valid :: "string \<Rightarrow> bool"
  assumes create_table: "valid n \<Longrightarrow> Exec D (MakeNsTablesQuery D n) [] tx = Inr (a, tx') \<Longrightarrow>
      becomes rows valid tx tx' n (Some (case rows tx n of None \<Rightarrow> Map.empty | Some r \<Rightarrow> r))"
    and system_tables: "valid n \<Longrightarrow> Exec D (systemSQL D) [] tx = Inr (a, tx') \<Longrightarrow> rows tx' n = rows tx n"
    and insert_entry: "valid n \<Longrightarrow> Exec D (sql_insert_entry (namespaceTable D n)) [Bytea k, Bytea v] tx = Inr (a, tx') \<Longrightarrow>
      \<exists>r. rows tx n = Some r \<and> becomes rows valid tx tx' n (Some (insert_new k v r))"
    and update_entry: "valid n \<Longrightarrow> Exec D (sql_update_entry (namespaceTable D n)) [Bytea k, Bytea v] tx = Inr (a, tx') \<Longrightarrow>
      \<exists>r. rows tx n = Some r \<and> becomes rows valid tx tx' n (Some (set_value k v r))"
    and insert_batch: "valid n \<Longrightarrow> length vs = length ks \<Longrightarrow>
      Exec D (sql_insert_batch (namespaceTable D n)) [ByteaArray ks, ByteaArray vs] tx = Inr (a, tx') \<Longrightarrow>
      \<exists>r. rows tx n = Some r \<and> distinct ks \<and> set ks \<inter> dom r = {} \<and> a = int (length ks) \<and>
        becomes rows valid tx tx' n (Some (r ++ batch_rows ks vs))"
    and select_entry: "valid n \<Longrightarrow> QueryRow D (sql_select_entry (namespaceTable D n)) [Bytea k] tx = Inr (vals, tx') \<Longrightarrow>
      \<exists>r v version. rows tx n = Some r \<and> r k = Some (v, version) \<and> vals = [VBytea v, VInt version] \<and>
        (\<forall>m. valid m \<longrightarrow> rows tx' m = rows tx m)"
    and has_rows: "valid n \<Longrightarrow> QueryRow D (sql_has_rows (namespaceTable D n)) [] tx = Inr (vals, tx') \<Longrightarrow>
      \<exists>r. rows tx n = Some r \<and> vals = [VBool (r \<noteq> Map.empty)] \<and> (\<forall>m. valid m \<longrightarrow> rows tx' m = rows tx m)"
    and count_rows: "valid n \<Longrightarrow> QueryRow D (sql_count (namespaceTable D n)) [] tx = Inr (vals, tx') \<Longrightarrow>
      \<exists>r. rows tx n = Some r \<and> finite (dom r) \<and>
        vals = [VInt (int (card (dom r))), VInt (int (card {k. \<exists>v version. r k = Some (v, version) \<and> version \<noteq> 0}))] \<and>
        (\<forall>m. valid m \<longrightarrow> rows tx' m = rows tx m)"

text \<open>Transactions: what is committed, and that nothing else ever is.\<close>

locale sql_database = sql_tables D rows valid
  for D :: "('db, 'tx, 'l) db_lib_scheme" and rows :: "'tx \<Rightarrow> string \<Rightarrow> table option" and valid :: "string \<Rightarrow> bool" +
  fixes stored :: "'db \<Rightarrow> string \<Rightarrow> table option"
  assumes begin_tx: "BeginTx D db = Inr tx \<Longrightarrow> valid n \<Longrightarrow> rows tx n = stored db n"
    and commit: "Commit D tx db = (Inr u, db') \<Longrightarrow> valid n \<Longrightarrow> stored db' n = rows tx n"
    and commit_failed: "Commit D tx db = (Inl e, db') \<Longrightarrow>
      (\<forall>n. valid n \<longrightarrow> stored db' n = stored db n) \<or> (\<forall>n. valid n \<longrightarrow> stored db' n = rows tx n)"
    and rollback: "valid n \<Longrightarrow> stored (Rollback D tx db) n = stored db n"

text \<open>
  A database that is up and serves one client: a statement fails only for the reasons PostgreSQL
  documents for it, a missing table, a duplicate key or a row that is not there. (Otherwise a statement
  may also fail because the connection is lost or the transaction conflicts with another one, which the
  laws above allow.)
\<close>

locale sql_running = sql_database D rows valid stored
  for D :: "('db, 'tx, 'l) db_lib_scheme" and rows :: "'tx \<Rightarrow> string \<Rightarrow> table option" and valid :: "string \<Rightarrow> bool"
    and stored :: "'db \<Rightarrow> string \<Rightarrow> table option" +
  assumes begin_tx_runs: "\<exists>tx. BeginTx D db = Inr tx"
    and system_tables_runs: "\<exists>a tx'. Exec D (systemSQL D) [] tx = Inr (a, tx')"
    and create_table_runs: "valid n \<Longrightarrow> \<exists>a tx'. Exec D (MakeNsTablesQuery D n) [] tx = Inr (a, tx')"
    and insert_entry_runs: "valid n \<Longrightarrow> rows tx n = Some r \<Longrightarrow>
      \<exists>a tx'. Exec D (sql_insert_entry (namespaceTable D n)) [Bytea k, Bytea v] tx = Inr (a, tx')"
    and update_entry_runs: "valid n \<Longrightarrow> rows tx n = Some r \<Longrightarrow>
      \<exists>a tx'. Exec D (sql_update_entry (namespaceTable D n)) [Bytea k, Bytea v] tx = Inr (a, tx')"
    and insert_batch_runs: "valid n \<Longrightarrow> rows tx n = Some r \<Longrightarrow> length vs = length ks \<Longrightarrow> distinct ks \<Longrightarrow> set ks \<inter> dom r = {} \<Longrightarrow>
      \<exists>a tx'. Exec D (sql_insert_batch (namespaceTable D n)) [ByteaArray ks, ByteaArray vs] tx = Inr (a, tx')"
    and select_entry_runs: "valid n \<Longrightarrow> rows tx n = Some r \<Longrightarrow> k \<in> dom r \<Longrightarrow>
      \<exists>vals tx'. QueryRow D (sql_select_entry (namespaceTable D n)) [Bytea k] tx = Inr (vals, tx')"
    and has_rows_runs: "valid n \<Longrightarrow> rows tx n = Some r \<Longrightarrow>
      \<exists>vals tx'. QueryRow D (sql_has_rows (namespaceTable D n)) [] tx = Inr (vals, tx')"
    and count_rows_runs: "valid n \<Longrightarrow> rows tx n = Some r \<Longrightarrow> finite (dom r) \<Longrightarrow>
      \<exists>vals tx'. QueryRow D (sql_count (namespaceTable D n)) [] tx = Inr (vals, tx')"
    and commit_runs: "\<exists>db'. Commit D tx db = (Inr (), db')"

end
