(* ===== verification/Importer.thy ===== *)
theory Importer
  imports Prepare Database
begin

text \<open>
  \<^verbatim>\<open>internal/migrate/import.go\<close>: the import as a whole. \<open>prepare_import\<close> is everything
  before the database is used, \<open>import_tx\<close> what happens inside the transaction, and \<open>Import\<close> composes
  them with begin, commit and the deferred rollback. The files may change while the import runs, so each
  phase reads its own \<open>fs\<close>; a context is asked for its error once per selected record, and answers the
  \<open>n\<close>-th time with \<open>ctx_Err n\<close>.
\<close>

subsection \<open>Types\<close>

record namespace_result =
  nrNamespace :: string
  nrRecordCount :: uint64
  nrPolicy :: bytes

record source_result =
  srChannel :: string
  srBlock :: uint64
  srSnapshotHash :: string
  srConfigSHA256 :: string

record import_result =
  Sources :: "source_result list"
  rMapping :: mapping_config
  TargetConfigEnvelope :: bytes
  RecordCount :: uint64
  Namespaces :: "namespace_result list"

record go_context =
  ctx_Err :: "nat \<Rightarrow> go_error option"

text \<open>\<^verbatim>\<open>context.Background()\<close>\<close>

definition background :: go_context where
  "background = \<lparr>ctx_Err = (\<lambda>n. None)\<rparr>"

record phases =
  fs_load :: fs
  fs_policies :: fs
  fs_validate :: fs
  fs_check :: fs
  fs_copy :: fs
  fs_recheck :: fs

text \<open>The libraries, and the order in which Go iterates over a map of definitions.\<close>

record ('o, 'db, 'tx) libs =
  libS :: mapping_lib
  libC :: config_lib
  libP :: policy_lib
  libQ :: lifecycle_lib
  libB :: "'o bundle_lib"
  libD :: "('db, 'tx) db_lib"
  iteration :: map_orders

subsection \<open>Opening the inputs\<close>

record loaded =
  snapshots :: "(string, snapshot_stream) gomap"
  sources :: "(string, channel_config) gomap"
  inputs :: "input_file list"
  source_results :: "source_result list"

definition load_channel ::
  "'s snapshot_lib_scheme \<Rightarrow> 'c config_lib_scheme \<Rightarrow> fs \<Rightarrow> import_options \<Rightarrow> string \<Rightarrow> loaded \<Rightarrow> loaded res" where
  "load_channel S C f options channel st =
     rbind (OpenStream S f (lookup_string (oSnapshots options) channel)) (\<lambda>s.
     if ChannelName (Metadata s) \<noteq> channel
     then Inl (New ''snapshot channel does not match --snapshot channel'' [ChannelName (Metadata s), channel])
     else rbind (wrapped [''source config'', channel] (readInput f (lookup_string (oSourceConfigs options) channel))) (\<lambda>file.
     rbind (wrapped [''source config'', channel] (decodeChannelConfig C (input_data file))) (\<lambda>source.
     if cChannel source \<noteq> channel
     then Inl (New ''source config channel does not match'' [cChannel source, channel])
     else if (case cBlock source of None \<Rightarrow> True | Some block \<Rightarrow> block > LastBlockNumber (Metadata s))
     then Inl (New ''source config must be a config block at or before the snapshot checkpoint'' [channel])
     else Inr \<lparr>snapshots = AList.update channel s (snapshots st), sources = AList.update channel source (sources st),
       inputs = inputs st @ [file],
       source_results = source_results st @
         [\<lparr>srChannel = channel, srBlock = LastBlockNumber (Metadata s),
           srSnapshotHash = SnapshotHash (AdditionalMetadata s), srConfigSHA256 = input_sha256 S file\<rparr>]\<rparr>)))"

definition load_inputs ::
  "'s mapping_lib_scheme \<Rightarrow> 'c config_lib_scheme \<Rightarrow> fs \<Rightarrow> import_options \<Rightarrow> (mapping_config \<times> channel_config \<times> loaded) res" where
  "load_inputs S C f options =
     rbind (readInput f (MappingPath options)) (\<lambda>mappingFile.
     rbind (readMappings S mappingFile) (\<lambda>config.
     rbind (readInput f (TargetConfigPath options)) (\<lambda>targetFile.
     rbind (wrapped [''target configuration''] (decodeChannelConfig C (input_data targetFile))) (\<lambda>target.
     if cChannel target \<noteq> TargetNetwork config
     then Inl (New ''target config network does not match mapping network'' [cChannel target, TargetNetwork config])
     else if length (oSnapshots options) = 0 \<or> length (oSnapshots options) \<noteq> length (oSourceConfigs options)
     then Inl (New ''each snapshot requires a source configuration for the same channel'' [])
     else rbind (rfold (load_channel S C f options) (sortedKeys (oSnapshots options))
         \<lparr>snapshots = [], sources = [], inputs = [mappingFile, targetFile], source_results = []\<rparr>) (\<lambda>st.
       Inr (config, target, st))))))"

subsection \<open>Walking the selected records\<close>

type_synonym 's yield = "string \<Rightarrow> snapshot_record \<Rightarrow> 's \<Rightarrow> 's res"

definition has_metadata :: "snapshot_record \<Rightarrow> bool" where
  "has_metadata rec \<longleftrightarrow> (case rMetadata rec of None \<Rightarrow> False | Some bs \<Rightarrow> length bs \<noteq> 0)"

definition yield_public :: "mapping_config \<Rightarrow> string \<Rightarrow> 's yield \<Rightarrow> snapshot_record \<Rightarrow> 's \<Rightarrow> 's res" where
  "yield_public config channel yield rec st =
     (case mappingFor config channel (rNamespace rec) of (m, selected) \<Rightarrow>
       if \<not> selected then Inr st
       else if has_metadata rec then Inl (New ''contains unsupported key-level metadata'' [channel, rNamespace rec])
       else yield (TargetNamespace m) rec st)"

definition yield_private :: "mapping_config \<Rightarrow> string \<Rightarrow> 's yield \<Rightarrow> snapshot_record \<Rightarrow> 's \<Rightarrow> 's res" where
  "yield_private config channel yield rec st =
     rbind (SplitHashNamespace (rNamespace rec)) (\<lambda>(source, _).
       case mappingFor config channel source of (m, selected) \<Rightarrow>
         if \<not> selected then Inr st
         else if has_metadata rec then Inl (New ''contains unsupported key-level metadata'' [channel, rNamespace rec])
         else yield (hashTarget m) rec st)"

definition walk_channel ::
  "'s lib_scheme \<Rightarrow> fs \<Rightarrow> mapping_config \<Rightarrow> (string, snapshot_stream) gomap \<Rightarrow> 'st yield \<Rightarrow> string \<Rightarrow> 'st \<Rightarrow> 'st res" where
  "walk_channel S f config snaps yield channel st =
     (let snapshot = the (map_of snaps channel) in
      rbind (WalkPublicRecords S f snapshot (Some (yield_public config channel yield)) st)
        (WalkPrivateHashRecords S f snapshot (Some (yield_private config channel yield))))"

definition walk ::
  "'s lib_scheme \<Rightarrow> fs \<Rightarrow> mapping_config \<Rightarrow> (string, snapshot_stream) gomap \<Rightarrow> 'st yield \<Rightarrow> 'st \<Rightarrow> 'st res" where
  "walk S f config snaps yield st = rfold (walk_channel S f config snaps yield) (sortedKeys snaps) st"

text \<open>The callback of the first walk; the state counts how often the context was asked.\<close>

definition check_ctx :: "go_context \<Rightarrow> nat yield" where
  "check_ctx ctx target rec n = (case ctx_Err ctx n of Some e \<Rightarrow> Inl e | None \<Rightarrow> Inr (Suc n))"

definition revalidate_inputs :: "'s lib_scheme \<Rightarrow> fs \<Rightarrow> input_file list \<Rightarrow> (string, snapshot_stream) gomap \<Rightarrow> unit res" where
  "revalidate_inputs S f files snaps =
     rbind (check_all (input_revalidate f) files) (\<lambda>_. check_all (Revalidate S f) (map snd snaps))"

subsection \<open>Everything before the database\<close>

record plan =
  pConfig :: mapping_config
  pLoaded :: loaded
  pCounts :: counts
  pPolicies :: policies
  pEnvelope :: bytes
  pPolls :: nat

definition prepare_import :: "('o, 'db, 'tx) libs \<Rightarrow> go_context \<Rightarrow> phases \<Rightarrow> import_options \<Rightarrow> plan res" where
  "prepare_import E ctx ph options =
     rbind (load_inputs (libS E) (libC E) (fs_load ph) options) (\<lambda>(config, target, st).
     rbind (mappingCounts config (snapshots st)) (\<lambda>counts.
     rbind (preparePolicies (libS E) (libC E) (libP E) (libQ E) (libB E) (iteration E) (fs_policies ph) config
         (snapshots st) (sources st) target) (\<lambda>(target, policies).
     rbind (encode (libC E) target) (\<lambda>envelope.
     rbind (wrapped [''validate source records''] (walk (libS E) (fs_validate ph) config (snapshots st) (check_ctx ctx) 0)) (\<lambda>polls.
     rbind (revalidate_inputs (libS E) (fs_check ph) (inputs st) (snapshots st)) (\<lambda>_.
       Inr \<lparr>pConfig = config, pLoaded = st, pCounts = counts, pPolicies = policies, pEnvelope = envelope, pPolls = polls\<rparr>))))))"

subsection \<open>The database\<close>

definition sql_ddl_setting :: string where
  "sql_ddl_setting = ''SELECT current_setting('' @ [CHR 0x27] @ ''yb_ddl_transaction_block_enabled'' @ [CHR 0x27] @ '', true)''"

text \<open>YugabyteDB must run DDL statements inside transactions.\<close>

definition check_database :: "('db, 'tx, 'l) db_lib_scheme \<Rightarrow> 'db \<Rightarrow> unit res" where
  "check_database D db =
     rbind (rbind (PoolQueryRow D ''SELECT version()'' db) (scan1 scan_string)) (\<lambda>databaseVersion.
       if Contains databaseVersion ''-YB-'' then
         (case rbind (PoolQueryRow D sql_ddl_setting db) (scan1 scan_string) of
            Inr transactionalDDL \<Rightarrow>
              if transactionalDDL \<noteq> ''on'' then Inl (New ''YugabyteDB requires transactional DDL'' []) else Inr ()
          | Inl _ \<Rightarrow> Inl (New ''YugabyteDB requires transactional DDL'' []))
       else Inr ())"

definition same_channel_config :: "'c config_lib_scheme \<Rightarrow> bytes \<Rightarrow> bytes \<Rightarrow> bool" where
  "same_channel_config C existing value =
     (case (decodeChannelConfig C existing, decodeChannelConfig C value) of
        (Inr actual, Inr expected) \<Rightarrow>
          cChannel actual = cChannel expected \<and> same_config (Config (cConfig actual)) (Config (cConfig expected))
      | _ \<Rightarrow> False)"

definition ensureEntry ::
  "('db, 'tx, 'l) db_lib_scheme \<Rightarrow> 'c config_lib_scheme \<Rightarrow> string \<Rightarrow> string \<Rightarrow> bytes \<Rightarrow> 'tx \<Rightarrow> 'tx res" where
  "ensureEntry D C namespace key val tx =
     (if length val = 0 then Inl (New ''missing configuration'' [namespace, key])
      else let table = namespaceTable D namespace in
      rbind (Exec D (sql_insert_entry table) [Bytea (bytes_of_string key), Bytea val] tx) (\<lambda>(_, tx).
      rbind (QueryRow D (sql_select_entry table) [Bytea (bytes_of_string key)] tx) (\<lambda>(row, tx).
      rbind (scan2 scan_bytes scan_uint64 row) (\<lambda>(existing, version).
        if version \<noteq> 0 then Inl (New ''existing configuration conflicts'' [namespace, key])
        else if existing = val then Inr tx
        else if namespace = ConfigNamespaceID D \<and> same_channel_config C existing val
        then rbind (Exec D (sql_update_entry table) [Bytea (bytes_of_string key), Bytea val] tx) (\<lambda>(_, tx). Inr tx)
        else Inl (New ''existing configuration conflicts'' [namespace, key])))))"

definition create_system :: "('db, 'tx, 'l) db_lib_scheme \<Rightarrow> string \<Rightarrow> 'tx \<Rightarrow> 'tx res" where
  "create_system D namespace tx =
     rbind (wrapped [''create system namespace'', namespace] (Exec D (MakeNsTablesQuery D namespace) [] tx)) (\<lambda>(_, tx). Inr tx)"

definition lookup_policy :: "policies \<Rightarrow> string \<Rightarrow> bytes" where
  "lookup_policy ps namespace = (case map_of ps namespace of None \<Rightarrow> [] | Some enc \<Rightarrow> enc)"

definition create_namespace ::
  "('db, 'tx, 'l) db_lib_scheme \<Rightarrow> 'c config_lib_scheme \<Rightarrow> policies \<Rightarrow> string \<Rightarrow> 'tx \<Rightarrow> 'tx res" where
  "create_namespace D C ps namespace tx =
     rbind (wrapped [''create namespace'', namespace] (Exec D (MakeNsTablesQuery D namespace) [] tx)) (\<lambda>(_, tx).
     rbind (QueryRow D (sql_has_rows (namespaceTable D namespace)) [] tx) (\<lambda>(row, tx).
     rbind (scan1 scan_bool row) (\<lambda>hasRows.
       if hasRows then Inl (New ''target namespace is not empty'' [namespace])
       else ensureEntry D C (MetaNamespaceID D) namespace (lookup_policy ps namespace) tx)))"

subsection \<open>Batches\<close>

record 'tx state_batch =
  sTx :: 'tx
  sTarget :: string
  sKeys :: "bytes list"
  sValues :: "bytes list"

definition insertBatchSize :: nat where
  "insertBatchSize = 512"

definition flush :: "('db, 'tx, 'l) db_lib_scheme \<Rightarrow> 'tx state_batch \<Rightarrow> 'tx state_batch res" where
  "flush D batch =
     (if length (sKeys batch) = 0 then Inr batch
      else rbind (wrapped [''insert into namespace'', sTarget batch]
          (Exec D (sql_insert_batch (namespaceTable D (sTarget batch))) [ByteaArray (sKeys batch), ByteaArray (sValues batch)] (sTx batch)))
        (\<lambda>(affected, tx).
          if (word_of_int affected :: uint64) \<noteq> of_nat (length (sKeys batch))
          then Inl (New ''insert into namespace wrote an unexpected number of rows'' [sTarget batch])
          else Inr (batch\<lparr>sTx := tx, sKeys := [], sValues := []\<rparr>)))"

definition record_value :: "snapshot_record \<Rightarrow> bytes" where
  "record_value rec = (case rValue rec of None \<Rightarrow> [] | Some v \<Rightarrow> v)"

text \<open>The callback of the second walk.\<close>

definition copy_record ::
  "('db, 'tx, 'l) db_lib_scheme \<Rightarrow> go_context \<Rightarrow> (nat \<times> 'tx state_batch) yield" where
  "copy_record D ctx target rec st = (case st of (n, batch) \<Rightarrow>
     (case ctx_Err ctx n of
        Some e \<Rightarrow> Inl e
      | None \<Rightarrow>
          rbind (if sTarget batch \<noteq> [] \<and> sTarget batch \<noteq> target then flush D batch else Inr batch) (\<lambda>batch.
          let batch = batch\<lparr>sTarget := target, sKeys := sKeys batch @ [rKey rec], sValues := sValues batch @ [record_value rec]\<rparr> in
          rbind (if length (sKeys batch) = insertBatchSize then flush D batch else Inr batch) (\<lambda>batch.
            Inr (Suc n, batch)))))"

subsection \<open>The transaction\<close>

definition verify_namespace ::
  "('db, 'tx, 'l) db_lib_scheme \<Rightarrow> counts \<Rightarrow> policies \<Rightarrow> string \<Rightarrow> uint64 \<times> namespace_result list \<times> 'tx \<Rightarrow>
   (uint64 \<times> namespace_result list \<times> 'tx) res" where
  "verify_namespace D cs ps namespace st = (case st of (recordCount, results, tx) \<Rightarrow>
     rbind (QueryRow D (sql_count (namespaceTable D namespace)) [] tx) (\<lambda>(row, tx).
     rbind (scan2 scan_uint64 scan_uint64 row) (\<lambda>(count, wrongVersion).
       if count \<noteq> lookup_count cs namespace \<or> wrongVersion \<noteq> 0
       then Inl (New ''unexpected records or versions in namespace'' [namespace])
       else Inr (recordCount + count,
         results @ [\<lparr>nrNamespace = namespace, nrRecordCount = count, nrPolicy = lookup_policy ps namespace\<rparr>], tx))))"

definition import_tx ::
  "('o, 'db, 'tx) libs \<Rightarrow> go_context \<Rightarrow> phases \<Rightarrow> plan \<Rightarrow> 'tx \<Rightarrow> (import_result \<times> 'tx) res" where
  "import_tx E ctx ph p tx =
     (let D = libD E; st = pLoaded p in
      rbind (wrapped [''prepare committer system schema''] (Exec D (systemSQL D) [] tx)) (\<lambda>(_, tx).
      rbind (rfold (create_system D) (SystemNamespaces D) tx) (\<lambda>tx.
      rbind (ensureEntry D (libC E) (ConfigNamespaceID D) (ConfigKey D) (pEnvelope p) tx) (\<lambda>tx.
      rbind (rfold (create_namespace D (libC E) (pPolicies p)) (sortedKeys (pCounts p)) tx) (\<lambda>tx.
      rbind (wrapped [''stream source snapshot into target'']
          (walk (libS E) (fs_copy ph) (pConfig p) (snapshots st) (copy_record D ctx)
            (pPolls p, \<lparr>sTx = tx, sTarget = [], sKeys = [], sValues = []\<rparr>))) (\<lambda>(_, batch).
      rbind (flush D batch) (\<lambda>batch.
      rbind (rfold (verify_namespace D (pCounts p) (pPolicies p)) (sortedKeys (pCounts p)) (0, [], sTx batch)) (\<lambda>(recordCount, results, tx).
      rbind (revalidate_inputs (libS E) (fs_recheck ph) (inputs st) (snapshots st)) (\<lambda>_.
        Inr (\<lparr>Sources = source_results st, rMapping = pConfig p, TargetConfigEnvelope = pEnvelope p,
          RecordCount = recordCount, Namespaces = results\<rparr>, tx))))))))))"

subsection \<open>Import\<close>

definition Import ::
  "('o, 'db, 'tx) libs \<Rightarrow> go_context \<Rightarrow> phases \<Rightarrow> import_options \<Rightarrow> 'db option \<Rightarrow> import_result res \<times> 'db option" where
  "Import E ctx ph options pool =
     (case pool of
        None \<Rightarrow> (Inl (New ''target database pool is required'' []), None)
      | Some db \<Rightarrow>
          (case rbind (prepare_import E ctx ph options) (\<lambda>p. rbind (check_database (libD E) db) (\<lambda>_. Inr p)) of
             Inl e \<Rightarrow> (Inl e, Some db)
           | Inr p \<Rightarrow>
               (case BeginTx (libD E) db of
                  Inl e \<Rightarrow> (Inl (Wrap [''begin target import''] e), Some db)
                | Inr tx \<Rightarrow>
                    (case import_tx E ctx ph p tx of
                       Inl e \<Rightarrow> (Inl e, Some (Rollback (libD E) tx db))
                     | Inr (result, tx) \<Rightarrow>
                         (case Commit (libD E) tx db of (committed, db') \<Rightarrow>
                           (rbind (wrapped [''commit target import''] committed) (\<lambda>_. Inr result),
                            Some (Rollback (libD E) tx db')))))))"

end
