(* ===== verification/ImportSteps.thy ===== *)
theory ImportSteps
  imports Importer Agreement
begin

text \<open>
  What the steps of an import do: the walks of \<open>Importer\<close> as a loop over the list of selected records,
  the copy loop as a sequence of batch inserts, and, inside the locale of the SQL laws, the effect of
  each step on the tables.
\<close>

subsection \<open>The selected records\<close>

definition pick_public :: "mapping_config \<Rightarrow> string \<Rightarrow> snapshot_record \<Rightarrow> (string \<times> snapshot_record) list res" where
  "pick_public config channel rec =
     (case mappingFor config channel (rNamespace rec) of (m, selected) \<Rightarrow>
       if \<not> selected then Inr []
       else if has_metadata rec then Inl (New ''contains unsupported key-level metadata'' [channel, rNamespace rec])
       else Inr [(TargetNamespace m, rec)])"

definition pick_private :: "mapping_config \<Rightarrow> string \<Rightarrow> snapshot_record \<Rightarrow> (string \<times> snapshot_record) list res" where
  "pick_private config channel rec =
     rbind (SplitHashNamespace (rNamespace rec)) (\<lambda>(source, _).
       case mappingFor config channel source of (m, selected) \<Rightarrow>
         if \<not> selected then Inr []
         else if has_metadata rec then Inl (New ''contains unsupported key-level metadata'' [channel, rNamespace rec])
         else Inr [(hashTarget m, rec)])"

definition private_records :: "'s lib_scheme \<Rightarrow> fs \<Rightarrow> snapshot_stream \<Rightarrow> snapshot_record list res" where
  "private_records S f s =
     (if \<not> has_key (fileHashes s) ''private_state_hashes.data'' then Inr [] else snapshot_records S f s private_prefix)"

definition selected_channel ::
  "'s lib_scheme \<Rightarrow> fs \<Rightarrow> mapping_config \<Rightarrow> (string, snapshot_stream) gomap \<Rightarrow> string \<Rightarrow> (string \<times> snapshot_record) list res" where
  "selected_channel S f config snaps channel =
     (let s = the (map_of snaps channel) in
      rbind (snapshot_records S f s ''public_state'') (\<lambda>pub.
      rbind (gather (pick_public config channel) pub) (\<lambda>a.
      rbind (private_records S f s) (\<lambda>priv.
      rbind (gather (pick_private config channel) priv) (\<lambda>b. Inr (a @ b))))))"

text \<open>All selected records with their target namespaces, in the order in which they are walked.\<close>

definition selected ::
  "'s lib_scheme \<Rightarrow> fs \<Rightarrow> mapping_config \<Rightarrow> (string, snapshot_stream) gomap \<Rightarrow> (string \<times> snapshot_record) list res" where
  "selected S f config snaps = gather (selected_channel S f config snaps) (sortedKeys snaps)"

lemma rfold_gather:
  assumes "\<And>x s. x \<in> set xs \<Longrightarrow> (\<forall>s'. f x s = Inr s' \<longleftrightarrow> (\<exists>rows. q x = Inr rows \<and> rfold g rows s = Inr s'))"
  shows "rfold f xs s = Inr s' \<longleftrightarrow> (\<exists>rows. gather q xs = Inr rows \<and> rfold g rows s = Inr s')"
  using assms
proof (induction xs arbitrary: s)
  case (Cons x xs)
  have "rfold f (x # xs) s = Inr s' \<longleftrightarrow> (\<exists>rows u. q x = Inr rows \<and> rfold g rows s = Inr u \<and> rfold f xs u = Inr s')"
    using Cons.prems [of x s] by auto
  also have "\<dots> \<longleftrightarrow> (\<exists>rows u more. q x = Inr rows \<and> rfold g rows s = Inr u \<and> gather q xs = Inr more \<and> rfold g more u = Inr s')"
    using Cons.IH Cons.prems by auto
  also have "\<dots> \<longleftrightarrow> (\<exists>rows. gather q (x # xs) = Inr rows \<and> rfold g rows s = Inr s')"
    by (auto simp: rfold_append)
  finally show ?case .
qed simp

abbreviation uncurried :: "'s yield \<Rightarrow> string \<times> snapshot_record \<Rightarrow> 's \<Rightarrow> 's res" where
  "uncurried yield \<equiv> \<lambda>(t, rec). yield t rec"

lemma yield_public_pick:
  "yield_public config channel yield rec st = Inr st' \<longleftrightarrow>
     (\<exists>rows. pick_public config channel rec = Inr rows \<and> rfold (uncurried yield) rows st = Inr st')"
  by (auto simp: yield_public_def pick_public_def split: prod.splits)

lemma yield_private_pick:
  "yield_private config channel yield rec st = Inr st' \<longleftrightarrow>
     (\<exists>rows. pick_private config channel rec = Inr rows \<and> rfold (uncurried yield) rows st = Inr st')"
  by (cases "SplitHashNamespace (rNamespace rec)") (auto simp: yield_private_def pick_private_def split: prod.splits if_splits)

lemma walk_channel_selected:
  "walk_channel S f config snaps yield channel st = Inr st' \<longleftrightarrow>
     (\<exists>rows. selected_channel S f config snaps channel = Inr rows \<and> rfold (uncurried yield) rows st = Inr st')"
proof -
  let ?s = "the (map_of snaps channel)"
  have pub: "WalkPublicRecords S f ?s (Some (yield_public config channel yield)) st = Inr u \<longleftrightarrow>
      (\<exists>recs rows. snapshot_records S f ?s ''public_state'' = Inr recs \<and> gather (pick_public config channel) recs = Inr rows \<and>
         rfold (uncurried yield) rows st = Inr u)" for u
    unfolding WalkPublicRecords_def walkRecords_iff call_yield_Some
    using rfold_gather [of _ "yield_public config channel yield", OF yield_public_pick [THEN allI]] by blast
  have priv: "WalkPrivateHashRecords S f ?s (Some (yield_private config channel yield)) u = Inr st' \<longleftrightarrow>
      (\<exists>recs rows. private_records S f ?s = Inr recs \<and> gather (pick_private config channel) recs = Inr rows \<and>
         rfold (uncurried yield) rows u = Inr st')" for u
  proof (cases "has_key (fileHashes ?s) ''private_state_hashes.data''")
    case True
    then have "WalkPrivateHashRecords S f ?s (Some (yield_private config channel yield)) u =
        walkRecords S f ?s private_prefix (Some (yield_private config channel yield)) u"
      "private_records S f ?s = snapshot_records S f ?s private_prefix"
      by (simp_all add: WalkPrivateHashRecords_def private_records_def)
    then show ?thesis
      using rfold_gather [of _ "yield_private config channel yield", OF yield_private_pick [THEN allI]]
      by (simp add: walkRecords_iff [of S f ?s private_prefix "Some (yield_private config channel yield)" u])
  next
    case False
    then show ?thesis unfolding WalkPrivateHashRecords_def private_records_def by auto
  qed
  have "walk_channel S f config snaps yield channel st = Inr st' \<longleftrightarrow>
      (\<exists>u. WalkPublicRecords S f ?s (Some (yield_public config channel yield)) st = Inr u \<and>
        WalkPrivateHashRecords S f ?s (Some (yield_private config channel yield)) u = Inr st')"
    by (simp add: walk_channel_def Let_def)
  also have "\<dots> \<longleftrightarrow> (\<exists>rows. selected_channel S f config snaps channel = Inr rows \<and> rfold (uncurried yield) rows st = Inr st')"
    unfolding pub priv by (auto simp: selected_channel_def Let_def rfold_append)
  finally show ?thesis .
qed

theorem walk_selected:
  "walk S f config snaps yield st = Inr st' \<longleftrightarrow>
     (\<exists>rows. selected S f config snaps = Inr rows \<and> rfold (uncurried yield) rows st = Inr st')"
  unfolding walk_def selected_def by (rule rfold_gather) (simp add: walk_channel_selected)

subsection \<open>The copy loop is a sequence of batch inserts\<close>

type_synonym batch = "string \<times> (bytes \<times> bytes) list"

text \<open>One batch: the statement \<^verbatim>\<open>flush\<close> sends and its check of the rows affected.\<close>

definition insert_rows :: "('db, 'tx, 'l) db_lib_scheme \<Rightarrow> batch \<Rightarrow> 'tx \<Rightarrow> 'tx res" where
  "insert_rows D b tx = (case b of (t, kvs) \<Rightarrow>
     rbind (wrapped [''insert into namespace'', t]
         (Exec D (sql_insert_batch (namespaceTable D t)) [ByteaArray (map fst kvs), ByteaArray (map snd kvs)] tx))
       (\<lambda>(affected, tx).
         if (word_of_int affected :: uint64) \<noteq> of_nat (length kvs)
         then Inl (New ''insert into namespace wrote an unexpected number of rows'' [t])
         else Inr tx))"

type_synonym target_row = "string \<times> bytes \<times> bytes"

definition row_of :: "string \<times> snapshot_record \<Rightarrow> target_row" where
  "row_of p = (fst p, rKey (snd p), record_value (snd p))"

definition batch_list :: "batch \<Rightarrow> target_row list" where
  "batch_list b = map (\<lambda>(k, v). (fst b, k, v)) (snd b)"

definition pending :: "'tx state_batch \<Rightarrow> batch" where
  "pending b = (sTarget b, zip (sKeys b) (sValues b))"

definition batch_ok :: "'tx state_batch \<Rightarrow> bool" where
  "batch_ok b \<longleftrightarrow> length (sValues b) = length (sKeys b) \<and> (sKeys b \<noteq> [] \<longrightarrow> sTarget b \<noteq> [])"

text \<open>A batch that may be sent: not empty, and at most 512 rows.\<close>

definition small_batch :: "batch \<Rightarrow> bool" where
  "small_batch b \<longleftrightarrow> 1 \<le> length (snd b) \<and> length (snd b) \<le> insertBatchSize"

lemma flush_Inr:
  assumes "flush D b = Inr b'" "batch_ok b" "length (sKeys b) \<le> insertBatchSize"
  shows "\<exists>bs. rfold (insert_rows D) bs (sTx b) = Inr (sTx b') \<and> concat (map batch_list bs) = batch_list (pending b) \<and>
    (\<forall>b \<in> set bs. small_batch b) \<and> sKeys b' = [] \<and> sValues b' = [] \<and> sTarget b' = sTarget b"
proof (cases "sKeys b = []")
  case True
  with assms(1,2) show ?thesis
    by (intro exI [of _ "[]"]) (simp add: flush_def batch_ok_def pending_def batch_list_def)
next
  case False
  have zips: "map fst (zip (sKeys b) (sValues b)) = sKeys b" "map snd (zip (sKeys b) (sValues b)) = sValues b"
    using assms(2) by (simp_all add: batch_ok_def)
  from False assms(1) have "insert_rows D (pending b) (sTx b) = Inr (sTx b')" "sKeys b' = []" "sValues b' = []" "sTarget b' = sTarget b"
    using assms(2) unfolding insert_rows_def pending_def prod.case zips
    by (auto simp: flush_def batch_ok_def split: if_splits)
  moreover have "small_batch (pending b)"
    using False assms(2,3) by (simp add: small_batch_def pending_def batch_ok_def Suc_le_eq)
  ultimately show ?thesis by (intro exI [of _ "[pending b]"]) simp
qed

lemma batch_list_pending_snoc:
  "length (sValues b) = length (sKeys b) \<Longrightarrow>
   batch_list (pending (b\<lparr>sKeys := sKeys b @ [k], sValues := sValues b @ [v]\<rparr>)) =
     batch_list (pending b) @ [(sTarget b, k, v)]"
  by (simp add: batch_list_def pending_def)

lemma copy_record_Inr:
  assumes "copy_record D ctx t rec (n, b) = Inr (n', b')" "batch_ok b" "length (sKeys b) < insertBatchSize" "t \<noteq> []"
  shows "\<exists>bs. rfold (insert_rows D) bs (sTx b) = Inr (sTx b') \<and>
      concat (map batch_list bs) @ batch_list (pending b') = batch_list (pending b) @ [row_of (t, rec)] \<and>
      (\<forall>b \<in> set bs. small_batch b) \<and> batch_ok b' \<and> length (sKeys b') < insertBatchSize"
proof -
  from assms(1) obtain b1 where 1: "(if sTarget b \<noteq> [] \<and> sTarget b \<noteq> t then flush D b else Inr b) = Inr b1"
    and 2: "(let b2 = b1\<lparr>sTarget := t, sKeys := sKeys b1 @ [rKey rec], sValues := sValues b1 @ [record_value rec]\<rparr> in
      if length (sKeys b2) = insertBatchSize then flush D b2 else Inr b2) = Inr b'"
    by (auto simp: copy_record_def Let_def split: option.splits)
  obtain bs1 where bs1: "rfold (insert_rows D) bs1 (sTx b) = Inr (sTx b1)"
      "concat (map batch_list bs1) @ batch_list (pending b1) = batch_list (pending b)"
      "\<forall>b \<in> set bs1. small_batch b"
    and b1: "length (sValues b1) = length (sKeys b1)" "length (sKeys b1) < insertBatchSize" "sKeys b1 = [] \<or> sTarget b1 = t"
  proof (cases "sTarget b \<noteq> [] \<and> sTarget b \<noteq> t")
    case True
    with 1 have "flush D b = Inr b1" by simp
    from flush_Inr [OF this assms(2)] assms(3) obtain bs where "rfold (insert_rows D) bs (sTx b) = Inr (sTx b1)"
      "concat (map batch_list bs) = batch_list (pending b)" "\<forall>b \<in> set bs. small_batch b" "sKeys b1 = []" "sValues b1 = []" by auto
    with that [of bs] assms(3) show ?thesis by (simp add: pending_def batch_list_def)
  next
    case False
    with 1 have "b1 = b" by auto
    with that [of "[]"] assms(2,3) False show ?thesis by (auto simp: batch_ok_def)
  qed
  let ?b2 = "b1\<lparr>sTarget := t, sKeys := sKeys b1 @ [rKey rec], sValues := sValues b1 @ [record_value rec]\<rparr>"
  have b2: "batch_list (pending ?b2) = batch_list (pending b1) @ [row_of (t, rec)]"
    using b1(1,3) by (auto simp: batch_list_def pending_def row_of_def)
  have ok: "batch_ok ?b2" using b1(1) assms(4) by (simp add: batch_ok_def)
  show ?thesis
  proof (cases "length (sKeys ?b2) = insertBatchSize")
    case True
    with 2 have "flush D ?b2 = Inr b'" by (simp add: Let_def)
    from flush_Inr [OF this ok] True obtain bs where bs: "rfold (insert_rows D) bs (sTx b1) = Inr (sTx b')"
      "concat (map batch_list bs) = batch_list (pending ?b2)" "\<forall>b \<in> set bs. small_batch b"
      "sKeys b' = []" "sValues b' = []" by auto
    have "batch_list (pending b') = []" using bs(4) by (simp add: pending_def batch_list_def)
    moreover have "0 < insertBatchSize" by (simp add: insertBatchSize_def)
    ultimately show ?thesis
      using bs bs1 b2 by (intro exI [of _ "bs1 @ bs"]) (auto simp: rfold_append batch_ok_def)
  next
    case False
    with 2 have "b' = ?b2" by (simp add: Let_def)
    with bs1 b2 ok False b1(2) show ?thesis by (intro exI [of _ bs1]) auto
  qed
qed

lemma copy_records_Inr:
  assumes "rfold (uncurried (copy_record D ctx)) rows (n, b) = Inr (n', b')" "batch_ok b"
    "length (sKeys b) < insertBatchSize" "\<forall>row \<in> set rows. fst row \<noteq> []"
  shows "\<exists>bs. rfold (insert_rows D) bs (sTx b) = Inr (sTx b') \<and>
      concat (map batch_list bs) @ batch_list (pending b') = batch_list (pending b) @ map row_of rows \<and>
      (\<forall>b \<in> set bs. small_batch b) \<and> batch_ok b' \<and> length (sKeys b') < insertBatchSize"
  using assms
proof (induction rows arbitrary: n b)
  case Nil
  then show ?case by (intro exI [of _ "[]"]) simp
next
  case (Cons row rows)
  obtain t rec where row: "row = (t, rec)" by (cases row)
  with Cons.prems(1) obtain n1 b1 where 1: "copy_record D ctx t rec (n, b) = Inr (n1, b1)"
    and 2: "rfold (uncurried (copy_record D ctx)) rows (n1, b1) = Inr (n', b')" by auto
  from copy_record_Inr [OF 1 Cons.prems(2,3)] Cons.prems(4) row obtain bs1 where
    bs1: "rfold (insert_rows D) bs1 (sTx b) = Inr (sTx b1)"
      "concat (map batch_list bs1) @ batch_list (pending b1) = batch_list (pending b) @ [row_of (t, rec)]"
      "\<forall>b \<in> set bs1. small_batch b" "batch_ok b1" "length (sKeys b1) < insertBatchSize" by auto
  from Cons.IH [OF 2 bs1(4,5)] Cons.prems(4) obtain bs2 where
    bs2: "rfold (insert_rows D) bs2 (sTx b1) = Inr (sTx b')"
      "concat (map batch_list bs2) @ batch_list (pending b') = batch_list (pending b1) @ map row_of rows"
      "\<forall>b \<in> set bs2. small_batch b" "batch_ok b'" "length (sKeys b') < insertBatchSize" by auto
  have "concat (map batch_list (bs1 @ bs2)) @ batch_list (pending b') = batch_list (pending b) @ map row_of (row # rows)"
    using bs1(2) bs2(2) by (simp add: row)
  with bs1 bs2 show ?case by (intro exI [of _ "bs1 @ bs2"]) (auto simp: rfold_append)
qed

theorem copy_batches:
  assumes "rfold (uncurried (copy_record D ctx)) rows (n, \<lparr>sTx = tx, sTarget = [], sKeys = [], sValues = []\<rparr>) = Inr (n', b)"
    "flush D b = Inr b'" "\<forall>row \<in> set rows. fst row \<noteq> []"
  shows "\<exists>bs. rfold (insert_rows D) bs tx = Inr (sTx b') \<and> concat (map batch_list bs) = map row_of rows \<and>
    (\<forall>b \<in> set bs. small_batch b)"
proof -
  let ?b = "\<lparr>sTx = tx, sTarget = [], sKeys = [], sValues = []\<rparr>"
  have "batch_ok ?b" "length (sKeys ?b) < insertBatchSize" "batch_list (pending ?b) = []"
    by (simp_all add: batch_ok_def insertBatchSize_def pending_def batch_list_def)
  from copy_records_Inr [OF assms(1) this(1,2) assms(3)] this(3) obtain bs where
    bs: "rfold (insert_rows D) bs tx = Inr (sTx b)" "concat (map batch_list bs) @ batch_list (pending b) = map row_of rows"
      "\<forall>b \<in> set bs. small_batch b" "batch_ok b" "length (sKeys b) < insertBatchSize" by auto
  from flush_Inr [OF assms(2) bs(4)] bs(5) obtain bs' where
    "rfold (insert_rows D) bs' (sTx b) = Inr (sTx b')" "concat (map batch_list bs') = batch_list (pending b)"
    "\<forall>b \<in> set bs'. small_batch b" by auto
  with bs show ?thesis by (intro exI [of _ "bs @ bs'"]) (auto simp: rfold_append)
qed

subsection \<open>The effect on the tables\<close>

lemma uint64_int: "0 \<le> i \<Longrightarrow> i < 2 ^ 64 \<Longrightarrow> uint (word_of_int i :: uint64) = i"
  by (simp add: uint_word_of_int_eq take_bit_int_eq_self)

lemma becomes_trans:
  "becomes rows valid tx tx1 n r1 \<Longrightarrow> becomes rows valid tx1 tx2 n r2 \<Longrightarrow> becomes rows valid tx tx2 n r2"
  by (auto simp: becomes_def)

lemma becomes_same:
  "becomes rows valid tx tx1 n r \<Longrightarrow> valid n \<Longrightarrow> \<forall>m. valid m \<longrightarrow> rows tx2 m = rows tx1 m \<Longrightarrow> becomes rows valid tx tx2 n r"
  by (auto simp: becomes_def)

lemma set_value_upd: "r k = Some (v', version) \<Longrightarrow> set_value k v r = r(k \<mapsto> (Some v, version))"
  by (simp add: set_value_def)

text \<open>The rows of the namespace \<open>n\<close> among a list of target rows.\<close>

definition rows_for :: "string \<Rightarrow> target_row list \<Rightarrow> (bytes \<times> bytes) list" where
  "rows_for n ts = map snd (filter (\<lambda>row. fst row = n) ts)"

definition row_table :: "(bytes \<times> bytes) list \<Rightarrow> table" where
  "row_table kvs = map_of (map (\<lambda>(k, v). (k, (Some v, 0))) kvs)"

lemma rows_for_append [simp]: "rows_for n (xs @ ys) = rows_for n xs @ rows_for n ys"
  by (simp add: rows_for_def)

lemma rows_for_batch: "rows_for n (batch_list b) = (if fst b = n then snd b else [])"
  by (induction "snd b" arbitrary: b) (auto simp: rows_for_def batch_list_def comp_def case_prod_unfold)

lemma row_table_batch: "batch_rows (map fst kvs) (map snd kvs) = row_table kvs"
  by (simp add: batch_rows_def row_table_def zip_map_map case_prod_unfold zip_same_conv_map comp_def)

lemma dom_row_table [simp]: "dom (row_table kvs) = fst ` set kvs"
  by (auto simp: row_table_def dom_map_of_conv_image_fst image_image case_prod_unfold)

lemma row_table_append:
  "fst ` set xs \<inter> fst ` set ys = {} \<Longrightarrow> row_table (xs @ ys) = row_table xs ++ row_table ys"
proof -
  assume "fst ` set xs \<inter> fst ` set ys = {}"
  then have "row_table ys ++ row_table xs = row_table xs ++ row_table ys"
    by (intro map_add_comm) (auto simp: Int_commute)
  then show ?thesis by (simp add: row_table_def)
qed

lemma row_table_Nil [simp]: "row_table [] = Map.empty"
  by (simp add: row_table_def)

lemma same_channel_config_iff:
  "same_channel_config C existing val \<longleftrightarrow>
     (\<exists>actual expected. decodeChannelConfig C existing = Inr actual \<and> decodeChannelConfig C val = Inr expected \<and>
        cChannel actual = cChannel expected \<and> same_config (Config (cConfig actual)) (Config (cConfig expected)))"
  by (auto simp: same_channel_config_def split: sum.splits)

text \<open>What the key holds beforehand when \<open>ensureEntry\<close> accepts it.\<close>

definition entry_compatible :: "('db, 'tx, 'l) db_lib_scheme \<Rightarrow> 'c config_lib_scheme \<Rightarrow> string \<Rightarrow> bytes \<Rightarrow> (bytes option \<times> int) option \<Rightarrow> bool" where
  "entry_compatible D C n val old \<longleftrightarrow>
     old = None \<or> old = Some (Some val, 0) \<or>
     (n = ConfigNamespaceID D \<and> (\<exists>v. old = Some (v, 0) \<and> same_channel_config C (case v of None \<Rightarrow> [] | Some bs \<Rightarrow> bs) val))"

definition or_empty :: "table option \<Rightarrow> table" where
  "or_empty r = (case r of None \<Rightarrow> Map.empty | Some r \<Rightarrow> r)"

context sql_tables
begin

lemma insert_rows_effect:
  assumes "insert_rows D b tx = Inr tx'" "valid (fst b)"
  shows "\<exists>r. rows tx (fst b) = Some r \<and> distinct (map fst (snd b)) \<and> fst ` set (snd b) \<inter> dom r = {} \<and>
    becomes rows valid tx tx' (fst b) (Some (r ++ row_table (snd b)))"
proof -
  obtain t kvs where b: "b = (t, kvs)" by (cases b)
  from assms(1) obtain a where
    "Exec D (sql_insert_batch (namespaceTable D t)) [ByteaArray (map fst kvs), ByteaArray (map snd kvs)] tx = Inr (a, tx')"
    by (auto simp: insert_rows_def b split: if_splits)
  from insert_batch [OF _ _ this] assms(2) show ?thesis unfolding b fst_conv snd_conv row_table_batch by auto
qed

text \<open>A sequence of batches: the rows of each namespace, all keys new and distinct.\<close>

lemma insert_all_effect:
  assumes "rfold (insert_rows D) bs tx = Inr tx'" "\<forall>b \<in> set bs. valid (fst b)" "valid n" "rows tx n = Some r"
  shows "distinct (map fst (rows_for n (concat (map batch_list bs)))) \<and>
    fst ` set (rows_for n (concat (map batch_list bs))) \<inter> dom r = {} \<and>
    rows tx' n = Some (r ++ row_table (rows_for n (concat (map batch_list bs))))"
  using assms(1,2,4)
proof (induction bs arbitrary: tx r)
  case Nil
  then show ?case by (simp add: rows_for_def)
next
  case (Cons b bs)
  from Cons.prems(1) obtain tx1 where 1: "insert_rows D b tx = Inr tx1" and 2: "rfold (insert_rows D) bs tx1 = Inr tx'" by auto
  let ?rest = "rows_for n (concat (map batch_list bs))"
  show ?case
  proof (cases "fst b = n")
    case True
    from insert_rows_effect [OF 1] Cons.prems(2,3) True
    have b: "distinct (map fst (snd b))" "fst ` set (snd b) \<inter> dom r = {}" "rows tx1 n = Some (r ++ row_table (snd b))"
      by (auto simp: becomes_def)
    from Cons.IH [OF 2 _ b(3)] Cons.prems(2)
    have rest: "distinct (map fst ?rest)" "fst ` set ?rest \<inter> dom (r ++ row_table (snd b)) = {}"
      "rows tx' n = Some ((r ++ row_table (snd b)) ++ row_table ?rest)" by auto
    then have disj: "fst ` set (snd b) \<inter> fst ` set ?rest = {}" "fst ` set ?rest \<inter> dom r = {}" by auto
    from b rest disj row_table_append [OF disj(1)] show ?thesis
      by (simp add: rows_for_batch True map_add_assoc image_Un Int_Un_distrib2)
  next
    case False
    from insert_rows_effect [OF 1] Cons.prems(2,3) False assms(3) have "rows tx1 n = Some r"
      by (auto simp: becomes_def)
    from Cons.IH [OF 2 _ this] Cons.prems(2) False show ?thesis by (simp add: rows_for_batch)
  qed
qed

lemma insert_all_frame:
  assumes "rfold (insert_rows D) bs tx = Inr tx'" "\<forall>b \<in> set bs. valid (fst b) \<and> fst b \<noteq> n" "valid n"
  shows "rows tx' n = rows tx n"
  using assms(1,2)
proof (induction bs arbitrary: tx)
  case (Cons b bs)
  from Cons.prems(1) obtain tx1 where 1: "insert_rows D b tx = Inr tx1" and 2: "rfold (insert_rows D) bs tx1 = Inr tx'" by auto
  from insert_rows_effect [OF 1] Cons.prems(2) assms(3) have "rows tx1 n = rows tx n" by (auto simp: becomes_def)
  with Cons.IH [OF 2] Cons.prems(2) show ?case by simp
qed simp

subsubsection \<open>ensureEntry\<close>

lemma ensureEntry_effect:
  assumes "ensureEntry D C n key val tx = Inr tx'" "valid n"
  shows "val \<noteq> [] \<and> (\<exists>r. rows tx n = Some r \<and> entry_compatible D C n val (r (bytes_of_string key)) \<and>
    becomes rows valid tx tx' n (Some (r(bytes_of_string key \<mapsto> (Some val, 0)))))"
proof -
  let ?k = "bytes_of_string key" and ?table = "namespaceTable D n"
  from assms(1) obtain a tx1 row tx2 existing version where val: "val \<noteq> []"
    and 1: "Exec D (sql_insert_entry ?table) [Bytea ?k, Bytea val] tx = Inr (a, tx1)"
    and 2: "QueryRow D (sql_select_entry ?table) [Bytea ?k] tx1 = Inr (row, tx2)"
    and 3: "scan2 scan_bytes scan_uint64 row = Inr (existing, version)" "version = 0"
    and 4: "(if existing = val then Inr tx2
       else if n = ConfigNamespaceID D \<and> same_channel_config C existing val
       then rbind (Exec D (sql_update_entry ?table) [Bytea ?k, Bytea val] tx2) (\<lambda>(_, tx). Inr tx)
       else Inl (New ''existing configuration conflicts'' [n, key])) = Inr tx'"
    by (auto simp: ensureEntry_def Let_def split: prod.splits if_splits)
  from insert_entry [OF assms(2) 1] obtain r where r: "rows tx n = Some r" "becomes rows valid tx tx1 n (Some (insert_new ?k val r))" by blast
  from select_entry [OF assms(2) 2] obtain r1 v ver where sel: "rows tx1 n = Some r1" "r1 ?k = Some (v, ver)"
    "row = [VBytea v, VInt ver]" and same: "\<forall>m. valid m \<longrightarrow> rows tx2 m = rows tx1 m" by blast
  have r1: "r1 = insert_new ?k val r" using sel(1) r(2) by (simp add: becomes_def)
  have existing: "existing = (case v of None \<Rightarrow> [] | Some bs \<Rightarrow> bs)"
    using 3(1) sel(3) by (cases v) auto
  have "word_of_int ver = (0 :: uint64)" "0 \<le> ver" "ver < 2 ^ 64" using 3 sel(3) by (auto simp: scan_uint64_Inr)
  then have ver: "ver = 0" using uint64_int [of ver] by simp
  have after: "becomes rows valid tx tx2 n (Some (insert_new ?k val r))" by (rule becomes_same [OF r(2) assms(2) same])
  show ?thesis
  proof (cases "existing = val")
    case True
    with existing val have v: "v = Some val" by (cases v) auto
    have "insert_new ?k val r = r(?k \<mapsto> (Some val, 0))" "entry_compatible D C n val (r ?k)"
      using sel(2) v ver by (auto simp: r1 insert_new_def entry_compatible_def split: option.splits)
    with True 4 val r(1) after show ?thesis by auto
  next
    case False
    with 4 obtain b where same_config: "n = ConfigNamespaceID D" "same_channel_config C existing val"
      and 5: "Exec D (sql_update_entry ?table) [Bytea ?k, Bytea val] tx2 = Inr (b, tx')"
      by (auto split: if_splits prod.splits)
    from update_entry [OF assms(2) 5] obtain r2 where r2: "rows tx2 n = Some r2" "becomes rows valid tx2 tx' n (Some (set_value ?k val r2))" by blast
    have "r2 = r1" using r2(1) same assms(2) sel(1) by simp
    have old: "r ?k = Some (v, 0)"
      using sel(2) ver False existing by (cases "r ?k") (auto simp: r1 insert_new_def)
    have "set_value ?k val r2 = r(?k \<mapsto> (Some val, 0))"
      using old by (auto simp: \<open>r2 = r1\<close> r1 insert_new_def set_value_def)
    moreover have "entry_compatible D C n val (r ?k)"
      using old same_config existing by (auto simp: entry_compatible_def)
    ultimately show ?thesis using val r(1) becomes_trans [OF after r2(2)] by auto
  qed
qed

subsubsection \<open>The namespaces\<close>

lemma create_system_loop:
  assumes "rfold (create_system D) ns tx = Inr tx'" "\<forall>n \<in> set ns. valid n" "valid m"
  shows "rows tx' m = (if m \<in> set ns then Some (or_empty (rows tx m)) else rows tx m)"
  using assms(1,2)
proof (induction ns arbitrary: tx)
  case (Cons n ns)
  from Cons.prems(1) obtain tx1 where step: "create_system D n tx = Inr tx1" and 2: "rfold (create_system D) ns tx1 = Inr tx'"
    by auto
  from step obtain a where 1: "Exec D (MakeNsTablesQuery D n) [] tx = Inr (a, tx1)" by (auto simp: create_system_def)
  have "becomes rows valid tx tx1 n (Some (or_empty (rows tx n)))"
    using create_table [OF _ 1] Cons.prems(2) by (simp add: or_empty_def)
  then have "rows tx1 m = (if m = n then Some (or_empty (rows tx m)) else rows tx m)"
    using assms(3) by (auto simp: becomes_def)
  with Cons.IH [OF 2] Cons.prems(2) show ?case by (auto simp: or_empty_def)
qed simp

lemma create_namespace_effect:
  assumes "create_namespace D C ps n tx = Inr tx'" "valid n" "valid (MetaNamespaceID D)" "n \<noteq> MetaNamespaceID D"
    "rows tx (MetaNamespaceID D) = Some r0"
  shows "or_empty (rows tx n) = Map.empty \<and> rows tx' n = Some Map.empty \<and> lookup_policy ps n \<noteq> [] \<and>
    entry_compatible D C (MetaNamespaceID D) (lookup_policy ps n) (r0 (bytes_of_string n)) \<and>
    rows tx' (MetaNamespaceID D) = Some (r0(bytes_of_string n \<mapsto> (Some (lookup_policy ps n), 0))) \<and>
    (\<forall>m. valid m \<longrightarrow> m \<noteq> n \<longrightarrow> m \<noteq> MetaNamespaceID D \<longrightarrow> rows tx' m = rows tx m)"
proof -
  from assms(1) obtain a tx1 row tx2 where 1: "Exec D (MakeNsTablesQuery D n) [] tx = Inr (a, tx1)"
    and 2: "QueryRow D (sql_has_rows (namespaceTable D n)) [] tx1 = Inr (row, tx2)"
    and 3: "scan1 scan_bool row = Inr False"
    and 4: "ensureEntry D C (MetaNamespaceID D) n (lookup_policy ps n) tx2 = Inr tx'"
    by (auto simp: create_namespace_def split: if_splits)
  have c: "becomes rows valid tx tx1 n (Some (or_empty (rows tx n)))"
    using create_table [OF assms(2) 1] by (simp add: or_empty_def)
  from has_rows [OF assms(2) 2] obtain r where r: "rows tx1 n = Some r" "row = [VBool (r \<noteq> Map.empty)]"
    and same: "\<forall>m. valid m \<longrightarrow> rows tx2 m = rows tx1 m" by blast
  have empty: "or_empty (rows tx n) = Map.empty" using c r 3 by (auto simp: becomes_def)
  have meta: "rows tx2 (MetaNamespaceID D) = Some r0"
    using c same assms(3-5) by (auto simp: becomes_def)
  from ensureEntry_effect [OF 4 assms(3)] meta have e: "lookup_policy ps n \<noteq> []"
    "entry_compatible D C (MetaNamespaceID D) (lookup_policy ps n) (r0 (bytes_of_string n))"
    "becomes rows valid tx2 tx' (MetaNamespaceID D) (Some (r0(bytes_of_string n \<mapsto> (Some (lookup_policy ps n), 0))))" by auto
  have "rows tx' n = Some Map.empty" using e(3) c same assms(2,4) empty by (auto simp: becomes_def)
  with e empty c same show ?thesis by (auto simp: becomes_def)
qed

lemma create_namespaces_loop:
  assumes "rfold (create_namespace D C ps) ns tx = Inr tx'" "distinct ns"
    "\<forall>n \<in> set ns. valid n \<and> n \<noteq> MetaNamespaceID D" "valid (MetaNamespaceID D)" "rows tx (MetaNamespaceID D) = Some r0"
  shows "(\<forall>n \<in> set ns. or_empty (rows tx n) = Map.empty \<and> rows tx' n = Some Map.empty \<and> lookup_policy ps n \<noteq> [] \<and>
      entry_compatible D C (MetaNamespaceID D) (lookup_policy ps n) (r0 (bytes_of_string n))) \<and>
    (\<exists>r. rows tx' (MetaNamespaceID D) = Some r \<and>
      (\<forall>n \<in> set ns. r (bytes_of_string n) = Some (Some (lookup_policy ps n), 0)) \<and>
      (\<forall>k. k \<notin> bytes_of_string ` set ns \<longrightarrow> r k = r0 k)) \<and>
    (\<forall>m. valid m \<longrightarrow> m \<notin> set ns \<longrightarrow> m \<noteq> MetaNamespaceID D \<longrightarrow> rows tx' m = rows tx m)"
  using assms(1-3,5)
proof (induction ns arbitrary: tx r0)
  case (Cons n ns)
  let ?meta = "MetaNamespaceID D"
  from Cons.prems(1) obtain tx1 where 1: "create_namespace D C ps n tx = Inr tx1"
    and 2: "rfold (create_namespace D C ps) ns tx1 = Inr tx'" by auto
  have n: "valid n" "n \<noteq> ?meta" "n \<notin> set ns" using Cons.prems(2,3) by auto
  note e = create_namespace_effect [OF 1 n(1) assms(4) n(2) Cons.prems(4)]
  let ?r1 = "r0(bytes_of_string n \<mapsto> (Some (lookup_policy ps n), 0))"
  have meta1: "rows tx1 ?meta = Some ?r1" using e by blast
  have "distinct ns" "\<forall>n \<in> set ns. valid n \<and> n \<noteq> ?meta" using Cons.prems(2,3) by simp_all
  note IH = Cons.IH [OF 2 this meta1]
  have inj: "bytes_of_string a = bytes_of_string b \<longleftrightarrow> a = b" for a b by (metis string_of_bytes_of_string)
  note ns = IH [THEN conjunct1] and frame = IH [THEN conjunct2, THEN conjunct2]
  from IH [THEN conjunct2, THEN conjunct1] obtain r where some_r: "rows tx' ?meta = Some r \<and>
      (\<forall>n \<in> set ns. r (bytes_of_string n) = Some (Some (lookup_policy ps n), 0)) \<and>
      (\<forall>k. k \<notin> bytes_of_string ` set ns \<longrightarrow> r k = ?r1 k)" by (rule exE)
  note r = some_r [THEN conjunct1] some_r [THEN conjunct2, THEN conjunct1] some_r [THEN conjunct2, THEN conjunct2]
  have notin: "bytes_of_string n \<notin> bytes_of_string ` set ns" using n(3) by (simp add: image_iff inj)
  have entries_: "\<forall>m \<in> set (n # ns). r (bytes_of_string m) = Some (Some (lookup_policy ps m), 0)"
    using r(2,3) notin by simp
  have created: "or_empty (rows tx m) = Map.empty \<and> rows tx' m = Some Map.empty \<and> lookup_policy ps m \<noteq> [] \<and>
      entry_compatible D C ?meta (lookup_policy ps m) (r0 (bytes_of_string m))" if "m \<in> set (n # ns)" for m
  proof (cases "m = n")
    case True
    have "rows tx' n = rows tx1 n" using frame n by blast
    with True e show ?thesis by simp
  next
    case False
    with that have "m \<in> set ns" by simp
    moreover have "rows tx1 m = rows tx m" using e False that Cons.prems(3) by blast
    moreover have "?r1 (bytes_of_string m) = r0 (bytes_of_string m)" using False inj by simp
    ultimately show ?thesis using ns by metis
  qed
  have others: "r k = r0 k" if "k \<notin> bytes_of_string ` set (n # ns)" for k
    using r(3) that by simp
  have same: "rows tx' m = rows tx m" if "valid m" "m \<notin> set (n # ns)" "m \<noteq> ?meta" for m
    using frame e that by simp
  show ?case
    by (intro conjI ballI created exI [of _ r] r(1) entries_ allI impI others same)
qed auto

subsubsection \<open>The final counts\<close>

lemma verify_loop:
  assumes "rfold (verify_namespace D cs ps) ns (acc, results, tx) = Inr (acc', results', tx')" "\<forall>n \<in> set ns. valid n"
  shows "(\<forall>m. valid m \<longrightarrow> rows tx' m = rows tx m) \<and>
    (\<forall>n \<in> set ns. \<exists>r. rows tx n = Some r \<and> finite (dom r) \<and> card (dom r) = unat (lookup_count cs n) \<and>
       (\<forall>k v version. r k = Some (v, version) \<longrightarrow> version = 0)) \<and>
    results' = results @ map (\<lambda>n. \<lparr>nrNamespace = n, nrRecordCount = lookup_count cs n, nrPolicy = lookup_policy ps n\<rparr>) ns \<and>
    acc' = acc + sum_list (map (lookup_count cs) ns)"
  using assms
proof (induction ns arbitrary: acc results tx)
  case (Cons n ns)
  from Cons.prems(1) obtain st1 where step: "verify_namespace D cs ps n (acc, results, tx) = Inr st1"
    and rest: "rfold (verify_namespace D cs ps) ns st1 = Inr (acc', results', tx')" by auto
  from step obtain row tx1 count where
    1: "QueryRow D (sql_count (namespaceTable D n)) [] tx = Inr (row, tx1)"
    and 2: "scan2 scan_uint64 scan_uint64 row = Inr (count, 0)" "count = lookup_count cs n"
    and st1: "st1 = (acc + count, results @ [\<lparr>nrNamespace = n, nrRecordCount = count, nrPolicy = lookup_policy ps n\<rparr>], tx1)"
    by (auto simp: verify_namespace_def split: if_splits)
  note 3 = rest [unfolded st1]
  let ?wrong = "\<lambda>r. {k. \<exists>v version. r k = Some (v, version) \<and> version \<noteq> (0 :: int)}"
  from count_rows [OF _ 1] Cons.prems(2) obtain r where r: "rows tx n = Some r" "finite (dom r)"
    "row = [VInt (int (card (dom r))), VInt (int (card (?wrong r)))]"
    and same: "\<forall>m. valid m \<longrightarrow> rows tx1 m = rows tx m" by auto
  have count: "word_of_int (int (card (dom r))) = count" "int (card (dom r)) < 2 ^ 64"
    and wrong: "word_of_int (int (card (?wrong r))) = (0 :: uint64)" "int (card (?wrong r)) < 2 ^ 64"
    using 2(1) r(3) by (auto simp: scan_uint64_Inr)
  have "card (dom r) = unat count"
    using uint64_int [OF _ count(2)] count(1) by (metis nat_int of_nat_0_le_iff unat_eq_nat_uint)
  moreover have "card (?wrong r) = 0"
    using uint64_int [OF _ wrong(2)] wrong(1) by simp
  moreover have "?wrong r \<subseteq> dom r" by auto
  then have "finite (?wrong r)" by (rule finite_subset [OF _ r(2)])
  ultimately have "card (dom r) = unat count" "?wrong r = {}" by simp_all
  then have n: "\<exists>r. rows tx n = Some r \<and> finite (dom r) \<and> card (dom r) = unat (lookup_count cs n) \<and>
       (\<forall>k v version. r k = Some (v, version) \<longrightarrow> version = 0)"
    using r(1,2) 2(2) by (intro exI [of _ r]) blast
  from Cons.IH [OF 3] Cons.prems(2) have IH: "\<forall>m. valid m \<longrightarrow> rows tx' m = rows tx1 m"
    "\<forall>n \<in> set ns. \<exists>r. rows tx1 n = Some r \<and> finite (dom r) \<and> card (dom r) = unat (lookup_count cs n) \<and>
       (\<forall>k v version. r k = Some (v, version) \<longrightarrow> version = 0)"
    "results' = (results @ [\<lparr>nrNamespace = n, nrRecordCount = count, nrPolicy = lookup_policy ps n\<rparr>]) @
       map (\<lambda>n. \<lparr>nrNamespace = n, nrRecordCount = lookup_count cs n, nrPolicy = lookup_policy ps n\<rparr>) ns"
    "acc' = acc + count + sum_list (map (lookup_count cs) ns)" by auto
  have "\<forall>n \<in> set ns. rows tx1 n = rows tx n" using same Cons.prems(2) by auto
  with IH n same 2(2) show ?case by (auto simp: ac_simps)
qed simp

end

end
