(* ===== verification/ImportEffect.thy ===== *)
theory ImportEffect
  imports ImportSteps Ledger Grammar
begin

text \<open>
  The import as a whole, over any database that keeps the laws of \<open>sql_database\<close>: what a completed
  import has done to the tables (\<open>imported\<close>), and that a transaction that does not fail has done it.
\<close>

subsection \<open>The target namespaces\<close>

definition targets :: "mapping_config \<Rightarrow> string set" where
  "targets config = (\<Union>m \<in> set (Mappings config). {TargetNamespace m, hashTarget m})"

lemma mappingFor_selected:
  "mappingFor config channel ns = (m, True) \<Longrightarrow> m \<in> set (Mappings config)"
  by (auto simp: mappingFor_def find_Some_iff split: option.splits)

lemma pick_public_target:
  assumes "pick_public config channel rec = Inr kvs" "row \<in> set kvs"
  shows "fst row \<in> targets config"
proof -
  obtain m selected where m: "mappingFor config channel (rNamespace rec) = (m, selected)" by fastforce
  with assms have "selected" "fst row = TargetNamespace m" by (auto simp: pick_public_def split: if_splits)
  with m have "m \<in> set (Mappings config)" by (simp add: mappingFor_selected)
  with \<open>fst row = _\<close> show ?thesis by (auto simp: targets_def)
qed

lemma pick_private_target:
  assumes "pick_private config channel rec = Inr kvs" "row \<in> set kvs"
  shows "fst row \<in> targets config"
proof -
  from assms(1) obtain src coll where split: "SplitHashNamespace (rNamespace rec) = Inr (src, coll)"
    by (auto simp: pick_private_def)
  obtain m selected where m: "mappingFor config channel src = (m, selected)" by fastforce
  with assms split have "selected" "fst row = hashTarget m" by (auto simp: pick_private_def split: if_splits)
  with m have "m \<in> set (Mappings config)" by (simp add: mappingFor_selected)
  with \<open>fst row = _\<close> show ?thesis by (auto simp: targets_def)
qed

lemma selected_targets:
  assumes "selected S f config snaps = Inr rows" "row \<in> set rows"
  shows "fst row \<in> targets config"
proof -
  obtain t rec where row: "row = (t, rec)" by (cases row)
  from assms obtain channel kvs where "selected_channel S f config snaps channel = Inr kvs" "(t, rec) \<in> set kvs"
    unfolding selected_def row using gather_set by blast
  then obtain pub a priv b where
    a: "gather (pick_public config channel) pub = Inr a" and b: "gather (pick_private config channel) priv = Inr b"
    and in_: "row \<in> set a \<or> row \<in> set b"
    by (auto simp: selected_channel_def Let_def row)
  then show ?thesis
    using gather_set [OF a, of row] gather_set [OF b, of row] pick_public_target pick_private_target by blast
qed

lemma mappingCounts_targets:
  assumes "mappingCounts config snaps = Inr counts"
  shows "set (keys counts) \<subseteq> targets config" "wf_map counts"
proof -
  have "touched snaps m \<subseteq> {TargetNamespace m, hashTarget m}" for m
    by (auto simp: touched_def split: option.splits if_splits)
  with mappingCounts_Inr(2,3) [OF assms] show "set (keys counts) \<subseteq> targets config" "wf_map counts"
    by (fastforce simp: targets_def)+
qed

subsection \<open>A completed import\<close>

text \<open>
  \<open>before\<close> and \<open>after\<close> give the table of each namespace, \<open>ts\<close> the selected rows. Every target namespace
  was missing or empty and has exactly its rows, at version 0, as many as expected; the meta namespace
  has the policy of every target namespace and otherwise what it had; the configuration entry is the
  resolved envelope; the other system namespaces exist and have what they had; no other namespace has
  changed.
\<close>

definition imported ::
  "('o, 'db, 'tx) libs \<Rightarrow> (string \<Rightarrow> bool) \<Rightarrow> plan \<Rightarrow> target_row list \<Rightarrow> (string \<Rightarrow> table option) \<Rightarrow> (string \<Rightarrow> table option) \<Rightarrow> bool" where
  "imported E valid p ts before after \<longleftrightarrow>
     (let D = libD E; meta = MetaNamespaceID D; config = ConfigNamespaceID D in
      (\<forall>n \<in> set (keys (pCounts p)).
         or_empty (before n) = Map.empty \<and> after n = Some (row_table (rows_for n ts)) \<and>
         distinct (map fst (rows_for n ts)) \<and> length (rows_for n ts) = unat (lookup_count (pCounts p) n)) \<and>
      (\<exists>r. after meta = Some r \<and>
         (\<forall>n \<in> set (keys (pCounts p)). lookup_policy (pPolicies p) n \<noteq> [] \<and>
            r (bytes_of_string n) = Some (Some (lookup_policy (pPolicies p) n), 0) \<and>
            entry_compatible D (libC E) meta (lookup_policy (pPolicies p) n) (or_empty (before meta) (bytes_of_string n))) \<and>
         (\<forall>k. k \<notin> bytes_of_string ` set (keys (pCounts p)) \<longrightarrow> r k = or_empty (before meta) k)) \<and>
      pEnvelope p \<noteq> [] \<and>
      entry_compatible D (libC E) config (pEnvelope p) (or_empty (before config) (bytes_of_string (ConfigKey D))) \<and>
      after config = Some ((or_empty (before config))(bytes_of_string (ConfigKey D) \<mapsto> (Some (pEnvelope p), 0))) \<and>
      (\<forall>n \<in> set (SystemNamespaces D). n \<noteq> meta \<longrightarrow> n \<noteq> config \<longrightarrow> after n = Some (or_empty (before n))) \<and>
      (\<forall>n. valid n \<longrightarrow> n \<notin> set (keys (pCounts p)) \<longrightarrow> rows_for n ts = [] \<longrightarrow> n \<notin> set (SystemNamespaces D) \<longrightarrow>
         after n = before n))"

definition expected_result :: "('o, 'db, 'tx) libs \<Rightarrow> plan \<Rightarrow> import_result" where
  "expected_result E p =
     \<lparr>Sources = source_results (pLoaded p), rMapping = pConfig p, TargetConfigEnvelope = pEnvelope p,
      RecordCount = sum_list (map (lookup_count (pCounts p)) (sortedKeys (pCounts p))),
      Namespaces = map (\<lambda>n. \<lparr>nrNamespace = n, nrRecordCount = lookup_count (pCounts p) n, nrPolicy = lookup_policy (pPolicies p) n\<rparr>)
        (sortedKeys (pCounts p))\<rparr>"

text \<open>
  The committer's rules about names: a valid namespace identifier is not empty and has a table of its own,
  and so have the system namespaces, which no target may be; two of them are the meta and the
  configuration namespace.
\<close>

locale import_env = sql_database "libD E" rows valid stored
  for E :: "('o, 'db, 'tx) libs" and rows :: "'tx \<Rightarrow> string \<Rightarrow> table option" and valid :: "string \<Rightarrow> bool"
    and stored :: "'db \<Rightarrow> string \<Rightarrow> table option" +
  assumes valid_target: "ValidateNamespaceID (libS E) n = Inr () \<Longrightarrow> valid n \<and> n \<noteq> []"
    and valid_system: "n \<in> set (SystemNamespaces (libD E)) \<Longrightarrow> valid n \<and> IsSystemNamespace (libS E) n"
    and system_config: "ConfigNamespaceID (libD E) \<in> set (SystemNamespaces (libD E))"
    and system_meta: "MetaNamespaceID (libD E) \<in> set (SystemNamespaces (libD E))"
    and config_meta: "ConfigNamespaceID (libD E) \<noteq> MetaNamespaceID (libD E)"

text \<open>A plan whose mappings passed validation and whose counts are those of its mappings.\<close>

definition plan_ok :: "('o, 'db, 'tx) libs \<Rightarrow> plan \<Rightarrow> bool" where
  "plan_ok E p \<longleftrightarrow>
     (\<forall>t \<in> targets (pConfig p). \<not> IsSystemNamespace (libS E) t \<and> ValidateNamespaceID (libS E) t = Inr ()) \<and>
     set (keys (pCounts p)) \<subseteq> targets (pConfig p) \<and> wf_map (pCounts p)"

lemma load_inputs_Inr:
  assumes "load_inputs S C f options = Inr (config, target, st)"
  shows "config_ok S config" "cChannel target = TargetNetwork config"
  using assms readMappings_sound(1) by (auto simp: load_inputs_def split: if_splits)

lemma prepare_import_parts:
  assumes "prepare_import E ctx ph options = Inr p"
  shows "\<exists>target target'. load_inputs (libS E) (libC E) (fs_load ph) options = Inr (pConfig p, target, pLoaded p) \<and>
    mappingCounts (pConfig p) (snapshots (pLoaded p)) = Inr (pCounts p) \<and>
    preparePolicies (libS E) (libC E) (libP E) (libQ E) (libB E) (iteration E) (fs_policies ph) (pConfig p)
      (snapshots (pLoaded p)) (sources (pLoaded p)) target = Inr (target', pPolicies p) \<and>
    encode (libC E) target' = Inr (pEnvelope p)"
  using assms by (auto simp: prepare_import_def)

lemma prepare_import_ok:
  assumes "prepare_import E ctx ph options = Inr p"
  shows "plan_ok E p"
proof -
  from prepare_import_parts [OF assms] obtain target where
    load: "load_inputs (libS E) (libC E) (fs_load ph) options = Inr (pConfig p, target, pLoaded p)"
    and counts: "mappingCounts (pConfig p) (snapshots (pLoaded p)) = Inr (pCounts p)" by blast
  from load_inputs_Inr(1) [OF load] mappingCounts_targets [OF counts] show ?thesis
    by (auto simp: plan_ok_def config_ok_def mapping_ok_def target_ok_def targets_def)
qed

context import_env
begin

lemma plan_targets:
  assumes "plan_ok E p" "n \<in> targets (pConfig p)"
  shows "valid n" "n \<noteq> []" "n \<notin> set (SystemNamespaces (libD E))"
    "n \<noteq> MetaNamespaceID (libD E)" "n \<noteq> ConfigNamespaceID (libD E)"
  using assms valid_target valid_system system_meta system_config unfolding plan_ok_def by blast+

text \<open>The transaction, step by step.\<close>

lemma import_tx_steps:
  assumes "import_tx E ctx ph p tx = Inr (result, tx')"
  obtains a tx1 tx2 tx3 tx4 n batch batch' count results where
    "Exec (libD E) (systemSQL (libD E)) [] tx = Inr (a, tx1)"
    "rfold (create_system (libD E)) (SystemNamespaces (libD E)) tx1 = Inr tx2"
    "ensureEntry (libD E) (libC E) (ConfigNamespaceID (libD E)) (ConfigKey (libD E)) (pEnvelope p) tx2 = Inr tx3"
    "rfold (create_namespace (libD E) (libC E) (pPolicies p)) (sortedKeys (pCounts p)) tx3 = Inr tx4"
    "walk (libS E) (fs_copy ph) (pConfig p) (snapshots (pLoaded p)) (copy_record (libD E) ctx)
       (pPolls p, \<lparr>sTx = tx4, sTarget = [], sKeys = [], sValues = []\<rparr>) = Inr (n, batch)"
    "flush (libD E) batch = Inr batch'"
    "rfold (verify_namespace (libD E) (pCounts p) (pPolicies p)) (sortedKeys (pCounts p)) (0, [], sTx batch') = Inr (count, results, tx')"
    "result = \<lparr>Sources = source_results (pLoaded p), rMapping = pConfig p, TargetConfigEnvelope = pEnvelope p,
       RecordCount = count, Namespaces = results\<rparr>"
    "revalidate_inputs (libS E) (fs_recheck ph) (inputs (pLoaded p)) (snapshots (pLoaded p)) = Inr ()"
  using assms by (auto simp: import_tx_def Let_def)

text \<open>Every batch goes to a namespace that gets rows, hence to a target namespace.\<close>

lemma batch_rows_for:
  assumes "concat (map batch_list bs) = ts" "\<forall>b \<in> set bs. small_batch b" "b \<in> set bs"
  shows "rows_for (fst b) ts \<noteq> []"
proof -
  obtain k v where "(k, v) \<in> set (snd b)"
    using assms(2,3) by (cases "snd b") (auto simp: small_batch_def)
  then have "(fst b, k, v) \<in> set (batch_list b)" by (force simp: batch_list_def)
  with assms(3) have "(fst b, k, v) \<in> set (concat (map batch_list bs))" by auto
  then have "(fst b, k, v) \<in> set ts" by (simp only: assms(1))
  then show ?thesis by (force simp: rows_for_def filter_empty_conv)
qed

lemma batch_targets:
  assumes "concat (map batch_list bs) = map row_of recs" "\<forall>b \<in> set bs. small_batch b" "b \<in> set bs"
    "\<forall>row \<in> set recs. fst row \<in> T"
  shows "fst b \<in> T"
  using batch_rows_for [OF assms(1-3)] assms(4) by (auto simp: rows_for_def row_of_def filter_empty_conv)

lemma import_tx_imported:
  assumes "import_tx E ctx ph p tx = Inr (result, tx')" "plan_ok E p"
  shows "\<exists>recs. selected (libS E) (fs_copy ph) (pConfig p) (snapshots (pLoaded p)) = Inr recs \<and>
    imported E valid p (map row_of recs) (rows tx) (rows tx') \<and> result = expected_result E p \<and>
    revalidate_inputs (libS E) (fs_recheck ph) (inputs (pLoaded p)) (snapshots (pLoaded p)) = Inr ()"
proof -
  let ?D = "libD E" and ?C = "libC E" and ?T = "targets (pConfig p)" and ?ns = "sortedKeys (pCounts p)"
  let ?meta = "MetaNamespaceID ?D" and ?config = "ConfigNamespaceID ?D" and ?sys = "SystemNamespaces ?D"
  from assms(1) obtain a tx1 tx2 tx3 tx4 n batch batch' count results where
    1: "Exec ?D (systemSQL ?D) [] tx = Inr (a, tx1)" and 2: "rfold (create_system ?D) ?sys tx1 = Inr tx2"
    and 3: "ensureEntry ?D ?C ?config (ConfigKey ?D) (pEnvelope p) tx2 = Inr tx3"
    and 4: "rfold (create_namespace ?D ?C (pPolicies p)) ?ns tx3 = Inr tx4"
    and 5: "walk (libS E) (fs_copy ph) (pConfig p) (snapshots (pLoaded p)) (copy_record ?D ctx)
       (pPolls p, \<lparr>sTx = tx4, sTarget = [], sKeys = [], sValues = []\<rparr>) = Inr (n, batch)"
    and 6: "flush ?D batch = Inr batch'"
    and 7: "rfold (verify_namespace ?D (pCounts p) (pPolicies p)) ?ns (0, [], sTx batch') = Inr (count, results, tx')"
    and result: "result = \<lparr>Sources = source_results (pLoaded p), rMapping = pConfig p, TargetConfigEnvelope = pEnvelope p,
       RecordCount = count, Namespaces = results\<rparr>"
    and recheck: "revalidate_inputs (libS E) (fs_recheck ph) (inputs (pLoaded p)) (snapshots (pLoaded p)) = Inr ()"
    by (rule import_tx_steps)
  have wf: "wf_map (pCounts p)" and keys: "set ?ns \<subseteq> ?T" using assms(2) by (simp_all add: plan_ok_def)
  note target = plan_targets [OF assms(2)]
  have sys: "valid m" if "m \<in> set ?sys" for m using valid_system that by blast
  note valid_sys = sys [OF system_meta] sys [OF system_config]
  have rows2: "rows tx2 m = (if m \<in> set ?sys then Some (or_empty (rows tx m)) else rows tx m)" if "valid m" for m
    using create_system_loop [OF 2 _ that] sys system_tables [OF that 1] by simp
  from ensureEntry_effect [OF 3 valid_sys(2)] rows2 [OF valid_sys(2)] system_config
  have env: "pEnvelope p \<noteq> []" "entry_compatible ?D ?C ?config (pEnvelope p) (or_empty (rows tx ?config) (bytes_of_string (ConfigKey ?D)))"
    and upd: "becomes rows valid tx2 tx3 ?config (Some ((or_empty (rows tx ?config))(bytes_of_string (ConfigKey ?D) \<mapsto> (Some (pEnvelope p), 0))))"
    by auto
  have rows3: "rows tx3 m = (if m = ?config then Some ((or_empty (rows tx ?config))(bytes_of_string (ConfigKey ?D) \<mapsto> (Some (pEnvelope p), 0)))
      else rows tx2 m)" if "valid m" for m
    using upd that by (simp add: becomes_def)
  have meta3: "rows tx3 ?meta = Some (or_empty (rows tx ?meta))"
    using rows3 [OF valid_sys(1)] rows2 [OF valid_sys(1)] config_meta system_meta by simp
  have "\<forall>n \<in> set ?ns. valid n \<and> n \<noteq> ?meta" using target(1,4) keys by blast
  note ns4 = create_namespaces_loop [OF 4 distinct_sortedKeys [OF wf] this valid_sys(1) meta3]
  from 5 obtain recs where recs: "selected (libS E) (fs_copy ph) (pConfig p) (snapshots (pLoaded p)) = Inr recs"
    and copy: "rfold (uncurried (copy_record ?D ctx)) recs (pPolls p, \<lparr>sTx = tx4, sTarget = [], sKeys = [], sValues = []\<rparr>) = Inr (n, batch)"
    unfolding walk_selected by blast
  have in_T: "\<forall>row \<in> set recs. fst row \<in> ?T" using selected_targets [OF recs] by blast
  have "\<forall>row \<in> set recs. fst row \<noteq> []" using in_T target(2) by blast
  from copy_batches [OF copy 6 this] obtain bs where bs: "rfold (insert_rows ?D) bs tx4 = Inr (sTx batch')"
    "concat (map batch_list bs) = map row_of recs" "\<forall>b \<in> set bs. small_batch b" by blast
  have b_T: "fst b \<in> ?T" if "b \<in> set bs" for b by (rule batch_targets [OF bs(2,3) that in_T])
  have b_valid: "\<forall>b \<in> set bs. valid (fst b)" using b_T target(1) by blast
  note verified = verify_loop [OF 7]
  have "\<forall>n \<in> set ?ns. valid n" using keys target(1) by blast
  note verified = verified [OF this]
  have last: "rows tx' m = rows (sTx batch') m" if "valid m" for m using verified that by blast
  have frame5: "rows tx' m = rows tx4 m" if "valid m" "rows_for m (map row_of recs) = []" for m
  proof -
    have "\<forall>b \<in> set bs. valid (fst b) \<and> fst b \<noteq> m" using b_valid batch_rows_for [OF bs(2,3)] that(2) by metis
    from insert_all_frame [OF bs(1) this that(1)] last [OF that(1)] show ?thesis by simp
  qed
  have sys_T: "m \<notin> ?T" if "m \<in> set ?sys" for m using target(3) that by blast
  have no_rows: "rows_for m (map row_of recs) = []" if "m \<notin> ?T" for m
    using in_T that by (auto simp: rows_for_def row_of_def filter_empty_conv)
  note sys_rows = no_rows [OF sys_T]
  have filled: "or_empty (rows tx m) = Map.empty \<and> rows tx' m = Some (row_table (rows_for m (map row_of recs))) \<and>
      distinct (map fst (rows_for m (map row_of recs))) \<and>
      length (rows_for m (map row_of recs)) = unat (lookup_count (pCounts p) m)" if m: "m \<in> set ?ns" for m
  proof -
    have T: "m \<in> ?T" using m keys by blast
    have "rows tx3 m = rows tx m"
      using rows3 [OF target(1) [OF T]] rows2 [OF target(1) [OF T]] target(3,5) [OF T] by simp
    with ns4 m have empty: "or_empty (rows tx m) = Map.empty" "rows tx4 m = Some Map.empty" by auto
    from insert_all_effect [OF bs(1) b_valid target(1) [OF T] empty(2)]
    have ins: "distinct (map fst (rows_for m (map row_of recs)))"
      "rows (sTx batch') m = Some (row_table (rows_for m (map row_of recs)))" by (simp_all add: bs(2))
    moreover have "card (dom (row_table (rows_for m (map row_of recs)))) = unat (lookup_count (pCounts p) m)"
      using verified m ins(2) by fastforce
    moreover have "card (fst ` set (rows_for m (map row_of recs))) = length (rows_for m (map row_of recs))"
      using distinct_card [OF ins(1)] by simp
    ultimately show ?thesis using empty(1) last [OF target(1) [OF T]] by simp
  qed
  have meta5: "rows tx' ?meta = rows tx4 ?meta" by (rule frame5 [OF valid_sys(1) sys_rows [OF system_meta]])
  have "?config \<notin> set ?ns" using sys_T [OF system_config] keys by blast
  then have "rows tx4 ?config = rows tx3 ?config" using ns4 valid_sys(2) config_meta by blast
  then have config5: "rows tx' ?config = Some ((or_empty (rows tx ?config))(bytes_of_string (ConfigKey ?D) \<mapsto> (Some (pEnvelope p), 0)))"
    using frame5 [OF valid_sys(2) sys_rows [OF system_config]] rows3 [OF valid_sys(2)] by simp
  have frame: "rows tx' m = (if m \<in> set ?sys then Some (or_empty (rows tx m)) else rows tx m)"
    if "valid m" "m \<notin> set ?ns" "rows_for m (map row_of recs) = []" "m \<noteq> ?meta" "m \<noteq> ?config" for m
  proof -
    have "rows tx4 m = rows tx3 m" using ns4 that by blast
    with frame5 [OF that(1,3)] rows3 [OF that(1)] rows2 [OF that(1)] that(5) show ?thesis by simp
  qed
  note created = ns4 [THEN conjunct1, unfolded set_sortedKeys]
  from ns4 [THEN conjunct2, THEN conjunct1, unfolded set_sortedKeys] obtain r where r: "rows tx4 ?meta = Some r \<and>
      (\<forall>n \<in> set (keys (pCounts p)). r (bytes_of_string n) = Some (Some (lookup_policy (pPolicies p) n), 0)) \<and>
      (\<forall>k. k \<notin> bytes_of_string ` set (keys (pCounts p)) \<longrightarrow> r k = or_empty (rows tx ?meta) k)" by (rule exE)
  have done_: "imported E valid p (map row_of recs) (rows tx) (rows tx')"
    unfolding imported_def Let_def
  proof (intro conjI)
    show "\<forall>n \<in> set (keys (pCounts p)). or_empty (rows tx n) = Map.empty \<and> rows tx' n = Some (row_table (rows_for n (map row_of recs))) \<and>
        distinct (map fst (rows_for n (map row_of recs))) \<and> length (rows_for n (map row_of recs)) = unat (lookup_count (pCounts p) n)"
      using filled by simp
    show "\<exists>r. rows tx' ?meta = Some r \<and>
        (\<forall>n \<in> set (keys (pCounts p)). lookup_policy (pPolicies p) n \<noteq> [] \<and>
           r (bytes_of_string n) = Some (Some (lookup_policy (pPolicies p) n), 0) \<and>
           entry_compatible ?D ?C ?meta (lookup_policy (pPolicies p) n) (or_empty (rows tx ?meta) (bytes_of_string n))) \<and>
        (\<forall>k. k \<notin> bytes_of_string ` set (keys (pCounts p)) \<longrightarrow> r k = or_empty (rows tx ?meta) k)"
      unfolding meta5 using r created by (intro exI [of _ r]) simp
    show "\<forall>n \<in> set ?sys. n \<noteq> ?meta \<longrightarrow> n \<noteq> ?config \<longrightarrow> rows tx' n = Some (or_empty (rows tx n))"
    proof (intro ballI impI)
      fix n assume n: "n \<in> set ?sys" "n \<noteq> ?meta" "n \<noteq> ?config"
      then have "n \<notin> set ?ns" using sys_T keys by blast
      from frame [OF sys [OF n(1)] this sys_rows [OF n(1)] n(2,3)] n(1) show "rows tx' n = Some (or_empty (rows tx n))" by simp
    qed
    show "\<forall>n. valid n \<longrightarrow> n \<notin> set (keys (pCounts p)) \<longrightarrow> rows_for n (map row_of recs) = [] \<longrightarrow> n \<notin> set ?sys \<longrightarrow> rows tx' n = rows tx n"
    proof (intro allI impI)
      fix n assume n: "valid n" "n \<notin> set (keys (pCounts p))" "rows_for n (map row_of recs) = []" "n \<notin> set ?sys"
      then have "n \<noteq> ?meta" "n \<noteq> ?config" using system_meta system_config by blast+
      with frame [OF n(1) _ n(3)] n(2,4) show "rows tx' n = rows tx n" by simp
    qed
  qed (use env config5 in simp_all)
  have "result = expected_result E p"
    using verified [THEN conjunct2, THEN conjunct2] by (simp add: result expected_result_def)
  then show ?thesis by (intro exI [of _ recs] conjI recs done_ recheck)
qed

end

subsection \<open>What an import leaves behind\<close>

lemma Import_Inr:
  assumes "Import E ctx ph options (Some db) = (Inr result, pool)"
  obtains p tx tx' db1 where "prepare_import E ctx ph options = Inr p" "BeginTx (libD E) db = Inr tx"
    "import_tx E ctx ph p tx = Inr (result, tx')" "Commit (libD E) tx' db = (Inr (), db1)"
    "pool = Some (Rollback (libD E) tx' db1)"
  using assms by (auto simp: Import_def rbind_Inl split: sum.splits prod.splits)

lemma imported_cong:
  assumes "imported E valid p ts before after" "plan_ok E p"
    "\<And>n. valid n \<Longrightarrow> before' n = before n" "\<And>n. valid n \<Longrightarrow> after' n = after n"
    "\<And>n. n \<in> targets (pConfig p) \<Longrightarrow> valid n" "valid (MetaNamespaceID (libD E))" "valid (ConfigNamespaceID (libD E))"
    "\<And>n. n \<in> set (SystemNamespaces (libD E)) \<Longrightarrow> valid n"
  shows "imported E valid p ts before' after'"
proof -
  have "\<And>n. n \<in> set (keys (pCounts p)) \<Longrightarrow> valid n" using assms(2,5) unfolding plan_ok_def by blast
  then show ?thesis using assms(1,3,4,6-8) unfolding imported_def Let_def by simp
qed

context import_env
begin

lemma import_complete:
  assumes "Import E ctx ph options (Some db) = (Inr result, Some db')"
  shows "\<exists>p recs. prepare_import E ctx ph options = Inr p \<and>
    selected (libS E) (fs_copy ph) (pConfig p) (snapshots (pLoaded p)) = Inr recs \<and>
    imported E valid p (map row_of recs) (stored db) (stored db') \<and> result = expected_result E p \<and>
    revalidate_inputs (libS E) (fs_recheck ph) (inputs (pLoaded p)) (snapshots (pLoaded p)) = Inr ()"
proof -
  from assms obtain p tx tx' db1 where p: "prepare_import E ctx ph options = Inr p"
    and tx: "BeginTx (libD E) db = Inr tx" "import_tx E ctx ph p tx = Inr (result, tx')"
      "Commit (libD E) tx' db = (Inr (), db1)" "db' = Rollback (libD E) tx' db1"
    by (rule Import_Inr) auto
  note ok = prepare_import_ok [OF p]
  from import_tx_imported [OF tx(2) ok] obtain recs where
    recs: "selected (libS E) (fs_copy ph) (pConfig p) (snapshots (pLoaded p)) = Inr recs"
    and done_: "imported E valid p (map row_of recs) (rows tx) (rows tx')" "result = expected_result E p"
      "revalidate_inputs (libS E) (fs_recheck ph) (inputs (pLoaded p)) (snapshots (pLoaded p)) = Inr ()" by blast
  have "stored db n = rows tx n" "stored db' n = rows tx' n" if "valid n" for n
    using begin_tx [OF tx(1) that] rollback [OF that] commit [OF tx(3) that] tx(4) by simp_all
  from imported_cong [OF done_(1) ok this plan_targets(1) [OF ok]] valid_system system_meta system_config
  have "imported E valid p (map row_of recs) (stored db) (stored db')" by blast
  with p recs done_ show ?thesis by blast
qed

lemma import_atomic:
  assumes "Import E ctx ph options (Some db) = (Inl e, Some db')"
  shows "(\<forall>n. valid n \<longrightarrow> stored db' n = stored db n) \<or>
    (\<exists>p recs e'. e = Wrap [''commit target import''] e' \<and> prepare_import E ctx ph options = Inr p \<and>
       selected (libS E) (fs_copy ph) (pConfig p) (snapshots (pLoaded p)) = Inr recs \<and>
       imported E valid p (map row_of recs) (stored db) (stored db'))"
proof (cases "\<exists>p tx result tx'. prepare_import E ctx ph options = Inr p \<and> check_database (libD E) db = Inr () \<and>
    BeginTx (libD E) db = Inr tx \<and> import_tx E ctx ph p tx = Inr (result, tx')")
  case False
  with assms have "db' = db \<or> (\<exists>tx. db' = Rollback (libD E) tx db)"
    by (auto simp: Import_def split: sum.splits prod.splits option.splits)
  then show ?thesis using rollback by auto
next
  case True
  then obtain p tx result tx' where p: "prepare_import E ctx ph options = Inr p" "check_database (libD E) db = Inr ()"
    "BeginTx (libD E) db = Inr tx" "import_tx E ctx ph p tx = Inr (result, tx')" by blast
  obtain committed db1 where c: "Commit (libD E) tx' db = (committed, db1)" by fastforce
  with p assms obtain e' where e': "committed = Inl e'" "e = Wrap [''commit target import''] e'" "db' = Rollback (libD E) tx' db1"
    by (cases committed) (auto simp: Import_def)
  note ok = prepare_import_ok [OF p(1)]
  from commit_failed [OF c [unfolded e'(1)]] show ?thesis
  proof
    assume "\<forall>n. valid n \<longrightarrow> stored db1 n = stored db n"
    then show ?thesis using rollback e'(3) by simp
  next
    assume all: "\<forall>n. valid n \<longrightarrow> stored db1 n = rows tx' n"
    from import_tx_imported [OF p(4) ok] obtain recs where
      recs: "selected (libS E) (fs_copy ph) (pConfig p) (snapshots (pLoaded p)) = Inr recs"
      and done_: "imported E valid p (map row_of recs) (rows tx) (rows tx')" by blast
    have "stored db n = rows tx n" "stored db' n = rows tx' n" if "valid n" for n
      using begin_tx [OF p(3) that] rollback [OF that] all that e'(3) by simp_all
    from imported_cong [OF done_ ok this plan_targets(1) [OF ok]] valid_system system_meta system_config
    have "imported E valid p (map row_of recs) (stored db) (stored db')" by blast
    with p(1) recs e'(2) show ?thesis by blast
  qed
qed

end

subsection \<open>The digests determine the records\<close>

text \<open>No two of the files read in two runs collide: with the same digest they have the same contents.\<close>

definition no_collision :: "'l lib_scheme \<Rightarrow> fs \<Rightarrow> fs \<Rightarrow> bool" where
  "no_collision L f f' \<longleftrightarrow>
     (\<forall>p a b. openRegular f p = Inr a \<longrightarrow> openRegular f' p = Inr b \<longrightarrow>
        Sum256 L (contents a) = Sum256 L (contents b) \<longrightarrow> contents a = contents b)"

lemma no_collisionD:
  assumes "no_collision L f f'" "openRegular f p = Inr a" "openRegular f' p = Inr b" "hash L (contents a) = hash L (contents b)"
  shows "contents a = contents b"
  using assms unfolding no_collision_def hash_def hex_EncodeToString_inject by blast

lemma readNamespaces_same:
  assumes "no_collision L f f'" "readNamespaces L f s pfx = Inr a" "readNamespaces L f' s pfx = Inr b"
  shows "b = a"
proof -
  from assms(2) obtain x where x: "openRegular f (filepath_Join (Directory s) (pfx @ ''.metadata'')) = Inr x"
    "hash L (contents x) = lookup_string (fileHashes s) (pfx @ ''.metadata'')" "decodeNamespaces (pfx @ ''.metadata'') (contents x) = Inr a"
    by (auto simp: readNamespaces_Inr readRegular_Inr)
  from assms(3) obtain y where y: "openRegular f' (filepath_Join (Directory s) (pfx @ ''.metadata'')) = Inr y"
    "hash L (contents y) = lookup_string (fileHashes s) (pfx @ ''.metadata'')" "decodeNamespaces (pfx @ ''.metadata'') (contents y) = Inr b"
    by (auto simp: readNamespaces_Inr readRegular_Inr)
  from no_collisionD [OF assms(1) x(1) y(1)] x(2,3) y(2,3) show ?thesis by simp
qed

lemma snapshot_records_same:
  assumes "no_collision L f f'" "snapshot_records L f s pfx = Inr a" "snapshot_records L f' s pfx = Inr b"
  shows "b = a"
proof -
  from assms(2) obtain nss x body r where x: "readNamespaces L f s pfx = Inr nss"
    "openRegular f (filepath_Join (Directory s) (pfx @ ''.data'')) = Inr x" "contents x = formatVersion # body"
    "parse_namespaces s pfx nss (file_reader x body) = Inr (a, r)" "walk_end L s (pfx @ ''.data'') (contents x) r = Inr ()"
    unfolding snapshot_records_parse by blast
  from assms(3) obtain nss' y body' r' where y: "readNamespaces L f' s pfx = Inr nss'"
    "openRegular f' (filepath_Join (Directory s) (pfx @ ''.data'')) = Inr y" "contents y = formatVersion # body'"
    "parse_namespaces s pfx nss' (file_reader y body') = Inr (b, r')" "walk_end L s (pfx @ ''.data'') (contents y) r' = Inr ()"
    unfolding snapshot_records_parse by blast
  have "hash L (contents x) = hash L (contents y)" using x(5) y(5) by (simp add: walk_end_Inr)
  from no_collisionD [OF assms(1) x(2) y(2) this] x(3) y(3) have "remaining (file_reader y body') = remaining (file_reader x body)"
    by (simp add: file_reader_def)
  from parse_namespaces_bytes_only [OF x(4) this] y(4) readNamespaces_same [OF assms(1) x(1) y(1)] show ?thesis by auto
qed

lemma selected_channel_same:
  assumes "no_collision S f f'" "selected_channel S f config snaps channel = Inr a" "selected_channel S f' config snaps channel = Inr b"
  shows "b = a"
proof -
  let ?s = "the (map_of snaps channel)"
  from assms(2) obtain pub a1 priv a2 where x: "snapshot_records S f ?s ''public_state'' = Inr pub"
    "gather (pick_public config channel) pub = Inr a1" "private_records S f ?s = Inr priv"
    "gather (pick_private config channel) priv = Inr a2" "a = a1 @ a2"
    by (auto simp: selected_channel_def Let_def)
  from assms(3) obtain pub' b1 priv' b2 where y: "snapshot_records S f' ?s ''public_state'' = Inr pub'"
    "gather (pick_public config channel) pub' = Inr b1" "private_records S f' ?s = Inr priv'"
    "gather (pick_private config channel) priv' = Inr b2" "b = b1 @ b2"
    by (auto simp: selected_channel_def Let_def)
  have "pub' = pub" by (rule snapshot_records_same [OF assms(1) x(1) y(1)])
  moreover have "priv' = priv"
    using x(3) y(3) snapshot_records_same [OF assms(1)] by (auto simp: private_records_def split: if_splits)
  ultimately show ?thesis using x y by simp
qed

lemma selected_same:
  assumes "no_collision S f f'" "selected S f config snaps = Inr a" "selected S f' config snaps = Inr b"
  shows "b = a"
proof -
  have "gather (selected_channel S f config snaps) xs = Inr a \<Longrightarrow> gather (selected_channel S f' config snaps) xs = Inr b \<Longrightarrow> b = a" for xs a b
  proof (induction xs arbitrary: a b)
    case (Cons x xs)
    from Cons.prems obtain a1 a2 b1 b2 where "selected_channel S f config snaps x = Inr a1" "gather (selected_channel S f config snaps) xs = Inr a2"
      "selected_channel S f' config snaps x = Inr b1" "gather (selected_channel S f' config snaps) xs = Inr b2"
      "a = a1 @ a2" "b = b1 @ b2" by auto
    with Cons.IH selected_channel_same [OF assms(1)] show ?case by metis
  qed simp
  with assms(2,3) show ?thesis unfolding selected_def by blast
qed

end
