(* ===== verification/ImportAgree.thy ===== *)
theory ImportAgree
  imports ImportEffect PrepareProps
begin

text \<open>
  Runs of the importer by independent operators: with the same inputs, but Go's map orders and the moment
  at which the snapshot files are read different, they prepare the same plan up to the order in which the
  map of policies was filled.
\<close>

lemma readChaincodePolicies_same:
  assumes "no_collision S f f'" "readChaincodePolicies S Q f s config = Inr defs" "readChaincodePolicies S Q f' s config = Inr defs'"
  shows "defs' = defs"
proof -
  let ?y = "collect_fields (ChannelName (Metadata s)) (Mappings config)"
  from assms(2) obtain flds where flds: "walkRecords S f s ''public_state'' (Some ?y) [] = Inr flds"
    "rfold (add_definition Q (ChannelName (Metadata s)) flds) (Mappings config) [] = Inr defs"
    by (auto simp: readChaincodePolicies_def WalkPublicRecords_def Let_def)
  from assms(3) obtain flds' where flds': "walkRecords S f' s ''public_state'' (Some ?y) [] = Inr flds'"
    "rfold (add_definition Q (ChannelName (Metadata s)) flds') (Mappings config) [] = Inr defs'"
    by (auto simp: readChaincodePolicies_def WalkPublicRecords_def Let_def)
  from flds(1) obtain recs where recs: "snapshot_records S f s ''public_state'' = Inr recs" "rfold ?y recs [] = Inr flds"
    unfolding walkRecords_iff [of S f] call_yield_Some by blast
  from flds'(1) obtain recs' where recs': "snapshot_records S f' s ''public_state'' = Inr recs'" "rfold ?y recs' [] = Inr flds'"
    unfolding walkRecords_iff [of S f'] call_yield_Some by blast
  have "recs' = recs" by (rule snapshot_records_same [OF assms(1) recs(1) recs'(1)])
  with recs(2) recs'(2) flds(2) flds'(2) show ?thesis by simp
qed

lemma channel_requests_agree:
  assumes "channel_request S P Q B rng f config snaps srcs tb channel = Inr a"
    "channel_request S P Q B rng' f' config snaps srcs tb channel = Inr b"
    "no_collision S f f'" "some_order rng" "some_order rng'" "unique_source_msps B snaps srcs" "channel \<in> set (keys snaps)"
  shows "set b = set a"
proof -
  let ?s = "the (map_of snaps channel)"
  from assms(1) obtain src defs where 1: "bundle_of B (the (map_of srcs channel)) = Inr src"
    "MSPVersion src \<le> MSPVersion tb" "readChaincodePolicies S Q f ?s config = Inr defs"
    "gather (definition_request P B rng src config channel ?s) (range_definitions rng channel defs) = Inr a"
    unfolding channel_request_Inr by blast
  from assms(2) obtain src' defs' where 2: "bundle_of B (the (map_of srcs channel)) = Inr src'"
    "readChaincodePolicies S Q f' ?s config = Inr defs'"
    "gather (definition_request P B rng' src' config channel ?s) (range_definitions rng' channel defs') = Inr b"
    unfolding channel_request_Inr by blast
  have same: "src' = src" "defs' = defs"
    using 1(1) 2(1) readChaincodePolicies_same [OF assms(3) 1(3) 2(2)] by simp_all
  have "channel_request S P Q B rng' f config snaps srcs tb channel = Inr b"
    unfolding channel_request_Inr using 1(1-3) 2(3) same by blast
  with channel_request_order [OF assms(1,4-7)] show ?thesis by auto
qed

lemma preparePolicies_agree:
  assumes "preparePolicies S C P Q B rng f config snaps srcs target = Inr (target1, ps)"
    "preparePolicies S C P Q B rng' f' config snaps srcs target = Inr (target2, ps')"
    "no_collision S f f'" "some_order rng" "some_order rng'" "unique_source_msps B snaps srcs" "wf_map (group_subs (application target))"
  shows "target2 = target1 \<and> map_of ps' = map_of ps"
proof -
  from assms(1) obtain tb kvs where 1: "reuseMSPs C (range_groups rng) target srcs = Inr target1" "bundle_of B target1 = Inr tb"
    "all_requests S P Q B rng f config snaps srcs tb = Inr kvs" "single_valued (set kvs)" "ps = settle kvs []"
    unfolding preparePolicies_Inr by blast
  from assms(2) obtain tb' kvs' where 2: "reuseMSPs C (range_groups rng') target srcs = Inr target2" "bundle_of B target2 = Inr tb'"
    "all_requests S P Q B rng' f' config snaps srcs tb' = Inr kvs'" "ps' = settle kvs' []"
    unfolding preparePolicies_Inr by blast
  have "reuseMSPs C (range_groups rng') target srcs = Inr target1"
    by (rule reuseMSPs_order [OF 1(1) assms(7) some_order_sel(1) [OF assms(4)] some_order_sel(1) [OF assms(5)]])
  then have same: "target2 = target1" "tb' = tb" using 1(2) 2(1,2) by simp_all
  have "set kvs' = set kvs"
    by (rule gather_agree [OF 1(3) [unfolded all_requests_def] 2(3) [unfolded all_requests_def same]])
      (rule channel_requests_agree [OF _ _ assms(3-6)], assumption+, simp)
  from settle_same_set [OF 1(4) this] show ?thesis by (simp add: same 1(5) 2(4))
qed

text \<open>
  What the loaded inputs must satisfy: the organizations of the target are a map, as in every decoded
  protobuf message, and no two organizations of a source channel share an MSP ID.
\<close>

definition regular_inputs :: "('o, 'l) bundle_lib_scheme \<Rightarrow> (mapping_config \<times> channel_config \<times> loaded) res \<Rightarrow> bool" where
  "regular_inputs B loaded \<longleftrightarrow> (case loaded of
     Inl _ \<Rightarrow> True
   | Inr (config, target, l) \<Rightarrow> wf_map (group_subs (application target)) \<and> unique_source_msps B (snapshots l) (sources l))"

text \<open>Two plans that differ at most in the order of the policy map and the polls of the context.\<close>

definition same_plan :: "plan \<Rightarrow> plan \<Rightarrow> bool" where
  "same_plan p p' \<longleftrightarrow> pConfig p' = pConfig p \<and> pLoaded p' = pLoaded p \<and> pCounts p' = pCounts p \<and>
     map_of (pPolicies p') = map_of (pPolicies p) \<and> pEnvelope p' = pEnvelope p"

lemma plans_agree:
  assumes "prepare_import E ctx ph options = Inr p" "prepare_import (E\<lparr>iteration := rng\<rparr>) ctx' ph' options' = Inr p'"
    "load_inputs (libS E) (libC E) (fs_load ph') options' = load_inputs (libS E) (libC E) (fs_load ph) options"
    "no_collision (libS E) (fs_policies ph) (fs_policies ph')" "some_order (iteration E)" "some_order rng"
    "regular_inputs (libB E) (load_inputs (libS E) (libC E) (fs_load ph) options)"
  shows "same_plan p p'"
proof -
  from prepare_import_parts [OF assms(1)] obtain target target1 where
    1: "load_inputs (libS E) (libC E) (fs_load ph) options = Inr (pConfig p, target, pLoaded p)"
      "mappingCounts (pConfig p) (snapshots (pLoaded p)) = Inr (pCounts p)"
      "preparePolicies (libS E) (libC E) (libP E) (libQ E) (libB E) (iteration E) (fs_policies ph) (pConfig p)
        (snapshots (pLoaded p)) (sources (pLoaded p)) target = Inr (target1, pPolicies p)"
      "encode (libC E) target1 = Inr (pEnvelope p)" by blast
  from prepare_import_parts [OF assms(2)] obtain target' target2 where
    2: "load_inputs (libS E) (libC E) (fs_load ph') options' = Inr (pConfig p', target', pLoaded p')"
      "mappingCounts (pConfig p') (snapshots (pLoaded p')) = Inr (pCounts p')"
      "preparePolicies (libS E) (libC E) (libP E) (libQ E) (libB E) rng (fs_policies ph') (pConfig p')
        (snapshots (pLoaded p')) (sources (pLoaded p')) target' = Inr (target2, pPolicies p')"
      "encode (libC E) target2 = Inr (pEnvelope p')" by auto
  have same: "pConfig p' = pConfig p" "target' = target" "pLoaded p' = pLoaded p" using 1(1) 2(1) assms(3) by simp_all
  have "wf_map (group_subs (application target))" "unique_source_msps (libB E) (snapshots (pLoaded p)) (sources (pLoaded p))"
    using assms(7) unfolding regular_inputs_def 1(1) by simp_all
  from preparePolicies_agree [OF 1(3) 2(3) [unfolded same] assms(4-6) this(2,1)]
  have "target2 = target1" "map_of (pPolicies p') = map_of (pPolicies p)" by simp_all
  with same 1(2,4) 2(2,4) show ?thesis by (simp add: same_plan_def)
qed

lemma same_plan_result: "same_plan p p' \<Longrightarrow> expected_result E p' = expected_result E' p"
  by (simp add: same_plan_def expected_result_def lookup_policy_def)

lemma same_plan_imported:
  "same_plan p p' \<Longrightarrow> imported (E\<lparr>iteration := rng\<rparr>) valid p' ts before after \<longleftrightarrow> imported E valid p ts before after"
  by (simp add: same_plan_def imported_def lookup_policy_def Let_def)

lemma import_env_iteration: "import_env (E\<lparr>iteration := rng\<rparr>) rows valid stored \<longleftrightarrow> import_env E rows valid stored"
  by (simp add: import_env_def import_env_axioms_def)

end
