(* ===== verification/ReferenceDB.thy ===== *)
theory ReferenceDB
  imports Database
begin

text \<open>
  An engine that keeps every table as an association list and recognises the statements of the importer
  by their text. It interprets the locales of theory Database, so their laws can hold together, and it
  runs the examples.
\<close>

type_synonym ref_rows = "(bytes, bytes option \<times> int) gomap"
type_synonym ref_state = "(string, ref_rows) gomap"

definition ref_quote :: "string list \<Rightarrow> string" where
  "ref_quote ids = CHR 0x22 # concat (map (\<lambda>c. if c = CHR 0x22 then [c, c] else [c]) (concat ids)) @ [CHR 0x22]"

definition create_prefix :: string where
  "create_prefix = ''CREATE TABLE IF NOT EXISTS ''"

definition ref_table :: "string \<Rightarrow> string" where
  "ref_table n = ref_quote [''ns_'' @ n]"

definition on_table :: "ref_state \<Rightarrow> (string \<Rightarrow> string) \<Rightarrow> string \<Rightarrow> string option" where
  "on_table st statement q = find (\<lambda>t. statement t = q) (keys st)"

definition ref_insert_entry :: "string \<Rightarrow> sql_arg list \<Rightarrow> ref_state \<Rightarrow> (int \<times> ref_state) res" where
  "ref_insert_entry t args st =
     (case args of
        [Bytea k, Bytea v] \<Rightarrow>
          (let r = the (map_of st t) in
           if has_key r k then Inr (0, st) else Inr (1, AList.update t ((k, (Some v, 0)) # r) st))
      | _ \<Rightarrow> Inl (Ext ''arguments''))"

definition ref_update_entry :: "string \<Rightarrow> sql_arg list \<Rightarrow> ref_state \<Rightarrow> (int \<times> ref_state) res" where
  "ref_update_entry t args st =
     (case args of
        [Bytea k, Bytea v] \<Rightarrow>
          (let r = the (map_of st t) in
           case map_of r k of
             None \<Rightarrow> Inr (0, st)
           | Some (_, version) \<Rightarrow> Inr (1, AList.update t ((k, (Some v, version)) # r) st))
      | _ \<Rightarrow> Inl (Ext ''arguments''))"

definition ref_insert_batch :: "string \<Rightarrow> sql_arg list \<Rightarrow> ref_state \<Rightarrow> (int \<times> ref_state) res" where
  "ref_insert_batch t args st =
     (case args of
        [ByteaArray ks, ByteaArray vs] \<Rightarrow>
          (let r = the (map_of st t) in
           if distinct ks \<and> list_all (\<lambda>k. \<not> has_key r k) ks
           then Inr (int (length ks), AList.update t (zip ks (map (\<lambda>v. (Some v, 0)) vs) @ r) st)
           else Inl (Ext ''duplicate key value violates unique constraint''))
      | _ \<Rightarrow> Inl (Ext ''arguments''))"

definition ref_exec :: "string \<Rightarrow> sql_arg list \<Rightarrow> ref_state \<Rightarrow> (int \<times> ref_state) res" where
  "ref_exec q args st =
     (if q = ''system'' then Inr (0, st)
      else if HasPrefix q create_prefix then
        (let t = drop (length create_prefix) q in Inr (0, if has_key st t then st else AList.update t [] st))
      else case on_table st sql_insert_entry q of
        Some t \<Rightarrow> ref_insert_entry t args st
      | None \<Rightarrow>
          (case on_table st sql_update_entry q of
             Some t \<Rightarrow> ref_update_entry t args st
           | None \<Rightarrow>
               (case on_table st sql_insert_batch q of
                  Some t \<Rightarrow> ref_insert_batch t args st
                | None \<Rightarrow> Inl (Ext ''no such statement''))))"

definition ref_query :: "string \<Rightarrow> sql_arg list \<Rightarrow> ref_state \<Rightarrow> (sql_value list \<times> ref_state) res" where
  "ref_query q args st =
     (case on_table st sql_select_entry q of
        Some t \<Rightarrow>
          (case args of
             [Bytea k] \<Rightarrow>
               (case map_of (the (map_of st t)) k of
                  None \<Rightarrow> Inl (Ext ''no rows in result set'')
                | Some (v, version) \<Rightarrow> Inr ([VBytea v, VInt version], st))
           | _ \<Rightarrow> Inl (Ext ''arguments''))
      | None \<Rightarrow>
          (case on_table st sql_has_rows q of
             Some t \<Rightarrow> Inr ([VBool (the (map_of st t) \<noteq> [])], st)
           | None \<Rightarrow>
               (case on_table st sql_count q of
                  Some t \<Rightarrow>
                    (let r = the (map_of st t); ks = remdups (keys r) in
                     Inr ([VInt (int (length ks)), VInt (int (length (filter (\<lambda>k. snd (the (map_of r k)) \<noteq> 0) ks)))], st))
                | None \<Rightarrow> Inl (Ext ''no such statement''))))"

definition ref_db :: "(ref_state, ref_state) db_lib" where
  "ref_db = \<lparr>PoolQueryRow = (\<lambda>q db. Inr [VText (Some ''PostgreSQL 16'')]), BeginTx = Inr, Exec = ref_exec, QueryRow = ref_query,
     Commit = (\<lambda>tx db. (Inr (), tx)), Rollback = (\<lambda>tx db. db), systemSQL = ''system'',
     MakeNsTablesQuery = (\<lambda>n. create_prefix @ ref_table n), TableName = (\<lambda>n. ''ns_'' @ n), Sanitize = ref_quote,
     SystemNamespaces = [''_meta'', ''_config''], ConfigNamespaceID = ''_config'', MetaNamespaceID = ''_meta'',
     ConfigKey = ''_config''\<rparr>"

definition ref_tables :: "ref_state \<Rightarrow> string \<Rightarrow> table option" where
  "ref_tables st n = map_option map_of (map_of st (ref_table n))"

definition ref_valid :: "string \<Rightarrow> bool" where
  "ref_valid n \<longleftrightarrow> n \<noteq> [] \<and> CHR 0x22 \<notin> set n"

subsection \<open>The laws\<close>

lemma ref_quote_plain: "CHR 0x22 \<notin> set s \<Longrightarrow> ref_quote [s] = CHR 0x22 # s @ [CHR 0x22]"
proof -
  have "concat (map (\<lambda>c. if c = CHR 0x22 then [c, c] else [c]) t) = t" if "CHR 0x22 \<notin> set t" for t
    using that by (induction t) auto
  moreover assume "CHR 0x22 \<notin> set s"
  ultimately show ?thesis by (simp add: ref_quote_def)
qed

lemma ref_table_inject: "ref_valid m \<Longrightarrow> ref_valid n \<Longrightarrow> ref_table m = ref_table n \<longleftrightarrow> m = n"
  by (simp add: ref_table_def ref_valid_def ref_quote_plain)

lemma statement_inject [simp]:
  "sql_insert_entry t = sql_insert_entry t' \<longleftrightarrow> t = t'"
  "sql_update_entry t = sql_update_entry t' \<longleftrightarrow> t = t'"
  "sql_insert_batch t = sql_insert_batch t' \<longleftrightarrow> t = t'"
  "sql_select_entry t = sql_select_entry t' \<longleftrightarrow> t = t'"
  "sql_has_rows t = sql_has_rows t' \<longleftrightarrow> t = t'"
  "sql_count t = sql_count t' \<longleftrightarrow> t = t'"
  by (simp_all add: sql_insert_entry_def sql_update_entry_def sql_insert_batch_def sql_select_entry_def
      sql_has_rows_def sql_count_def)

lemma statement_distinct [simp]:
  "sql_update_entry t \<noteq> sql_insert_entry t'" "sql_insert_entry t \<noteq> sql_update_entry t'"
  "sql_insert_batch t \<noteq> sql_update_entry t'" "sql_update_entry t \<noteq> sql_insert_batch t'"
  "sql_select_entry t \<noteq> sql_has_rows t'" "sql_has_rows t \<noteq> sql_select_entry t'"
  "sql_select_entry t \<noteq> sql_count t'" "sql_count t \<noteq> sql_select_entry t'"
  "sql_has_rows t \<noteq> sql_count t'" "sql_count t \<noteq> sql_has_rows t'"
  "sql_insert_entry t \<noteq> ''system''" "sql_update_entry t \<noteq> ''system''" "sql_insert_batch t \<noteq> ''system''"
  "\<not> HasPrefix (sql_insert_entry t) create_prefix" "\<not> HasPrefix (sql_update_entry t) create_prefix"
  "\<not> HasPrefix (sql_insert_batch t) create_prefix"
  by (simp_all add: sql_insert_entry_def sql_update_entry_def sql_insert_batch_def sql_select_entry_def
      sql_has_rows_def sql_count_def create_prefix_def HasPrefix_iff)

lemma batch_not_entry [simp]: "sql_insert_batch t \<noteq> sql_insert_entry t'" "sql_insert_entry t' \<noteq> sql_insert_batch t"
proof -
  have "last (sql_insert_batch t) = CHR '')''" "last (sql_insert_entry t') = CHR ''G''"
    by (simp_all add: sql_insert_entry_def sql_insert_batch_def)
  then show "sql_insert_batch t \<noteq> sql_insert_entry t'" "sql_insert_entry t' \<noteq> sql_insert_batch t" by auto
qed

lemma find_equal: "find (\<lambda>x. x = t) xs = (if t \<in> set xs then Some t else None)"
  by (induction xs) auto

lemma on_table_same: "(\<And>t'. statement t' = statement t \<longleftrightarrow> t' = t) \<Longrightarrow>
    on_table st statement (statement t) = (if t \<in> set (keys st) then Some t else None)"
  by (simp add: on_table_def find_equal)

lemma on_table_other: "(\<And>t'. statement t' \<noteq> q) \<Longrightarrow> on_table st statement q = None"
  by (simp add: on_table_def find_None_iff)

lemma not_create: "create_prefix @ t \<noteq> ''system''"
  by (simp add: create_prefix_def)

lemma has_create: "HasPrefix (create_prefix @ t) create_prefix"
  by (simp add: HasPrefix_iff)

text \<open>What the engine does with each statement.\<close>

lemma ref_exec_statements:
  "ref_exec ''system'' args st = Inr (0, st)"
  "ref_exec (create_prefix @ t) args st = Inr (0, if has_key st t then st else AList.update t [] st)"
  "ref_exec (sql_insert_entry t) args st = (if t \<in> set (keys st) then ref_insert_entry t args st else Inl (Ext ''no such statement''))"
  "ref_exec (sql_update_entry t) args st = (if t \<in> set (keys st) then ref_update_entry t args st else Inl (Ext ''no such statement''))"
  "ref_exec (sql_insert_batch t) args st = (if t \<in> set (keys st) then ref_insert_batch t args st else Inl (Ext ''no such statement''))"
  by (simp_all add: ref_exec_def not_create has_create on_table_same on_table_other Let_def)

lemma ref_query_statements:
  "ref_query (sql_select_entry t) [Bytea k] st =
     (if t \<in> set (keys st)
      then (case map_of (the (map_of st t)) k of
              None \<Rightarrow> Inl (Ext ''no rows in result set'')
            | Some (v, version) \<Rightarrow> Inr ([VBytea v, VInt version], st))
      else Inl (Ext ''no such statement''))"
  "ref_query (sql_has_rows t) [] st =
     (if t \<in> set (keys st) then Inr ([VBool (the (map_of st t) \<noteq> [])], st) else Inl (Ext ''no such statement''))"
  "ref_query (sql_count t) [] st =
     (if t \<in> set (keys st)
      then (let r = the (map_of st t); ks = remdups (keys r) in
        Inr ([VInt (int (length ks)), VInt (int (length (filter (\<lambda>k. snd (the (map_of r k)) \<noteq> 0) ks)))], st))
      else Inl (Ext ''no such statement''))"
  by (simp_all add: ref_query_def on_table_same on_table_other)

lemma ref_db_sel [simp]:
  "Exec ref_db = ref_exec" "QueryRow ref_db = ref_query" "BeginTx ref_db = Inr" "Commit ref_db = (\<lambda>tx db. (Inr (), tx))"
  "Rollback ref_db = (\<lambda>tx db. db)" "systemSQL ref_db = ''system''" "MakeNsTablesQuery ref_db n = create_prefix @ ref_table n"
  "SystemNamespaces ref_db = [''_meta'', ''_config'']" "ConfigNamespaceID ref_db = ''_config''"
  "MetaNamespaceID ref_db = ''_meta''" "namespaceTable ref_db n = ref_table n"
  by (simp_all add: ref_db_def namespaceTable_def ref_table_def)

lemma ref_tables_update:
  assumes "ref_valid n"
  shows "becomes ref_tables ref_valid st (AList.update (ref_table n) r st) n (Some (map_of r))"
  using assms by (auto simp: becomes_def ref_tables_def ref_table_inject)

lemma ref_tables_Some:
  "ref_table n \<in> set (keys st) \<Longrightarrow> ref_tables st n = Some (map_of (the (map_of st (ref_table n))))"
  by (auto simp: ref_tables_def set_keys)

lemma becomes_refl: "rows tx n = r \<Longrightarrow> becomes rows valid tx tx n r"
  by (simp add: becomes_def)

lemma card_keys: "card (dom (map_of r)) = length (remdups (keys r))"
  by (metis length_remdups_card_conv set_keys)

lemma card_wrong:
  "card {k. \<exists>v version. map_of r k = Some (v, version) \<and> version \<noteq> 0} =
   length (filter (\<lambda>k. snd (the (map_of r k)) \<noteq> (0 :: int)) (remdups (keys r)))"
proof -
  have "{k. \<exists>v version. map_of r k = Some (v, version) \<and> version \<noteq> 0} =
      set (filter (\<lambda>k. snd (the (map_of r k)) \<noteq> 0) (remdups (keys r)))"
    by (auto simp: set_keys)
  moreover have "distinct (filter (\<lambda>k. snd (the (map_of r k)) \<noteq> 0) (remdups (keys r)))" by simp
  ultimately show ?thesis by (simp only: distinct_card)
qed

interpretation refdb: sql_database ref_db ref_tables ref_valid ref_tables
proof unfold_locales
  fix n tx a tx'
  assume n: "ref_valid n" and step: "Exec ref_db (MakeNsTablesQuery ref_db n) [] tx = Inr (a, tx')"
  show "becomes ref_tables ref_valid tx tx' n (Some (case ref_tables tx n of None \<Rightarrow> Map.empty | Some r \<Rightarrow> r))"
  proof (cases "has_key tx (ref_table n)")
    case True
    with step have "tx' = tx" by (simp add: ref_exec_statements)
    with True ref_tables_Some [of n tx] show ?thesis by (simp add: becomes_refl has_key_iff)
  next
    case False
    with step have "tx' = AList.update (ref_table n) [] tx" by (simp add: ref_exec_statements)
    moreover have "ref_tables tx n = None" using False by (auto simp: ref_tables_def has_key_iff set_keys domIff)
    ultimately show ?thesis using ref_tables_update [OF n, of tx "[]"] by simp
  qed
next
  fix n tx a tx'
  assume "ref_valid n" "Exec ref_db (systemSQL ref_db) [] tx = Inr (a, tx')"
  then show "ref_tables tx' n = ref_tables tx n" by (simp add: ref_exec_statements)
next
  fix n k v tx a tx'
  assume n: "ref_valid n" and step: "Exec ref_db (sql_insert_entry (namespaceTable ref_db n)) [Bytea k, Bytea v] tx = Inr (a, tx')"
  let ?r = "the (map_of tx (ref_table n))"
  from step have in_: "ref_table n \<in> set (keys tx)" by (auto simp: ref_exec_statements split: if_splits)
  show "\<exists>r. ref_tables tx n = Some r \<and> becomes ref_tables ref_valid tx tx' n (Some (insert_new k v r))"
  proof (cases "has_key ?r k")
    case True
    with step in_ have "tx' = tx" by (simp add: ref_exec_statements ref_insert_entry_def)
    moreover have "insert_new k v (map_of ?r) = map_of ?r"
      using True by (auto simp: insert_new_def has_key_iff set_keys)
    ultimately show ?thesis using ref_tables_Some [OF in_] by (simp add: becomes_refl)
  next
    case False
    with step in_ have "tx' = AList.update (ref_table n) ((k, (Some v, 0)) # ?r) tx"
      by (simp add: ref_exec_statements ref_insert_entry_def)
    moreover have "map_of ?r k = None" using False by (cases "map_of ?r k") (auto simp: has_key_iff set_keys)
    then have "insert_new k v (map_of ?r) = map_of ((k, (Some v, 0)) # ?r)" by (simp add: insert_new_def)
    ultimately show ?thesis
      using ref_tables_Some [OF in_] ref_tables_update [OF n, of tx "(k, (Some v, 0)) # ?r"] by simp
  qed
next
  fix n k v tx a tx'
  assume n: "ref_valid n" and step: "Exec ref_db (sql_update_entry (namespaceTable ref_db n)) [Bytea k, Bytea v] tx = Inr (a, tx')"
  let ?r = "the (map_of tx (ref_table n))"
  from step have in_: "ref_table n \<in> set (keys tx)" by (auto simp: ref_exec_statements split: if_splits)
  show "\<exists>r. ref_tables tx n = Some r \<and> becomes ref_tables ref_valid tx tx' n (Some (set_value k v r))"
  proof (cases "map_of ?r k")
    case None
    with step in_ have "tx' = tx" by (simp add: ref_exec_statements ref_update_entry_def)
    with None ref_tables_Some [OF in_] show ?thesis by (simp add: becomes_refl set_value_def)
  next
    case (Some p)
    obtain v0 version where p: "p = (v0, version)" by (cases p)
    with Some step in_ have "tx' = AList.update (ref_table n) ((k, (Some v, version)) # ?r) tx"
      by (simp add: ref_exec_statements ref_update_entry_def)
    moreover have "set_value k v (map_of ?r) = map_of ((k, (Some v, version)) # ?r)"
      using Some p by (simp add: set_value_def)
    ultimately show ?thesis
      using ref_tables_Some [OF in_] ref_tables_update [OF n, of tx "(k, (Some v, version)) # ?r"] by simp
  qed
next
  fix n and ks vs :: "bytes list" and tx a tx'
  assume n: "ref_valid n" and len: "length vs = length ks"
    and step: "Exec ref_db (sql_insert_batch (namespaceTable ref_db n)) [ByteaArray ks, ByteaArray vs] tx = Inr (a, tx')"
  let ?r = "the (map_of tx (ref_table n))"
  from step have in_: "ref_table n \<in> set (keys tx)" by (auto simp: ref_exec_statements split: if_splits)
  with step have ok: "distinct ks" "list_all (\<lambda>k. \<not> has_key ?r k) ks" "a = int (length ks)"
    "tx' = AList.update (ref_table n) (zip ks (map (\<lambda>v. (Some v, 0)) vs) @ ?r) tx"
    by (auto simp: ref_exec_statements ref_insert_batch_def Let_def split: if_splits)
  have "set ks \<inter> dom (map_of ?r) = {}" using ok(2) by (auto simp: list_all_iff has_key_iff set_keys)
  moreover have "map_of (zip ks (map (\<lambda>v. (Some v, 0)) vs) @ ?r) = map_of ?r ++ batch_rows ks vs"
    by (simp add: batch_rows_def)
  ultimately show "\<exists>r. ref_tables tx n = Some r \<and> distinct ks \<and> set ks \<inter> dom r = {} \<and> a = int (length ks) \<and>
      becomes ref_tables ref_valid tx tx' n (Some (r ++ batch_rows ks vs))"
    using ref_tables_Some [OF in_] ref_tables_update [OF n, of tx "zip ks (map (\<lambda>v. (Some v, 0)) vs) @ ?r"] ok by auto
next
  fix n k tx vals tx'
  assume n: "ref_valid n" and step: "QueryRow ref_db (sql_select_entry (namespaceTable ref_db n)) [Bytea k] tx = Inr (vals, tx')"
  from step have in_: "ref_table n \<in> set (keys tx)" by (auto simp: ref_query_statements split: if_splits)
  with step show "\<exists>r v version. ref_tables tx n = Some r \<and> r k = Some (v, version) \<and> vals = [VBytea v, VInt version] \<and>
      (\<forall>m. ref_valid m \<longrightarrow> ref_tables tx' m = ref_tables tx m)"
    using ref_tables_Some [OF in_] by (auto simp: ref_query_statements)
next
  fix n tx vals tx'
  assume n: "ref_valid n" and step: "QueryRow ref_db (sql_has_rows (namespaceTable ref_db n)) [] tx = Inr (vals, tx')"
  from step have in_: "ref_table n \<in> set (keys tx)" by (auto simp: ref_query_statements split: if_splits)
  with step show "\<exists>r. ref_tables tx n = Some r \<and> vals = [VBool (r \<noteq> Map.empty)] \<and>
      (\<forall>m. ref_valid m \<longrightarrow> ref_tables tx' m = ref_tables tx m)"
    using ref_tables_Some [OF in_] by (auto simp: ref_query_statements)
next
  fix n tx vals tx'
  assume n: "ref_valid n" and step: "QueryRow ref_db (sql_count (namespaceTable ref_db n)) [] tx = Inr (vals, tx')"
  let ?r = "the (map_of tx (ref_table n))"
  from step have in_: "ref_table n \<in> set (keys tx)" by (auto simp: ref_query_statements split: if_splits)
  with step show "\<exists>r. ref_tables tx n = Some r \<and> finite (dom r) \<and>
      vals = [VInt (int (card (dom r))), VInt (int (card {k. \<exists>v version. r k = Some (v, version) \<and> version \<noteq> 0}))] \<and>
      (\<forall>m. ref_valid m \<longrightarrow> ref_tables tx' m = ref_tables tx m)"
    using ref_tables_Some [OF in_]
    by (intro exI [of _ "map_of ?r"]) (auto simp: ref_query_statements Let_def card_keys card_wrong finite_dom_map_of)
qed simp_all

text \<open>The engine is always up.\<close>

lemma ref_tables_in: "ref_tables tx n = Some r \<Longrightarrow> ref_table n \<in> set (keys tx) \<and> r = map_of (the (map_of tx (ref_table n)))"
  by (auto simp: ref_tables_def set_keys)

interpretation refdb_up: sql_running ref_db ref_tables ref_valid ref_tables
proof unfold_locales
  fix n tx r and ks vs :: "bytes list"
  assume "ref_tables tx n = Some r" "distinct ks" "set ks \<inter> dom r = {}"
  then show "\<exists>a tx'. Exec ref_db (sql_insert_batch (namespaceTable ref_db n)) [ByteaArray ks, ByteaArray vs] tx = Inr (a, tx')"
    using ref_tables_in by (fastforce simp: ref_exec_statements ref_insert_batch_def Let_def list_all_iff has_key_iff set_keys)
next
  fix n tx r k
  assume "ref_tables tx n = Some r" "k \<in> dom r"
  then show "\<exists>vals tx'. QueryRow ref_db (sql_select_entry (namespaceTable ref_db n)) [Bytea k] tx = Inr (vals, tx')"
    using ref_tables_in by (fastforce simp: ref_query_statements)
next
  fix n tx r k v
  assume "ref_tables tx n = Some r"
  note in_ = ref_tables_in [OF this]
  show "\<exists>a tx'. Exec ref_db (sql_update_entry (namespaceTable ref_db n)) [Bytea k, Bytea v] tx = Inr (a, tx')"
    using in_ by (cases "map_of (the (map_of tx (ref_table n))) k") (auto simp: ref_exec_statements ref_update_entry_def Let_def)
qed (auto simp: ref_exec_statements ref_query_statements ref_insert_entry_def Let_def dest: ref_tables_in)

end
