(* ===== verification/ImportProps.thy ===== *)
theory ImportProps
  imports ImportAgree ReferenceDB Example
begin

text \<open>
  The properties of the importer (theory Importer), over any database with the laws of theory Database,
  with witnesses on the example migration into an empty database of the reference engine.
\<close>

subsection \<open>The example\<close>

text \<open>A second mapping, to other target namespaces.\<close>

definition mig_config2 :: mapping_config where
  "mig_config2 = mig_config\<lparr>Mappings := map (\<lambda>m. m\<lparr>TargetNamespace := ''ub'', TargetHashNamespace := ''uh''\<rparr>) (Mappings mig_config)\<rparr>"

definition mig_mapping_lib :: mapping_lib where
  "mig_mapping_lib = \<lparr>Sum256 = ex_digest, decode_any = (\<lambda>bs. Inl EOF),
     decode_metadata = decode_metadata mig_snapshot_lib, decode_additional = decode_additional mig_snapshot_lib,
     decode_mappings = (\<lambda>bs. if bs = [7] then Inr (mig_config, []) else if bs = [8] then Inr (mig_config2, []) else Inl EOF),
     IsSystemNamespace = (\<lambda>n. n = ''_meta'' \<or> n = ''_config''),
     ValidateNamespaceID = (\<lambda>n. if ref_valid n then Inr () else Inl (Ext ''namespace''))\<rparr>"

definition mig_libs :: "(unit, ref_state, ref_state) libs" where
  "mig_libs = \<lparr>libS = mig_mapping_lib, libC = mig_config_lib, libP = ex_policy_lib, libQ = mig_lifecycle_lib,
     libB = mig_bundle_lib, libD = ref_db, iteration = listed_order\<rparr>"

definition mig_fs :: fs where
  "mig_fs = (let f = ex_fs mig_files in
     f\<lparr>Lstat := (\<lambda>p. if p \<in> {''m'', ''n'', ''t'', ''s''} then Inr ex_info else Lstat f p),
       ReadFile := (\<lambda>p. if p = ''m'' then Inr [7] else if p = ''n'' then Inr [8] else if p = ''t'' then Inr [1, 2] else if p = ''s'' then Inr [10] else ReadFile f p)\<rparr>)"

definition mig_phases :: phases where
  "mig_phases = \<lparr>fs_load = mig_fs, fs_policies = mig_fs, fs_validate = mig_fs, fs_check = mig_fs, fs_copy = mig_fs, fs_recheck = mig_fs\<rparr>"

definition mig_options :: import_options where
  "mig_options = \<lparr>oSnapshots = [(''assets'', ''d'')], oSourceConfigs = [(''assets'', ''s'')], MappingPath = ''m'', TargetConfigPath = ''t''\<rparr>"

definition mig_plan :: plan where
  "mig_plan = \<lparr>pConfig = mig_config,
     pLoaded = \<lparr>snapshots = mig_snapshots, sources = mig_sources,
       inputs = [\<lparr>input_path = ''m'', input_data = [7]\<rparr>, \<lparr>input_path = ''t'', input_data = [1, 2]\<rparr>, \<lparr>input_path = ''s'', input_data = [10]\<rparr>],
       source_results = [\<lparr>srChannel = ''assets'', srBlock = 3, srSnapshotHash = ''01'', srConfigSHA256 = ''0a''\<rparr>]\<rparr>,
     pCounts = [(''tb'', 1), (''th'', 1)], pPolicies = [(''tb'', mig_policy), (''th'', mig_policy)],
     pEnvelope = [1, 3], pPolls = 2\<rparr>"

definition mig_after :: ref_state where
  "mig_after =
     [(ref_table ''_meta'', [([116, 104], Some mig_policy, 0), ([116, 98], Some mig_policy, 0)]),
      (ref_table ''_config'', [([95, 99, 111, 110, 102, 105, 103], Some [1, 3], 0)]),
      (ref_table ''tb'', [([97], Some [98], 0)]),
      (ref_table ''th'', [(replicate 32 7, Some (replicate 32 9), 0)])]"

definition mig_result :: import_result where
  "mig_result = expected_result mig_libs mig_plan"

lemma mig_prepared: "prepare_import mig_libs background mig_phases mig_options = Inr mig_plan"
  by code_simp

lemma mig_imported: "Import mig_libs background mig_phases mig_options (Some []) = (Inr mig_result, Some mig_after)"
  by code_simp

text \<open>The same import into the database it has filled.\<close>

lemma mig_again:
  "Import mig_libs background mig_phases mig_options (Some mig_after) =
     (Inl (New ''target namespace is not empty'' [''tb'']), Some mig_after)"
  by code_simp

lemma mig_env: "import_env mig_libs ref_tables ref_valid ref_tables"
proof (rule import_env.intro)
  show "sql_database (libD mig_libs) ref_tables ref_valid ref_tables"
    by (simp add: mig_libs_def refdb.sql_database_axioms)
  show "import_env_axioms mig_libs ref_valid"
    by (rule import_env_axioms.intro) (auto simp: mig_libs_def mig_mapping_lib_def ref_valid_def split: if_splits)
qed

interpretation mig: import_env mig_libs ref_tables ref_valid ref_tables
  by (rule mig_env)

lemma mig_selected:
  "selected mig_mapping_lib mig_fs mig_config mig_snapshots = Inr [(''tb'', ex_record), (''th'', ex_private_record)]"
  by code_simp

definition mig_rows :: "target_row list" where
  "mig_rows = [(''tb'', [97], [98]), (''th'', replicate 32 7, replicate 32 9)]"

lemma mig_rows: "map row_of [(''tb'', ex_record), (''th'', ex_private_record)] = mig_rows"
  by code_simp

lemma mig_sel [simp]:
  "libS mig_libs = mig_mapping_lib" "libD mig_libs = ref_db" "libC mig_libs = mig_config_lib"
  "fs_copy mig_phases = mig_fs" "pConfig mig_plan = mig_config" "snapshots (pLoaded mig_plan) = mig_snapshots"
  by (simp_all add: mig_libs_def mig_phases_def mig_plan_def)

subsection \<open>What an import leaves behind\<close>

text \<open>
  C1. An import that succeeds has written exactly the selected records. Every target namespace was
  missing or empty; it now holds one row per selected record, the record's key and value at version 0,
  with no key twice, as many as the mapping counts announce. The meta namespace holds the prepared
  policy of every target namespace and is otherwise unchanged, the configuration entry is the resolved
  target envelope, every other namespace is untouched, and the result lists the namespaces, their counts
  and their policies.
\<close>

theorem import_writes_exactly:
  assumes "import_env E rows valid stored" "Import E ctx ph options (Some db) = (Inr result, Some db')"
  shows "\<exists>p recs. prepare_import E ctx ph options = Inr p \<and>
    selected (libS E) (fs_copy ph) (pConfig p) (snapshots (pLoaded p)) = Inr recs \<and>
    imported E valid p (map row_of recs) (stored db) (stored db') \<and> result = expected_result E p \<and>
    revalidate_inputs (libS E) (fs_recheck ph) (inputs (pLoaded p)) (snapshots (pLoaded p)) = Inr ()"
  by (rule import_env.import_complete [OF assms])

theorem import_writes_exactly_witness:
  "imported mig_libs ref_valid mig_plan mig_rows (ref_tables []) (ref_tables mig_after) \<and>
   RecordCount mig_result = 2"
proof -
  have "imported mig_libs ref_valid mig_plan mig_rows (ref_tables []) (ref_tables mig_after)"
    using import_writes_exactly [OF mig_env mig_imported] by (auto simp: mig_prepared mig_selected simp flip: mig_rows)
  moreover have "RecordCount mig_result = 2" by code_simp
  ultimately show ?thesis by blast
qed

text \<open>
  C3. An import is atomic. When it fails, for whatever reason and at whatever step, every table of the
  database is as it was, with one exception: if the commit itself reports an error, whose outcome
  PostgreSQL does not promise, the import is either not there or there completely.
\<close>

theorem import_is_atomic:
  assumes "import_env E rows valid stored" "Import E ctx ph options (Some db) = (Inl e, Some db')"
  shows "(\<forall>n. valid n \<longrightarrow> stored db' n = stored db n) \<or>
    (\<exists>p recs e'. e = Wrap [''commit target import''] e' \<and> prepare_import E ctx ph options = Inr p \<and>
       selected (libS E) (fs_copy ph) (pConfig p) (snapshots (pLoaded p)) = Inr recs \<and>
       imported E valid p (map row_of recs) (stored db) (stored db'))"
  by (rule import_env.import_atomic [OF assms])

theorem import_is_atomic_witness:
  "\<exists>db'. Import mig_libs background mig_phases mig_options (Some mig_after) =
       (Inl (New ''target namespace is not empty'' [''tb'']), Some db') \<and>
     (\<forall>n. ref_valid n \<longrightarrow> ref_tables db' n = ref_tables mig_after n)"
  using import_is_atomic [OF mig_env mig_again] mig_again by auto


lemma mig_regular: "regular_inputs (libB mig_libs) (load_inputs (libS mig_libs) (libC mig_libs) (fs_load mig_phases) mig_options)"
proof -
  have "load_inputs (libS mig_libs) (libC mig_libs) (fs_load mig_phases) mig_options = Inr (mig_config, mig_target, pLoaded mig_plan)"
    by code_simp
  then show ?thesis using mig_unique mig_target_wf by (simp add: regular_inputs_def mig_libs_def)
qed

text \<open>A database with a table of its own, and the opposite orders of iteration.\<close>

definition mig_other :: ref_state where
  "mig_other = [(ref_table ''x'', [([1], Some [2], 0)])]"

lemma mig_imported_other:
  "Import (mig_libs\<lparr>iteration := reversed_order\<rparr>) background mig_phases mig_options (Some mig_other) = (Inr mig_result, Some (mig_other @ mig_after))"
  by code_simp


subsection \<open>The steps inside the transaction\<close>

text \<open>
  C17. The copy sends the records in batches: on any database, a copy and its final flush that succeed have
  executed a sequence of inserts of at least 1 and at most 512 rows, each for one target namespace and
  each reported as written completely, whose rows taken together are the selected records in the order of
  the walk. No record is lost or sent twice at a change of the target or at the end.
\<close>

theorem copied_in_batches:
  assumes "walk S f config snaps (copy_record D ctx) (n, \<lparr>sTx = tx, sTarget = [], sKeys = [], sValues = []\<rparr>) = Inr (n', batch)"
    "flush D batch = Inr batch'" "[] \<notin> targets config"
  shows "\<exists>recs bs. selected S f config snaps = Inr recs \<and> rfold (insert_rows D) bs tx = Inr (sTx batch') \<and>
    concat (map batch_list bs) = map row_of recs \<and> (\<forall>b \<in> set bs. 1 \<le> length (snd b) \<and> length (snd b) \<le> 512)"
proof -
  from assms(1) obtain recs where recs: "selected S f config snaps = Inr recs"
    and copy: "rfold (uncurried (copy_record D ctx)) recs (n, \<lparr>sTx = tx, sTarget = [], sKeys = [], sValues = []\<rparr>) = Inr (n', batch)"
    unfolding walk_selected by blast
  have "\<forall>row \<in> set recs. fst row \<noteq> []" using selected_targets [OF recs] assms(3) by metis
  from copy_batches [OF copy assms(2) this] recs show ?thesis
    unfolding small_batch_def insertBatchSize_def by blast
qed

definition mig_tables :: ref_state where
  "mig_tables = [(ref_table ''tb'', []), (ref_table ''th'', [])]"

definition mig_filled :: ref_state where
  "mig_filled = [(ref_table ''tb'', [([97], Some [98], 0)]), (ref_table ''th'', [(replicate 32 7, Some (replicate 32 9), 0)])]"

lemma mig_copied:
  "walk mig_mapping_lib mig_fs mig_config mig_snapshots (copy_record ref_db background)
     (0, \<lparr>sTx = mig_tables, sTarget = [], sKeys = [], sValues = []\<rparr>) =
     Inr (2, \<lparr>sTx = [(ref_table ''tb'', [([97], Some [98], 0)]), (ref_table ''th'', [])], sTarget = ''th'',
       sKeys = [replicate 32 7], sValues = [replicate 32 9]\<rparr>)"
  "flush ref_db \<lparr>sTx = [(ref_table ''tb'', [([97], Some [98], 0)]), (ref_table ''th'', [])], sTarget = ''th'',
       sKeys = [replicate 32 7], sValues = [replicate 32 9]\<rparr> =
     Inr \<lparr>sTx = mig_filled, sTarget = ''th'', sKeys = [], sValues = []\<rparr>"
  by code_simp+

theorem copied_in_batches_witness:
  "\<exists>bs. rfold (insert_rows ref_db) bs mig_tables = Inr mig_filled \<and> concat (map batch_list bs) = mig_rows \<and>
     (\<forall>b \<in> set bs. 1 \<le> length (snd b) \<and> length (snd b) \<le> 512)"
proof -
  have "[] \<notin> targets mig_config" by (simp add: targets_def mig_config_def hashTarget_def)
  from copied_in_batches [OF mig_copied this] show ?thesis by (auto simp: mig_selected simp flip: mig_rows)
qed

text \<open>
  C16. A configuration or policy entry is never overwritten by a different one. When \<open>ensureEntry\<close> succeeds
  the key holds the given nonempty value at version 0, and before it held nothing, or that very entry, or,
  for the configuration, an entry at version 0 that decodes to the same channel and an equal
  configuration. Every other key and every other table keeps its rows.
\<close>

theorem entries_never_conflict:
  assumes "sql_tables D rows valid" "valid n" "ensureEntry D C n key val tx = Inr tx'"
  shows "val \<noteq> [] \<and> (\<exists>r. rows tx n = Some r \<and> rows tx' n = Some (r(bytes_of_string key \<mapsto> (Some val, 0))) \<and>
      (r (bytes_of_string key) = None \<or> r (bytes_of_string key) = Some (Some val, 0) \<or>
       (n = ConfigNamespaceID D \<and> (\<exists>v actual expected. r (bytes_of_string key) = Some (v, 0) \<and>
          decodeChannelConfig C (case v of None \<Rightarrow> [] | Some bs \<Rightarrow> bs) = Inr actual \<and>
          decodeChannelConfig C val = Inr expected \<and> cChannel actual = cChannel expected \<and>
          same_config (Config (cConfig actual)) (Config (cConfig expected)))))) \<and>
    (\<forall>m. valid m \<longrightarrow> m \<noteq> n \<longrightarrow> rows tx' m = rows tx m)"
  using sql_tables.ensureEntry_effect [OF assms(1,3,2)] unfolding entry_compatible_def becomes_def same_channel_config_iff by blast

lemma mig_ensured:
  "ensureEntry ref_db mig_config_lib ''_config'' ''_config'' [1, 3] [(ref_table ''_config'', [([95, 99, 111, 110, 102, 105, 103], Some [1, 3], 0)])] =
     Inr [(ref_table ''_config'', [([95, 99, 111, 110, 102, 105, 103], Some [1, 3], 0)])]"
  by code_simp

theorem entries_never_conflict_witness:
  "\<exists>r. ref_tables [(ref_table ''_config'', [([95, 99, 111, 110, 102, 105, 103], Some [1, 3], 0)])] ''_config'' = Some r \<and>
     r (bytes_of_string ''_config'') \<in> {None, Some (Some [1, 3], 0)}"
proof -
  have "ref_valid ''_config''" by (simp add: ref_valid_def)
  note e = entries_never_conflict [OF refdb.sql_tables_axioms this mig_ensured]
  have "bytes_of_string ''_config'' = [95, 99, 111, 110, 102, 105, 103]" by code_simp
  with e show ?thesis by (auto simp: ref_tables_def)
qed

end
