(* ===== verification/Counting.thy ===== *)
theory Counting
  imports ImportEffect
begin

text \<open>
  The two ways in which the importer counts: \<open>mappingCounts\<close> adds up what the metadata files of the
  snapshots announce, the copy sends the records it walks. When the metadata files say at the copy what
  they said at opening, both are the same number modulo \<open>2^64\<close> for every target namespace.
\<close>

subsection \<open>Sums over lists\<close>

lemma sum_list_swap:
  "(\<Sum>x\<leftarrow>xs. \<Sum>y\<leftarrow>ys. f x y :: 'a :: comm_monoid_add) = (\<Sum>y\<leftarrow>ys. \<Sum>x\<leftarrow>xs. f x y)"
  by (induction xs) (simp_all add: sum_list_addf)

lemma sum_list_filter_if:
  "sum_list (map f (filter P xs)) = (\<Sum>x\<leftarrow>xs. if P x then f x else (0 :: 'a :: monoid_add))"
  by (induction xs) simp_all

lemma sum_list_one_key:
  assumes "distinct (map key ms)"
  shows "(\<Sum>m\<leftarrow>ms. if key m = k \<and> Q m then r else (0 :: 'a :: monoid_add)) =
    (case find (\<lambda>m. key m = k) ms of None \<Rightarrow> 0 | Some m \<Rightarrow> if Q m then r else 0)"
proof -
  have none: "(\<Sum>m\<leftarrow>ms. if key m = k \<and> Q m then r else 0) = 0" if "k \<notin> key ` set ms" for ms
    using that by (induction ms) auto
  from assms show ?thesis
  proof (induction ms)
    case (Cons m ms)
    then have "k \<notin> key ` set ms" if "key m = k" using that by auto
    with Cons none show ?case by auto
  qed simp
qed

lemma sum_list_one:
  assumes "distinct xs"
  shows "(\<Sum>x\<leftarrow>xs. if x = k then f x else (0 :: 'a :: monoid_add)) = (if k \<in> set xs then f k else 0)"
proof -
  have none: "(\<Sum>x\<leftarrow>xs. if x = k then f x else 0) = 0" if "k \<notin> set xs" for xs
    using that by (induction xs) auto
  from assms show ?thesis by (induction xs) (auto simp: none)
qed

lemma of_nat_sum_list: "of_nat (sum_list ns) = (\<Sum>n\<leftarrow>ns. of_nat n :: 'a :: semiring_1)"
  by (induction ns) simp_all

lemma sum_list_if: "(\<Sum>x\<leftarrow>xs. if c \<and> P x then f x else (0 :: 'a :: monoid_add)) = (if c then (\<Sum>x\<leftarrow>xs. if P x then f x else 0) else 0)"
  by (cases c) simp_all

lemma sum_list_cong: "(\<And>x. x \<in> set xs \<Longrightarrow> f x = g x) \<Longrightarrow> sum_list (map f xs) = sum_list (map g xs)"
  by (metis map_cong)

subsection \<open>What the walk selects of a channel\<close>

text \<open>Whether records of a source go to the target \<open>t\<close>.\<close>

definition goes_to :: "mapping_config \<Rightarrow> string \<Rightarrow> (mapping \<Rightarrow> string) \<Rightarrow> string \<Rightarrow> string \<Rightarrow> bool" where
  "goes_to config channel target t src \<longleftrightarrow>
     (case mappingFor config channel src of (m, found) \<Rightarrow> found \<and> target m = t)"

definition announced_in :: "(string \<Rightarrow> bool) \<Rightarrow> namespace list \<Rightarrow> uint64" where
  "announced_in P nss = (\<Sum>ns\<leftarrow>nss. if P (Name ns) then Records ns else 0)"

lemma rows_for_pick_public:
  "gather (pick_public config channel) recs = Inr kvs \<Longrightarrow>
   length (rows_for t (map row_of kvs)) = length (filter (goes_to config channel TargetNamespace t) (map rNamespace recs))"
proof (induction recs arbitrary: kvs)
  case (Cons rec recs)
  from Cons.prems obtain a rest where a: "pick_public config channel rec = Inr a"
    and rest: "gather (pick_public config channel) recs = Inr rest" "kvs = a @ rest" by auto
  have "length (rows_for t (map row_of a)) = (if goes_to config channel TargetNamespace t (rNamespace rec) then 1 else 0)"
    using a by (auto simp: pick_public_def goes_to_def rows_for_def row_of_def split: prod.splits if_splits)
  with Cons.IH [OF rest(1)] rest(2) show ?case by simp
qed (simp add: rows_for_def)

definition private_goes_to :: "mapping_config \<Rightarrow> string \<Rightarrow> string \<Rightarrow> string \<Rightarrow> bool" where
  "private_goes_to config channel t name \<longleftrightarrow>
     (case hash_source name of None \<Rightarrow> False | Some src \<Rightarrow> goes_to config channel hashTarget t src)"

lemma rows_for_pick_private:
  "gather (pick_private config channel) recs = Inr kvs \<Longrightarrow>
   length (rows_for t (map row_of kvs)) = length (filter (private_goes_to config channel t) (map rNamespace recs))"
proof (induction recs arbitrary: kvs)
  case (Cons rec recs)
  from Cons.prems obtain a rest where a: "pick_private config channel rec = Inr a"
    and rest: "gather (pick_private config channel) recs = Inr rest" "kvs = a @ rest" by auto
  from a obtain src coll where split: "SplitHashNamespace (rNamespace rec) = Inr (src, coll)"
    by (auto simp: pick_private_def)
  obtain m found where m: "mappingFor config channel src = (m, found)" by fastforce
  have "length (rows_for t (map row_of a)) = (if private_goes_to config channel t (rNamespace rec) then 1 else 0)"
    using a by (cases found) (auto simp: pick_private_def split m private_goes_to_def hash_source_def goes_to_def
        rows_for_def row_of_def split: if_splits)
  with Cons.IH [OF rest(1)] rest(2) show ?case by simp
qed (simp add: rows_for_def)

lemma announced_records:
  assumes "map rNamespace recs = concat (map (\<lambda>ns. replicate (unat (Records ns)) (Name ns)) nss)"
  shows "of_nat (length (filter P (map rNamespace recs))) = announced_in P nss"
proof -
  have "length (filter P (concat (map (\<lambda>ns. replicate (unat (Records ns)) (Name ns)) nss))) =
      (\<Sum>ns\<leftarrow>nss. if P (Name ns) then unat (Records ns) else 0)"
    by (induction nss) auto
  then show ?thesis unfolding assms
    by (simp add: of_nat_sum_list announced_in_def comp_def if_distrib [of of_nat] cong: if_cong)
qed

text \<open>The metadata files of a snapshot say what they said when it was opened.\<close>

definition same_namespaces :: "'s lib_scheme \<Rightarrow> fs \<Rightarrow> snapshot_stream \<Rightarrow> bool" where
  "same_namespaces S f s \<longleftrightarrow> readNamespaces S f s ''public_state'' = Inr (PublicNamespaces s) \<and>
     (if has_key (fileHashes s) ''private_state_hashes.data''
      then readNamespaces S f s private_prefix = Inr (PrivateHashNamespaces s) else PrivateHashNamespaces s = [])"

lemma selected_channel_count:
  assumes "selected_channel S f config snaps channel = Inr kvs" "same_namespaces S f (the (map_of snaps channel))"
  shows "of_nat (length (rows_for t (map row_of kvs))) =
    announced_in (goes_to config channel TargetNamespace t) (PublicNamespaces (the (map_of snaps channel))) +
    announced_in (private_goes_to config channel t) (PrivateHashNamespaces (the (map_of snaps channel)))"
proof -
  let ?s = "the (map_of snaps channel)"
  from assms(1) obtain pub a priv b where pub: "snapshot_records S f ?s ''public_state'' = Inr pub"
    and a: "gather (pick_public config channel) pub = Inr a" and priv: "private_records S f ?s = Inr priv"
    and b: "gather (pick_private config channel) priv = Inr b" and kvs: "kvs = a @ b"
    by (auto simp: selected_channel_def Let_def)
  have "map rNamespace pub = concat (map (\<lambda>ns. replicate (unat (Records ns)) (Name ns)) (PublicNamespaces ?s))"
    using snapshot_records_sound(1) [OF pub] assms(2) by (simp add: same_namespaces_def)
  note 1 = announced_records [OF this, of "goes_to config channel TargetNamespace t"]
  have "map rNamespace priv = concat (map (\<lambda>ns. replicate (unat (Records ns)) (Name ns)) (PrivateHashNamespaces ?s))"
  proof (cases "has_key (fileHashes ?s) ''private_state_hashes.data''")
    case True
    with priv have "snapshot_records S f ?s private_prefix = Inr priv" by (simp add: private_records_def)
    from snapshot_records_sound(1) [OF this] True assms(2) show ?thesis by (simp add: same_namespaces_def)
  next
    case False
    with priv assms(2) show ?thesis by (simp add: private_records_def same_namespaces_def)
  qed
  note 2 = announced_records [OF this, of "private_goes_to config channel t"]
  show ?thesis
    using 1 2 by (simp add: kvs rows_for_pick_public [OF a] rows_for_pick_private [OF b])
qed

subsection \<open>What the mappings announce for a channel\<close>

lemma goes_to_sum:
  assumes "distinct (map source_of (Mappings config))"
  shows "(\<Sum>m\<leftarrow>Mappings config. if source_of m = SourceId channel src \<and> target m = t then r else 0) =
    (if goes_to config channel target t src then r else (0 :: uint64))"
  unfolding sum_list_one_key [OF assms]
  by (simp add: goes_to_def mappingFor_def source_of_def split: option.splits)

lemma source_id_conds:
  "source_of m = SourceId channel n \<and> TargetNamespace m = t \<longleftrightarrow> (SourceChannel m = channel \<and> TargetNamespace m = t) \<and> n = SourceNamespace m"
  "SourceChannel m = channel \<and> src = Some (SourceNamespace m) \<and> hashTarget m = t \<longleftrightarrow>
     (SourceChannel m = channel \<and> hashTarget m = t) \<and> src = Some (SourceNamespace m)"
  by (auto simp: source_of_def)

lemma announced_public:
  assumes "distinct (map source_of (Mappings config))"
  shows "announced_in (goes_to config channel TargetNamespace t) (PublicNamespaces s) =
    (\<Sum>m\<leftarrow>Mappings config. if SourceChannel m = channel \<and> TargetNamespace m = t then public_count s (SourceNamespace m) else 0)"
proof -
  have "announced_in (goes_to config channel TargetNamespace t) (PublicNamespaces s) =
      (\<Sum>ns\<leftarrow>PublicNamespaces s. \<Sum>m\<leftarrow>Mappings config.
         if source_of m = SourceId channel (Name ns) \<and> TargetNamespace m = t then Records ns else 0)"
    by (simp add: announced_in_def goes_to_sum [OF assms])
  also have "\<dots> = (\<Sum>m\<leftarrow>Mappings config. \<Sum>ns\<leftarrow>PublicNamespaces s.
         if (SourceChannel m = channel \<and> TargetNamespace m = t) \<and> Name ns = SourceNamespace m then Records ns else 0)"
    by (subst sum_list_swap) (simp only: source_id_conds(1))
  also have "\<dots> = (\<Sum>m\<leftarrow>Mappings config. if SourceChannel m = channel \<and> TargetNamespace m = t then public_count s (SourceNamespace m) else 0)"
    by (intro sum_list_cong) (simp add: sum_list_if public_count_def sum_list_filter_if source_of_def)
  finally show ?thesis .
qed

lemma announced_private:
  assumes "distinct (map source_of (Mappings config))"
  shows "announced_in (private_goes_to config channel t) (PrivateHashNamespaces s) =
    (\<Sum>m\<leftarrow>Mappings config. if SourceChannel m = channel \<and> hashTarget m = t then hash_count s (SourceNamespace m) else 0)"
proof -
  have "(if private_goes_to config channel t n then r else 0) =
      (\<Sum>m\<leftarrow>Mappings config. if SourceChannel m = channel \<and> hash_source n = Some (SourceNamespace m) \<and> hashTarget m = t then r else 0)"
    for n and r :: uint64
  proof (cases "hash_source n")
    case (Some src)
    then show ?thesis
      using goes_to_sum [OF assms, of channel src hashTarget t r]
      by (simp add: private_goes_to_def source_of_def eq_commute conj_assoc)
  qed (simp add: private_goes_to_def)
  then have "announced_in (private_goes_to config channel t) (PrivateHashNamespaces s) =
      (\<Sum>ns\<leftarrow>PrivateHashNamespaces s. \<Sum>m\<leftarrow>Mappings config.
         if SourceChannel m = channel \<and> hash_source (Name ns) = Some (SourceNamespace m) \<and> hashTarget m = t then Records ns else 0)"
    by (simp add: announced_in_def)
  also have "\<dots> = (\<Sum>m\<leftarrow>Mappings config. \<Sum>ns\<leftarrow>PrivateHashNamespaces s.
         if (SourceChannel m = channel \<and> hashTarget m = t) \<and> hash_source (Name ns) = Some (SourceNamespace m) then Records ns else 0)"
    by (subst sum_list_swap) (simp only: source_id_conds(2))
  also have "\<dots> = (\<Sum>m\<leftarrow>Mappings config. if SourceChannel m = channel \<and> hashTarget m = t then hash_count s (SourceNamespace m) else 0)"
    by (intro sum_list_cong) (simp add: sum_list_if hash_count_def sum_list_filter_if)
  finally show ?thesis .
qed

lemma contribution_channels:
  assumes "wf_map snaps"
  shows "contribution snaps t m = (\<Sum>channel\<leftarrow>sortedKeys snaps.
    (if SourceChannel m = channel \<and> TargetNamespace m = t then public_count (the (map_of snaps channel)) (SourceNamespace m) else 0) +
    (if SourceChannel m = channel \<and> hashTarget m = t then hash_count (the (map_of snaps channel)) (SourceNamespace m) else 0))"
proof -
  let ?c = "\<lambda>channel. (if TargetNamespace m = t then public_count (the (map_of snaps channel)) (SourceNamespace m) else 0) +
      (if hashTarget m = t then hash_count (the (map_of snaps channel)) (SourceNamespace m) else 0)"
  have "contribution snaps t m = (\<Sum>channel\<leftarrow>sortedKeys snaps. if channel = SourceChannel m then ?c channel else 0)"
    unfolding sum_list_one [OF distinct_sortedKeys [OF assms]]
    by (auto simp: contribution_def set_keys split: option.split)
  also have "\<dots> = (\<Sum>channel\<leftarrow>sortedKeys snaps.
      (if SourceChannel m = channel \<and> TargetNamespace m = t then public_count (the (map_of snaps channel)) (SourceNamespace m) else 0) +
      (if SourceChannel m = channel \<and> hashTarget m = t then hash_count (the (map_of snaps channel)) (SourceNamespace m) else 0))"
    by (intro sum_list_cong) auto
  finally show ?thesis .
qed

subsection \<open>Both counts agree\<close>

theorem counted_is_selected:
  assumes "mappingCounts config snaps = Inr counts" "selected S f config snaps = Inr recs"
    "distinct (map source_of (Mappings config))" "wf_map snaps" "\<And>channel s. map_of snaps channel = Some s \<Longrightarrow> same_namespaces S f s"
  shows "of_nat (length (rows_for t (map row_of recs))) = lookup_count counts t"
proof -
  let ?s = "\<lambda>channel. the (map_of snaps channel)"
  let ?n = "\<lambda>channel. announced_in (goes_to config channel TargetNamespace t) (PublicNamespaces (?s channel)) +
      announced_in (private_goes_to config channel t) (PrivateHashNamespaces (?s channel))"
  have same: "same_namespaces S f (?s channel)" if "channel \<in> set (sortedKeys snaps)" for channel
  proof -
    from that obtain s where "map_of snaps channel = Some s" by (auto simp: set_keys)
    with assms(5) show ?thesis by simp
  qed
  have "gather (selected_channel S f config snaps) channels = Inr kvs \<Longrightarrow> set channels \<subseteq> set (sortedKeys snaps) \<Longrightarrow>
      of_nat (length (rows_for t (map row_of kvs))) = sum_list (map ?n channels)" for channels kvs
  proof (induction channels arbitrary: kvs)
    case (Cons channel channels)
    from Cons.prems obtain a rest where a: "selected_channel S f config snaps channel = Inr a"
      and rest: "gather (selected_channel S f config snaps) channels = Inr rest" "kvs = a @ rest" by auto
    from Cons.IH [OF rest(1)] Cons.prems(2) selected_channel_count [OF a same, of t] show ?case by (simp add: rest(2))
  qed (simp add: rows_for_def)
  from this [OF assms(2) [unfolded selected_def]] have "of_nat (length (rows_for t (map row_of recs))) = sum_list (map ?n (sortedKeys snaps))"
    by simp
  also have "\<dots> = (\<Sum>channel\<leftarrow>sortedKeys snaps. \<Sum>m\<leftarrow>Mappings config.
      (if SourceChannel m = channel \<and> TargetNamespace m = t then public_count (?s channel) (SourceNamespace m) else 0) +
      (if SourceChannel m = channel \<and> hashTarget m = t then hash_count (?s channel) (SourceNamespace m) else 0))"
    by (simp only: announced_public [OF assms(3)] announced_private [OF assms(3)] sum_list_addf)
  also have "\<dots> = sum_list (map (contribution snaps t) (Mappings config))"
    by (subst sum_list_swap) (intro sum_list_cong, simp only: contribution_channels [OF assms(4)])
  finally show ?thesis by (simp add: mappingCounts_Inr(1) [OF assms(1)])
qed

lemma pick_public_touched:
  assumes "pick_public config channel rec = Inr kvs" "row \<in> set kvs" "map_of snaps channel = Some s"
  shows "\<exists>m \<in> set (Mappings config). fst row \<in> touched snaps m"
proof -
  from assms(1,2) obtain m where m: "mappingFor config channel (rNamespace rec) = (m, True)" "fst row = TargetNamespace m"
    by (auto simp: pick_public_def split: prod.splits if_splits)
  then have "m \<in> set (Mappings config)" "SourceChannel m = channel"
    by (auto simp: mappingFor_def find_Some_iff split: option.splits)
  with m(2) assms(3) show ?thesis by (intro bexI [of _ m]) (simp_all add: touched_def)
qed

lemma pick_private_touched:
  assumes "pick_private config channel rec = Inr kvs" "row \<in> set kvs" "map_of snaps channel = Some s"
    "rNamespace rec \<in> Name ` set (PrivateHashNamespaces s)"
  shows "\<exists>m \<in> set (Mappings config). fst row \<in> touched snaps m"
proof -
  from assms(1) obtain src coll where split: "SplitHashNamespace (rNamespace rec) = Inr (src, coll)"
    by (auto simp: pick_private_def)
  with assms(1,2) obtain m where m: "mappingFor config channel src = (m, True)" "fst row = hashTarget m"
    by (auto simp: pick_private_def split: prod.splits if_splits)
  then have ms: "m \<in> set (Mappings config)" "SourceChannel m = channel" "SourceNamespace m = src"
    by (auto simp: mappingFor_def find_Some_iff split: option.splits)
  moreover have "hash_source (rNamespace rec) = Some (SourceNamespace m)" using split ms(3) by (simp add: hash_source_def)
  ultimately show ?thesis using m(2) assms(3,4) by (intro bexI [of _ m]) (auto simp: touched_def)
qed

lemma selected_counted:
  assumes "mappingCounts config snaps = Inr counts" "selected S f config snaps = Inr recs" "row \<in> set recs"
    "\<And>channel s. map_of snaps channel = Some s \<Longrightarrow> same_namespaces S f s"
  shows "fst row \<in> set (keys counts)"
proof -
  obtain t rec where row: "row = (t, rec)" by (cases row)
  with assms(2,3) obtain channel kvs where channel: "channel \<in> set (sortedKeys snaps)"
    and kvs: "selected_channel S f config snaps channel = Inr kvs" "row \<in> set kvs"
    unfolding selected_def row using gather_set by blast
  from channel obtain s where s: "map_of snaps channel = Some s" by (auto simp: set_keys)
  with kvs(1) obtain pub a priv b where pub: "snapshot_records S f s ''public_state'' = Inr pub"
    and a: "gather (pick_public config channel) pub = Inr a" and priv: "private_records S f s = Inr priv"
    and b: "gather (pick_private config channel) priv = Inr b" and ab: "kvs = a @ b"
    by (auto simp: selected_channel_def Let_def)
  have "\<exists>m \<in> set (Mappings config). fst row \<in> touched snaps m"
  proof (cases "row \<in> set a")
    case True
    with gather_set [OF a, of row] obtain rec' kvs' where "pick_public config channel rec' = Inr kvs'" "row \<in> set kvs'" by blast
    then show ?thesis using s by (rule pick_public_touched)
  next
    case False
    with kvs(2) ab gather_set [OF b, of row] obtain rec' kvs' where rec': "rec' \<in> set priv"
      "pick_private config channel rec' = Inr kvs'" "row \<in> set kvs'" by auto
    have "has_key (fileHashes s) ''private_state_hashes.data''"
      using priv rec'(1) by (auto simp: private_records_def split: if_splits)
    with priv assms(4) [OF s] have "snapshot_records S f s private_prefix = Inr priv"
      "readNamespaces S f s private_prefix = Inr (PrivateHashNamespaces s)"
      by (simp_all add: private_records_def same_namespaces_def)
    from snapshot_records_sound(1) [OF this]
    have "set (map rNamespace priv) \<subseteq> Name ` set (PrivateHashNamespaces s)" by auto
    with rec'(1) have "rNamespace rec' \<in> Name ` set (PrivateHashNamespaces s)" by auto
    with rec'(2,3) s show ?thesis by (rule pick_private_touched)
  qed
  then show ?thesis by (simp add: mappingCounts_Inr(2) [OF assms(1)])
qed

subsection \<open>The metadata files at the copy\<close>

lemma opened_same_namespaces: "OpenStream S f dir = Inr s \<Longrightarrow> same_namespaces S f s"
  using OpenStream_opened [of S f dir s] by (auto simp: same_namespaces_def split: if_splits)

lemma load_channels:
  assumes "rfold (load_channel S C f options) channels st = Inr st'" "wf_map (snapshots st)"
    "\<And>channel s. map_of (snapshots st) channel = Some s \<Longrightarrow> same_namespaces S f s"
  shows "wf_map (snapshots st') \<and> (\<forall>channel s. map_of (snapshots st') channel = Some s \<longrightarrow> same_namespaces S f s)"
  using assms
proof (induction channels arbitrary: st)
  case (Cons channel channels)
  from Cons.prems(1) obtain st1 where 1: "load_channel S C f options channel st = Inr st1"
    and 2: "rfold (load_channel S C f options) channels st1 = Inr st'" by auto
  from 1 obtain s where s: "OpenStream S f (lookup_string (oSnapshots options) channel) = Inr s"
    "snapshots st1 = AList.update channel s (snapshots st)"
    by (auto simp: load_channel_def split: if_splits)
  show ?case
  proof (rule Cons.IH [OF 2])
    show "wf_map (snapshots st1)" using Cons.prems(2) s(2) by simp
    show "same_namespaces S f s'" if "map_of (snapshots st1) channel' = Some s'" for channel' s'
      using that s Cons.prems(3) opened_same_namespaces by (auto simp: update_conv' split: if_splits)
  qed
qed simp

lemma loaded_snapshots:
  assumes "load_inputs S C f options = Inr (config, target, st)"
  shows "wf_map (snapshots st)" "map_of (snapshots st) channel = Some s \<Longrightarrow> same_namespaces S f s"
proof -
  from assms obtain st0 where "rfold (load_channel S C f options) (sortedKeys (oSnapshots options)) st0 = Inr st" "snapshots st0 = []"
    by (auto simp: load_inputs_def split: if_splits)
  from load_channels [OF this(1)] this(2)
  show "wf_map (snapshots st)" "map_of (snapshots st) channel = Some s \<Longrightarrow> same_namespaces S f s"
    by (auto simp: wf_map_def keys_def)
qed

text \<open>Files with the recorded digests and without collisions announce the same namespaces.\<close>

lemma same_namespaces_later:
  assumes "same_namespaces S f s" "no_collision S f f'" "snapshot_records S f' s ''public_state'' = Inr pub" "private_records S f' s = Inr priv"
  shows "same_namespaces S f' s"
proof -
  from assms(3) obtain nss where nss: "readNamespaces S f' s ''public_state'' = Inr nss" by (auto simp: snapshot_records_parse)
  with assms(1,2) have pub: "readNamespaces S f' s ''public_state'' = Inr (PublicNamespaces s)"
    using readNamespaces_same by (fastforce simp: same_namespaces_def)
  show ?thesis
  proof (cases "has_key (fileHashes s) ''private_state_hashes.data''")
    case True
    with assms(4) obtain nss where "readNamespaces S f' s private_prefix = Inr nss"
      by (auto simp: private_records_def snapshot_records_parse)
    with True assms(1,2) have "readNamespaces S f' s private_prefix = Inr (PrivateHashNamespaces s)"
      using readNamespaces_same by (fastforce simp: same_namespaces_def)
    with pub True show ?thesis by (simp add: same_namespaces_def)
  qed (use assms(1) pub in \<open>simp add: same_namespaces_def\<close>)
qed

lemma selected_same_namespaces:
  assumes "selected S f' config snaps = Inr recs" "map_of snaps channel = Some s" "same_namespaces S f s" "no_collision S f f'"
  shows "same_namespaces S f' s"
proof -
  have "channel \<in> set (sortedKeys snaps)" using assms(2) by (auto simp: set_keys)
  with gather_total [OF assms(1) [unfolded selected_def]] obtain kvs where "selected_channel S f' config snaps channel = Inr kvs" by blast
  with assms(2) obtain pub priv where "snapshot_records S f' s ''public_state'' = Inr pub" "private_records S f' s = Inr priv"
    by (auto simp: selected_channel_def Let_def)
  from same_namespaces_later [OF assms(3,4) this] show ?thesis .
qed

text \<open>For the plan of an import.\<close>

theorem plan_counts:
  assumes "prepare_import E ctx ph options = Inr p" "no_collision (libS E) (fs_load ph) (fs_copy ph)"
    "selected (libS E) (fs_copy ph) (pConfig p) (snapshots (pLoaded p)) = Inr recs"
  shows "of_nat (length (rows_for t (map row_of recs))) = lookup_count (pCounts p) t"
    and "row \<in> set recs \<Longrightarrow> fst row \<in> set (keys (pCounts p))"
proof -
  from prepare_import_parts [OF assms(1)] obtain target where
    load: "load_inputs (libS E) (libC E) (fs_load ph) options = Inr (pConfig p, target, pLoaded p)"
    and counts: "mappingCounts (pConfig p) (snapshots (pLoaded p)) = Inr (pCounts p)" by blast
  have same: "same_namespaces (libS E) (fs_copy ph) s" if "map_of (snapshots (pLoaded p)) channel = Some s" for channel s
    by (rule selected_same_namespaces [OF assms(3) that loaded_snapshots(2) [OF load that] assms(2)])
  have "distinct (map source_of (Mappings (pConfig p)))"
    using load_inputs_Inr(1) [OF load] by (simp add: config_ok_def)
  from counted_is_selected [OF counts assms(3) this loaded_snapshots(1) [OF load] same]
  show "of_nat (length (rows_for t (map row_of recs))) = lookup_count (pCounts p) t" .
  show "row \<in> set recs \<Longrightarrow> fst row \<in> set (keys (pCounts p))"
    by (rule selected_counted [OF counts assms(3) _ same])
qed

end
