(* ===== verification/ImportLive.thy ===== *)
theory ImportLive
  imports ImportEffect Counting
begin

text \<open>
  When an import succeeds. \<open>importable\<close> is what a database must hold beforehand; over a database that is
  up (\<open>sql_running\<close>) every step of the transaction succeeds from there, so the conditions under which
  \<open>Import\<close> returns a result are exactly the documented ones.
\<close>

subsection \<open>What the database must hold beforehand\<close>

definition importable ::
  "('o, 'db, 'tx) libs \<Rightarrow> plan \<Rightarrow> target_row list \<Rightarrow> (string \<Rightarrow> table option) \<Rightarrow> bool" where
  "importable E p ts before \<longleftrightarrow>
     (let D = libD E; meta = MetaNamespaceID D; config = ConfigNamespaceID D in
      (\<forall>n \<in> set (keys (pCounts p)).
         or_empty (before n) = Map.empty \<and>
         distinct (map fst (rows_for n ts)) \<and> length (rows_for n ts) < 2 ^ 64 \<and>
         lookup_policy (pPolicies p) n \<noteq> [] \<and>
         entry_compatible D (libC E) meta (lookup_policy (pPolicies p) n) (or_empty (before meta) (bytes_of_string n))) \<and>
      pEnvelope p \<noteq> [] \<and>
      entry_compatible D (libC E) config (pEnvelope p) (or_empty (before config) (bytes_of_string (ConfigKey D))))"

lemma imported_importable: "imported E valid p ts before after \<Longrightarrow> importable E p ts before"
proof -
  have "unat (w :: uint64) < 2 ^ 64" for w using uint_lt2p [of w] by (simp add: unat_eq_nat_uint nat_less_iff del: nat_uint_eq)
  moreover assume "imported E valid p ts before after"
  ultimately show ?thesis unfolding imported_def importable_def Let_def by (metis (no_types, lifting))
qed

lemma importable_cong:
  assumes "importable E p ts before" "\<And>n. n \<in> set (keys (pCounts p)) \<Longrightarrow> before' n = before n"
    "before' (MetaNamespaceID (libD E)) = before (MetaNamespaceID (libD E))"
    "before' (ConfigNamespaceID (libD E)) = before (ConfigNamespaceID (libD E))"
  shows "importable E p ts before'"
  using assms unfolding importable_def Let_def by simp

text \<open>The context is never cancelled while the \<open>n\<close> records from the \<open>k\<close>-th poll on are copied.\<close>

definition calm :: "go_context \<Rightarrow> nat \<Rightarrow> nat \<Rightarrow> bool" where
  "calm ctx k n \<longleftrightarrow> (\<forall>i < n. ctx_Err ctx (k + i) = None)"

lemma calm_Suc: "calm ctx k (Suc n) \<longleftrightarrow> ctx_Err ctx k = None \<and> calm ctx (Suc k) n"
proof -
  have "(\<forall>i < Suc n. ctx_Err ctx (k + i) = None) \<longleftrightarrow> ctx_Err ctx k = None \<and> (\<forall>i < n. ctx_Err ctx (Suc k + i) = None)"
    by (auto simp: less_Suc_eq_0_disj)
  then show ?thesis by (simp add: calm_def)
qed

lemma copy_record_calm: "copy_record D ctx t rec (n, b) = Inr (n', b') \<Longrightarrow> ctx_Err ctx n = None \<and> n' = Suc n"
  by (auto simp: copy_record_def Let_def split: option.splits if_splits)

lemma copy_records_calm:
  "rfold (uncurried (copy_record D ctx)) recs (n, b) = Inr (n', b') \<Longrightarrow> calm ctx n (length recs)"
proof (induction recs arbitrary: n b)
  case (Cons row recs)
  obtain t rec where row: "row = (t, rec)" by (cases row)
  with Cons.prems obtain n1 b1 where 1: "copy_record D ctx t rec (n, b) = Inr (n1, b1)"
    and 2: "rfold (uncurried (copy_record D ctx)) recs (n1, b1) = Inr (n', b')" by auto
  from copy_record_calm [OF 1] Cons.IH [OF 2] show ?case by (simp add: calm_Suc)
qed (simp add: calm_def)

subsection \<open>Every step succeeds\<close>

context sql_running
begin

lemma insert_rows_runs:
  assumes "valid (fst b)" "rows tx (fst b) = Some r" "distinct (map fst (snd b))" "fst ` set (snd b) \<inter> dom r = {}"
  shows "\<exists>tx'. insert_rows D b tx = Inr tx'"
proof -
  obtain t kvs where b: "b = (t, kvs)" by (cases b)
  from insert_batch_runs [of t tx r "map snd kvs" "map fst kvs"] assms b obtain a tx' where
    step: "Exec D (sql_insert_batch (namespaceTable D t)) [ByteaArray (map fst kvs), ByteaArray (map snd kvs)] tx = Inr (a, tx')"
    by auto
  from insert_batch [OF _ _ step] assms(1) b have "a = int (length kvs)" by auto
  with step b show ?thesis by (simp add: insert_rows_def)
qed

lemma ensureEntry_runs:
  assumes "valid n" "rows tx n = Some r" "val \<noteq> []" "entry_compatible D C n val (r (bytes_of_string key))"
  shows "\<exists>tx'. ensureEntry D C n key val tx = Inr tx'"
proof -
  let ?k = "bytes_of_string key" and ?table = "namespaceTable D n"
  from insert_entry_runs [OF assms(1,2)] obtain a tx1 where
    1: "Exec D (sql_insert_entry ?table) [Bytea ?k, Bytea val] tx = Inr (a, tx1)" by blast
  from insert_entry [OF assms(1) 1] assms(2) have rows1: "rows tx1 n = Some (insert_new ?k val r)" by (auto simp: becomes_def)
  have "?k \<in> dom (insert_new ?k val r)" by (auto simp: insert_new_def split: option.split)
  from select_entry_runs [OF assms(1) rows1 this] obtain row tx2 where
    2: "QueryRow D (sql_select_entry ?table) [Bytea ?k] tx1 = Inr (row, tx2)" by blast
  from select_entry [OF assms(1) 2] rows1 obtain v ver where row: "insert_new ?k val r ?k = Some (v, ver)" "row = [VBytea v, VInt ver]"
    and "\<forall>m. valid m \<longrightarrow> rows tx2 m = rows tx1 m" by auto
  with assms(1) rows1 have rows2: "rows tx2 n = Some (insert_new ?k val r)" by simp
  let ?v = "case v of None \<Rightarrow> [] | Some bs \<Rightarrow> bs"
  have new: "insert_new ?k val r ?k = (case r ?k of None \<Rightarrow> Some (Some val, 0) | Some x \<Rightarrow> Some x)"
    by (auto simp: insert_new_def split: option.split)
  have ver: "ver = 0" and v: "?v = val \<or> (n = ConfigNamespaceID D \<and> same_channel_config C ?v val)"
    using assms(4) row(1) unfolding new entry_compatible_def by auto
  have scan: "scan2 scan_bytes scan_uint64 row = Inr (?v, 0)" using row(2) ver by (cases v) simp_all
  from update_entry_runs [OF assms(1) rows2] obtain a' tx3 where
    3: "Exec D (sql_update_entry ?table) [Bytea ?k, Bytea val] tx2 = Inr (a', tx3)" by blast
  show ?thesis using assms(3) 1 2 3 scan v by (cases "?v = val") (simp_all add: ensureEntry_def Let_def)
qed

lemma create_system_runs:
  "\<forall>n \<in> set ns. valid n \<Longrightarrow> \<exists>tx'. rfold (create_system D) ns tx = Inr tx'"
proof (induction ns arbitrary: tx)
  case (Cons n ns)
  from create_table_runs [of n tx] Cons.prems obtain a tx1 where "Exec D (MakeNsTablesQuery D n) [] tx = Inr (a, tx1)" by auto
  with Cons.IH [of tx1] Cons.prems show ?case by (simp add: create_system_def)
qed simp

lemma create_namespace_runs:
  assumes "valid n" "valid (MetaNamespaceID D)" "n \<noteq> MetaNamespaceID D" "rows tx (MetaNamespaceID D) = Some r0"
    "or_empty (rows tx n) = Map.empty" "lookup_policy ps n \<noteq> []"
    "entry_compatible D C (MetaNamespaceID D) (lookup_policy ps n) (r0 (bytes_of_string n))"
  shows "\<exists>tx'. create_namespace D C ps n tx = Inr tx'"
proof -
  from create_table_runs [OF assms(1)] obtain a tx1 where 1: "Exec D (MakeNsTablesQuery D n) [] tx = Inr (a, tx1)" by blast
  have c: "becomes rows valid tx tx1 n (Some Map.empty)"
    using create_table [OF assms(1) 1] assms(5) by (simp add: or_empty_def)
  then have rows1: "rows tx1 n = Some Map.empty" by (simp add: becomes_def)
  from has_rows_runs [OF assms(1) rows1] obtain row tx2 where
    2: "QueryRow D (sql_has_rows (namespaceTable D n)) [] tx1 = Inr (row, tx2)" by blast
  from has_rows [OF assms(1) 2] rows1 have row: "row = [VBool False]" and same: "\<forall>m. valid m \<longrightarrow> rows tx2 m = rows tx1 m" by auto
  have "rows tx2 (MetaNamespaceID D) = Some r0" using c same assms(2-4) by (auto simp: becomes_def)
  from ensureEntry_runs [OF assms(2) this assms(6,7)] 1 2 row show ?thesis
    by (simp add: create_namespace_def)
qed

lemma create_namespaces_runs:
  assumes "distinct ns" "\<forall>n \<in> set ns. valid n \<and> n \<noteq> MetaNamespaceID D" "valid (MetaNamespaceID D)"
    "rows tx (MetaNamespaceID D) = Some r0"
    "\<forall>n \<in> set ns. or_empty (rows tx n) = Map.empty \<and> lookup_policy ps n \<noteq> [] \<and>
       entry_compatible D C (MetaNamespaceID D) (lookup_policy ps n) (r0 (bytes_of_string n))"
  shows "\<exists>tx'. rfold (create_namespace D C ps) ns tx = Inr tx'"
  using assms(1,2,4,5)
proof (induction ns arbitrary: tx r0)
  case (Cons n ns)
  have n: "valid n" "n \<noteq> MetaNamespaceID D" "n \<notin> set ns" using Cons.prems(1,2) by auto
  have "or_empty (rows tx n) = Map.empty" "lookup_policy ps n \<noteq> []"
    "entry_compatible D C (MetaNamespaceID D) (lookup_policy ps n) (r0 (bytes_of_string n))" using Cons.prems(4) by simp_all
  from create_namespace_runs [OF n(1) assms(3) n(2) Cons.prems(3) this] obtain tx1 where
    1: "create_namespace D C ps n tx = Inr tx1" by blast
  note e = create_namespace_effect [OF 1 n(1) assms(3) n(2) Cons.prems(3)]
  have inj: "bytes_of_string a = bytes_of_string b \<longleftrightarrow> a = b" for a b by (metis string_of_bytes_of_string)
  have "or_empty (rows tx1 m) = Map.empty \<and> lookup_policy ps m \<noteq> [] \<and> entry_compatible D C (MetaNamespaceID D)
      (lookup_policy ps m) ((r0(bytes_of_string n \<mapsto> (Some (lookup_policy ps n), 0))) (bytes_of_string m))" if m: "m \<in> set ns" for m
  proof -
    have "m \<noteq> n" using m n(3) by blast
    moreover have "rows tx1 m = rows tx m" using e m Cons.prems(2) \<open>m \<noteq> n\<close> by simp
    ultimately show ?thesis using Cons.prems(4) m by (simp add: inj)
  qed
  then have all: "\<forall>m \<in> set ns. or_empty (rows tx1 m) = Map.empty \<and> lookup_policy ps m \<noteq> [] \<and> entry_compatible D C (MetaNamespaceID D)
      (lookup_policy ps m) ((r0(bytes_of_string n \<mapsto> (Some (lookup_policy ps n), 0))) (bytes_of_string m))" by blast
  have meta1: "rows tx1 (MetaNamespaceID D) = Some (r0(bytes_of_string n \<mapsto> (Some (lookup_policy ps n), 0)))" using e by blast
  have "distinct ns" "\<forall>n \<in> set ns. valid n \<and> n \<noteq> MetaNamespaceID D" using Cons.prems(1,2) by simp_all
  from Cons.IH [OF this meta1 all] have "\<exists>tx'. rfold (create_namespace D C ps) ns tx1 = Inr tx'" .
  with 1 show ?case by simp
qed simp

text \<open>
  The copy loop, for the rows \<open>ts\<close> already walked: they have been inserted but for the pending batch.
\<close>

definition copied :: "'tx \<Rightarrow> target_row list \<Rightarrow> 'tx state_batch \<Rightarrow> bool" where
  "copied tx ts b \<longleftrightarrow> batch_ok b \<and> length (sKeys b) < insertBatchSize \<and>
     (\<exists>bs. rfold (insert_rows D) bs tx = Inr (sTx b) \<and> concat (map batch_list bs) @ batch_list (pending b) = ts \<and>
       (\<forall>b \<in> set bs. small_batch b))"

text \<open>The rows can be inserted: into empty tables, with no key twice.\<close>

definition insertable :: "'tx \<Rightarrow> target_row list \<Rightarrow> bool" where
  "insertable tx ts \<longleftrightarrow> (\<forall>n \<in> fst ` set ts. valid n \<and> n \<noteq> [] \<and> rows tx n = Some Map.empty \<and> distinct (map fst (rows_for n ts)))"

lemma insertable_append: "insertable tx (ts @ us) \<Longrightarrow> insertable tx ts"
  by (auto simp: insertable_def)

lemma flush_runs:
  assumes "rfold (insert_rows D) bs tx = Inr (sTx b)" "concat (map batch_list bs) @ batch_list (pending b) = ts"
    "\<forall>b \<in> set bs. small_batch b" "batch_ok b" "insertable tx ts"
  shows "\<exists>b'. flush D b = Inr b'"
proof (cases "sKeys b = []")
  case True
  then show ?thesis by (simp add: flush_def)
next
  case False
  have zips: "map fst (zip (sKeys b) (sValues b)) = sKeys b" "map snd (zip (sKeys b) (sValues b)) = sValues b"
    using assms(4) by (simp_all add: batch_ok_def)
  then have pend: "snd (pending b) \<noteq> []" using False by (auto simp: pending_def)
  have in_ts: "fst c \<in> fst ` set ts" if sub: "set (batch_list c) \<subseteq> set ts" and some: "snd c \<noteq> []" for c
  proof -
    obtain k v where "(k, v) \<in> set (snd c)" using some by (cases "snd c") auto
    then have "(fst c, k, v) \<in> set ts" using sub by (force simp: batch_list_def)
    then show ?thesis by force
  qed
  have bs_valid: "\<forall>c \<in> set bs. valid (fst c)"
  proof
    fix c assume c: "c \<in> set bs"
    have "set (batch_list c) \<subseteq> set ts" using c assms(2) by auto
    moreover have "snd c \<noteq> []" using c assms(3) by (auto simp: small_batch_def)
    ultimately show "valid (fst c)" using in_ts assms(5) unfolding insertable_def by blast
  qed
  let ?n = "sTarget b"
  have "?n \<in> fst ` set ts" using in_ts [of "pending b"] pend assms(2) by (auto simp: pending_def)
  with assms(5) have n: "valid ?n" "rows tx ?n = Some Map.empty" "distinct (map fst (rows_for ?n ts))"
    by (auto simp: insertable_def)
  from insert_all_effect [OF assms(1) bs_valid n(1,2)]
  have rows_n: "rows (sTx b) ?n = Some (row_table (rows_for ?n (concat (map batch_list bs))))" by simp
  have "rows_for ?n ts = rows_for ?n (concat (map batch_list bs)) @ snd (pending b)"
    by (simp add: assms(2) [symmetric] rows_for_batch) (simp add: pending_def)
  with n(3) have "distinct (map fst (snd (pending b)))"
    "fst ` set (snd (pending b)) \<inter> dom (row_table (rows_for ?n (concat (map batch_list bs)))) = {}" by auto
  with insert_rows_runs [of "pending b" "sTx b"] n(1) rows_n obtain tx' where
    "insert_rows D (pending b) (sTx b) = Inr tx'" by (auto simp: pending_def)
  with False show ?thesis unfolding insert_rows_def pending_def prod.case zips
    by (auto simp: flush_def zip_eq_Nil_iff assms(4) [unfolded batch_ok_def] split: if_splits)
qed

lemma copy_record_runs:
  assumes "copied tx ts b" "insertable tx (ts @ [row_of (t, rec)])" "ctx_Err ctx n = None"
  shows "\<exists>b'. copy_record D ctx t rec (n, b) = Inr (Suc n, b') \<and> copied tx (ts @ [row_of (t, rec)]) b'"
proof -
  from assms(1) obtain bs where bs: "rfold (insert_rows D) bs tx = Inr (sTx b)"
    "concat (map batch_list bs) @ batch_list (pending b) = ts" "\<forall>b \<in> set bs. small_batch b"
    and ok: "batch_ok b" "length (sKeys b) < insertBatchSize" by (auto simp: copied_def)
  have t: "t \<noteq> []" using assms(2) by (auto simp: insertable_def row_of_def)
  let ?flush1 = "if sTarget b \<noteq> [] \<and> sTarget b \<noteq> t then flush D b else Inr b"
  obtain b1 bs1 where b1: "?flush1 = Inr b1" "rfold (insert_rows D) bs1 tx = Inr (sTx b1)"
    "concat (map batch_list bs1) @ batch_list (pending b1) = ts" "\<forall>b \<in> set bs1. small_batch b"
    "length (sValues b1) = length (sKeys b1)" "sKeys b1 = [] \<or> sTarget b1 = t"
  proof (cases "sTarget b \<noteq> [] \<and> sTarget b \<noteq> t")
    case True
    from flush_runs [OF bs ok(1) insertable_append [OF assms(2)]] obtain b1 where b1: "flush D b = Inr b1" by blast
    from flush_Inr [OF b1 ok(1)] ok(2) obtain bs' where "rfold (insert_rows D) bs' (sTx b) = Inr (sTx b1)"
      "concat (map batch_list bs') = batch_list (pending b)" "\<forall>b \<in> set bs'. small_batch b" "sKeys b1 = []" "sValues b1 = []" by auto
    with that [of b1 "bs @ bs'"] b1 bs True show ?thesis
      by (auto simp: rfold_append pending_def batch_list_def)
  next
    case False
    with that [of b bs] bs ok show ?thesis by (auto simp: batch_ok_def)
  qed
  let ?b2 = "b1\<lparr>sTarget := t, sKeys := sKeys b1 @ [rKey rec], sValues := sValues b1 @ [record_value rec]\<rparr>"
  have pend2: "batch_list (pending ?b2) = batch_list (pending b1) @ [row_of (t, rec)]"
    using b1(5,6) by (auto simp: batch_list_def pending_def row_of_def)
  have "batch_ok ?b2" using b1(5) t by (simp add: batch_ok_def)
  from flush_runs [of bs1 tx ?b2, OF _ _ b1(4) this assms(2)] b1(2,3) pend2 obtain b3 where "flush D ?b2 = Inr b3" by auto
  with b1(1) assms(3) have "\<exists>b'. copy_record D ctx t rec (n, b) = Inr (Suc n, b')"
    by (cases "Suc (length (sKeys b1)) = insertBatchSize") (simp_all add: copy_record_def Let_def)
  then obtain b' where step: "copy_record D ctx t rec (n, b) = Inr (Suc n, b')" by blast
  from copy_record_Inr [OF step ok t] obtain bs' where "rfold (insert_rows D) bs' (sTx b) = Inr (sTx b')"
    "concat (map batch_list bs') @ batch_list (pending b') = batch_list (pending b) @ [row_of (t, rec)]"
    "\<forall>b \<in> set bs'. small_batch b" "batch_ok b'" "length (sKeys b') < insertBatchSize" by blast
  with bs step show ?thesis
    by (intro exI [of _ b']) (auto simp: copied_def rfold_append intro!: exI [of _ "bs @ bs'"])
qed

lemma copy_records_runs:
  assumes "copied tx ts b" "insertable tx (ts @ map row_of recs)" "calm ctx n (length recs)"
  shows "\<exists>n' b'. rfold (uncurried (copy_record D ctx)) recs (n, b) = Inr (n', b') \<and> copied tx (ts @ map row_of recs) b'"
  using assms
proof (induction recs arbitrary: ts n b)
  case (Cons row recs)
  obtain t rec where row: "row = (t, rec)" by (cases row)
  have "insertable tx (ts @ [row_of row])" using Cons.prems(2) insertable_append [of tx "ts @ [row_of row]"] by simp
  from copy_record_runs [OF Cons.prems(1) this [unfolded row]] Cons.prems(3) obtain b1 where
    1: "copy_record D ctx t rec (n, b) = Inr (Suc n, b1)" "copied tx (ts @ [row_of row]) b1"
    by (auto simp: calm_Suc row)
  from Cons.IH [OF 1(2)] Cons.prems(2,3) 1(1) show ?case by (auto simp: calm_Suc row)
qed auto

lemma copy_runs:
  assumes "insertable tx (map row_of recs)" "calm ctx n (length recs)"
  shows "\<exists>n' b b'. rfold (uncurried (copy_record D ctx)) recs (n, \<lparr>sTx = tx, sTarget = [], sKeys = [], sValues = []\<rparr>) = Inr (n', b) \<and>
    flush D b = Inr b'"
proof -
  let ?b = "\<lparr>sTx = tx, sTarget = [], sKeys = [], sValues = []\<rparr>"
  have "copied tx [] ?b"
    by (auto simp: copied_def batch_ok_def insertBatchSize_def pending_def batch_list_def intro!: exI [of _ "[]"])
  from copy_records_runs [OF this _ assms(2)] assms(1) obtain n' b where
    1: "rfold (uncurried (copy_record D ctx)) recs (n, ?b) = Inr (n', b)" "copied tx (map row_of recs) b" by auto
  then obtain bs where "rfold (insert_rows D) bs tx = Inr (sTx b)" "concat (map batch_list bs) @ batch_list (pending b) = map row_of recs"
    "\<forall>b \<in> set bs. small_batch b" "batch_ok b" by (auto simp: copied_def)
  from flush_runs [OF this assms(1)] 1(1) show ?thesis by blast
qed

lemma verify_namespace_runs:
  assumes "valid n" "rows tx n = Some (row_table kvs)" "distinct (map fst kvs)" "length kvs = unat (lookup_count cs n)"
  shows "\<exists>st'. verify_namespace D cs ps n (acc, results, tx) = Inr st'"
proof -
  have "finite (dom (row_table kvs))" by (simp add: row_table_def finite_dom_map_of)
  from count_rows_runs [OF assms(1,2) this] obtain row tx' where
    1: "QueryRow D (sql_count (namespaceTable D n)) [] tx = Inr (row, tx')" by blast
  have wrong: "{k. \<exists>v version. row_table kvs k = Some (v, version) \<and> version \<noteq> 0} = {}"
    by (auto simp: row_table_def dest!: map_of_SomeD)
  have "card (dom (row_table kvs)) = unat (lookup_count cs n)"
    using assms(4) distinct_card [OF assms(3)] by simp
  with count_rows [OF assms(1) 1] assms(2) wrong have row: "row = [VInt (int (unat (lookup_count cs n))), VInt 0]" by auto
  have "int (unat (lookup_count cs n)) < 2 ^ 64" using uint_lt2p [of "lookup_count cs n"] by simp
  then have "scan_uint64 (VInt (int (unat (lookup_count cs n)))) = Inr (lookup_count cs n)"
    by (simp add: scan_uint64_Inr)
  with row have "scan2 scan_uint64 scan_uint64 row = Inr (lookup_count cs n, 0)" by simp
  with 1 show ?thesis by (simp add: verify_namespace_def)
qed

lemma verify_runs:
  assumes "\<forall>n \<in> set ns. \<exists>kvs. valid n \<and> rows tx n = Some (row_table kvs) \<and> distinct (map fst kvs) \<and> length kvs = unat (lookup_count cs n)"
  shows "\<exists>st'. rfold (verify_namespace D cs ps) ns (acc, results, tx) = Inr st'"
  using assms
proof (induction ns arbitrary: acc results tx)
  case (Cons n ns)
  from Cons.prems have "\<exists>kvs. valid n \<and> rows tx n = Some (row_table kvs) \<and> distinct (map fst kvs) \<and> length kvs = unat (lookup_count cs n)"
    by simp
  then obtain kvs where n: "valid n" "rows tx n = Some (row_table kvs)" "distinct (map fst kvs)" "length kvs = unat (lookup_count cs n)"
    by blast
  from verify_namespace_runs [OF n, of ps acc results] obtain acc1 results1 tx1 where
    1: "verify_namespace D cs ps n (acc, results, tx) = Inr (acc1, results1, tx1)" by (metis prod_cases3)
  have "rfold (verify_namespace D cs ps) [n] (acc, results, tx) = Inr (acc1, results1, tx1)" using 1 by simp
  from verify_loop [OF this] n(1) have "\<forall>m. valid m \<longrightarrow> rows tx1 m = rows tx m" by simp
  with Cons.prems have "\<forall>n \<in> set ns. \<exists>kvs. valid n \<and> rows tx1 n = Some (row_table kvs) \<and> distinct (map fst kvs) \<and> length kvs = unat (lookup_count cs n)"
    by simp
  from Cons.IH [OF this] 1 show ?case by simp
qed simp

end

locale import_running = import_env E rows valid stored + sql_running "libD E" rows valid stored
  for E :: "('o, 'db, 'tx) libs" and rows :: "'tx \<Rightarrow> string \<Rightarrow> table option" and valid :: "string \<Rightarrow> bool"
    and stored :: "'db \<Rightarrow> string \<Rightarrow> table option"

context import_running
begin

lemma import_tx_runs:
  assumes "plan_ok E p" "selected (libS E) (fs_copy ph) (pConfig p) (snapshots (pLoaded p)) = Inr recs"
    "importable E p (map row_of recs) (rows tx)" "calm ctx (pPolls p) (length recs)"
    "revalidate_inputs (libS E) (fs_recheck ph) (inputs (pLoaded p)) (snapshots (pLoaded p)) = Inr ()"
    "\<And>n. of_nat (length (rows_for n (map row_of recs))) = lookup_count (pCounts p) n"
    "\<And>row. row \<in> set recs \<Longrightarrow> fst row \<in> set (keys (pCounts p))"
  shows "\<exists>result tx'. import_tx E ctx ph p tx = Inr (result, tx')"
proof -
  let ?D = "libD E" and ?C = "libC E" and ?T = "targets (pConfig p)" and ?ns = "sortedKeys (pCounts p)"
  let ?meta = "MetaNamespaceID ?D" and ?config = "ConfigNamespaceID ?D" and ?sys = "SystemNamespaces ?D"
  let ?ts = "map row_of recs"
  have wf: "wf_map (pCounts p)" and keys: "set ?ns \<subseteq> ?T" using assms(1) by (simp_all add: plan_ok_def)
  note target = plan_targets [OF assms(1)]
  have sys: "valid m" if "m \<in> set ?sys" for m using valid_system that by blast
  note valid_sys = sys [OF system_meta] sys [OF system_config]
  note before = assms(3) [unfolded importable_def Let_def]
  from system_tables_runs obtain a tx1 where 1: "Exec ?D (systemSQL ?D) [] tx = Inr (a, tx1)" by blast
  have "\<forall>n \<in> set ?sys. valid n" using sys by blast
  from create_system_runs [OF this] obtain tx2 where 2: "rfold (create_system ?D) ?sys tx1 = Inr tx2" by blast
  have rows2: "rows tx2 m = (if m \<in> set ?sys then Some (or_empty (rows tx m)) else rows tx m)" if "valid m" for m
    using create_system_loop [OF 2 _ that] sys system_tables [OF that 1] by simp
  have config2: "rows tx2 ?config = Some (or_empty (rows tx ?config))" using rows2 [OF valid_sys(2)] system_config by simp
  from before have "pEnvelope p \<noteq> []" "entry_compatible ?D ?C ?config (pEnvelope p) (or_empty (rows tx ?config) (bytes_of_string (ConfigKey ?D)))"
    by blast+
  from ensureEntry_runs [OF valid_sys(2) config2 this] obtain tx3 where
    3: "ensureEntry ?D ?C ?config (ConfigKey ?D) (pEnvelope p) tx2 = Inr tx3" by blast
  from ensureEntry_effect [OF 3 valid_sys(2)] have rows3: "\<And>m. valid m \<Longrightarrow> m \<noteq> ?config \<Longrightarrow> rows tx3 m = rows tx2 m"
    by (auto simp: becomes_def)
  have meta3: "rows tx3 ?meta = Some (or_empty (rows tx ?meta))"
    using rows3 [OF valid_sys(1)] rows2 [OF valid_sys(1)] config_meta system_meta by simp
  have ns: "valid n" "n \<noteq> ?meta" "n \<noteq> []" "rows tx3 n = rows tx n" if "n \<in> set ?ns" for n
  proof -
    have T: "n \<in> ?T" using keys that by blast
    show "valid n" "n \<noteq> ?meta" "n \<noteq> []" using target [OF T] by simp_all
    show "rows tx3 n = rows tx n"
      using rows3 [OF target(1) [OF T]] rows2 [OF target(1) [OF T]] target(3,5) [OF T] by simp
  qed
  have ns_valid: "\<forall>n \<in> set ?ns. valid n \<and> n \<noteq> ?meta" using ns by blast
  have "\<forall>n \<in> set ?ns. or_empty (rows tx3 n) = Map.empty \<and> lookup_policy (pPolicies p) n \<noteq> [] \<and>
      entry_compatible ?D ?C ?meta (lookup_policy (pPolicies p) n) (or_empty (rows tx ?meta) (bytes_of_string n))"
  proof
    fix n assume n: "n \<in> set ?ns"
    then have "n \<in> set (keys (pCounts p))" by simp
    with before ns(4) [OF n] show "or_empty (rows tx3 n) = Map.empty \<and> lookup_policy (pPolicies p) n \<noteq> [] \<and>
      entry_compatible ?D ?C ?meta (lookup_policy (pPolicies p) n) (or_empty (rows tx ?meta) (bytes_of_string n))" by simp
  qed
  from create_namespaces_runs [OF distinct_sortedKeys [OF wf] ns_valid valid_sys(1) meta3 this]
  obtain tx4 where 4: "rfold (create_namespace ?D ?C (pPolicies p)) ?ns tx3 = Inr tx4" by blast
  note empty4 = create_namespaces_loop [OF 4 distinct_sortedKeys [OF wf] ns_valid valid_sys(1) meta3, THEN conjunct1]
  have ins: "insertable tx4 ?ts"
    unfolding insertable_def
  proof
    fix n assume "n \<in> fst ` set ?ts"
    then have n: "n \<in> set ?ns" using assms(7) by (auto simp: row_of_def)
    with before have "distinct (map fst (rows_for n ?ts))" by simp
    with n ns empty4 show "valid n \<and> n \<noteq> [] \<and> rows tx4 n = Some Map.empty \<and> distinct (map fst (rows_for n ?ts))" by blast
  qed
  let ?b = "\<lparr>sTx = tx4, sTarget = [], sKeys = [], sValues = []\<rparr>"
  from copy_runs [OF ins assms(4)] obtain n' b b' where
    copy: "rfold (uncurried (copy_record ?D ctx)) recs (pPolls p, ?b) = Inr (n', b)" and 6: "flush ?D b = Inr b'" by blast
  have 5: "walk (libS E) (fs_copy ph) (pConfig p) (snapshots (pLoaded p)) (copy_record ?D ctx) (pPolls p, ?b) = Inr (n', b)"
    unfolding walk_selected using assms(2) copy by blast
  have "\<forall>row \<in> set recs. fst row \<noteq> []" using assms(7) ns(3) by simp
  from copy_batches [OF copy 6 this] obtain bs where bs: "rfold (insert_rows ?D) bs tx4 = Inr (sTx b')"
    "concat (map batch_list bs) = ?ts" "\<forall>b \<in> set bs. small_batch b" by blast
  have b_valid: "\<forall>b \<in> set bs. valid (fst b)"
    using batch_targets [OF bs(2,3)] assms(7) ns(1) by simp
  have "\<exists>kvs. valid n \<and> rows (sTx b') n = Some (row_table kvs) \<and> distinct (map fst kvs) \<and>
      length kvs = unat (lookup_count (pCounts p) n)" if n: "n \<in> set ?ns" for n
  proof -
    from empty4 n have "rows tx4 n = Some Map.empty" by blast
    from insert_all_effect [OF bs(1) b_valid ns(1) [OF n] this] have
      "distinct (map fst (rows_for n ?ts))" "rows (sTx b') n = Some (row_table (rows_for n ?ts))" by (simp_all add: bs(2))
    moreover from before n have "length (rows_for n ?ts) < 2 ^ 64" by simp
    then have "length (rows_for n ?ts) = unat (lookup_count (pCounts p) n)"
      by (simp add: assms(6) [symmetric] unsigned_of_nat take_bit_nat_eq_self)
    ultimately show ?thesis using ns(1) [OF n] by blast
  qed
  then have "\<forall>n \<in> set ?ns. \<exists>kvs. valid n \<and> rows (sTx b') n = Some (row_table kvs) \<and> distinct (map fst kvs) \<and>
      length kvs = unat (lookup_count (pCounts p) n)" by blast
  from verify_runs [OF this] obtain recordCount results tx' where
    7: "rfold (verify_namespace ?D (pCounts p) (pPolicies p)) ?ns (0, [], sTx b') = Inr (recordCount, results, tx')"
    by (metis prod_cases3)
  show ?thesis using 1 2 3 4 5 6 7 assms(5) by (simp add: import_tx_def Let_def)
qed

text \<open>The exact conditions under which an import succeeds.\<close>

theorem Import_succeeds:
  assumes "no_collision (libS E) (fs_load ph) (fs_copy ph)"
  shows "(\<exists>result db'. Import E ctx ph options (Some db) = (Inr result, Some db')) \<longleftrightarrow>
    (\<exists>p recs. prepare_import E ctx ph options = Inr p \<and> check_database (libD E) db = Inr () \<and>
       selected (libS E) (fs_copy ph) (pConfig p) (snapshots (pLoaded p)) = Inr recs \<and>
       calm ctx (pPolls p) (length recs) \<and> importable E p (map row_of recs) (stored db) \<and>
       revalidate_inputs (libS E) (fs_recheck ph) (inputs (pLoaded p)) (snapshots (pLoaded p)) = Inr ())" (is "?l \<longleftrightarrow> ?r")
proof
  assume ?l
  then obtain result db' where i: "Import E ctx ph options (Some db) = (Inr result, Some db')" by blast
  then obtain p tx tx' db1 where p: "prepare_import E ctx ph options = Inr p" "BeginTx (libD E) db = Inr tx"
    "import_tx E ctx ph p tx = Inr (result, tx')" "Commit (libD E) tx' db = (Inr (), db1)"
    by (rule Import_Inr)
  have checked: "check_database (libD E) db = Inr ()"
    using i p(1) by (auto simp: Import_def split: sum.splits)
  from import_complete [OF i] p(1) obtain recs where
    recs: "selected (libS E) (fs_copy ph) (pConfig p) (snapshots (pLoaded p)) = Inr recs"
    and after: "imported E valid p (map row_of recs) (stored db) (stored db')"
    and recheck: "revalidate_inputs (libS E) (fs_recheck ph) (inputs (pLoaded p)) (snapshots (pLoaded p)) = Inr ()" by auto
  from p(3) obtain tx4 n batch where
    "walk (libS E) (fs_copy ph) (pConfig p) (snapshots (pLoaded p)) (copy_record (libD E) ctx)
       (pPolls p, \<lparr>sTx = tx4, sTarget = [], sKeys = [], sValues = []\<rparr>) = Inr (n, batch)"
    by (rule import_tx_steps)
  with recs have "calm ctx (pPolls p) (length recs)" unfolding walk_selected using copy_records_calm by fastforce
  with p(1) checked recs imported_importable [OF after] recheck show ?r by blast
next
  assume ?r
  then obtain p recs where p: "prepare_import E ctx ph options = Inr p" "check_database (libD E) db = Inr ()"
    and recs: "selected (libS E) (fs_copy ph) (pConfig p) (snapshots (pLoaded p)) = Inr recs"
    and rest: "calm ctx (pPolls p) (length recs)" "importable E p (map row_of recs) (stored db)"
      "revalidate_inputs (libS E) (fs_recheck ph) (inputs (pLoaded p)) (snapshots (pLoaded p)) = Inr ()" by blast
  note ok = prepare_import_ok [OF p(1)]
  from begin_tx_runs obtain tx where tx: "BeginTx (libD E) db = Inr tx" by blast
  have same: "rows tx n = stored db n" if "valid n" for n by (rule begin_tx [OF tx that])
  have "valid n" if "n \<in> set (keys (pCounts p))" for n
    using plan_targets(1) [OF ok] ok that by (auto simp: plan_ok_def)
  with same valid_system system_meta system_config have before: "importable E p (map row_of recs) (rows tx)"
    by (intro importable_cong [OF rest(2)]) blast+
  from import_tx_runs [OF ok recs before rest(1,3) plan_counts [OF p(1) assms recs]] obtain result tx' where
    1: "import_tx E ctx ph p tx = Inr (result, tx')" by blast
  from commit_runs obtain db1 where "Commit (libD E) tx' db = (Inr (), db1)" by blast
  with p tx 1 show ?l by (simp add: Import_def)
qed

end

end
