(* ===== verification/LiveProps.thy ===== *)
theory LiveProps
  imports ImportProps ImportLive
begin

text \<open>
  When an import succeeds (theory ImportLive), that the counts it checks are the right ones (theory
  Counting), and that no walk runs longer than its file, with witnesses on the example migration.
\<close>

subsection \<open>The counts\<close>

text \<open>
  C7. The counts the import checks are the counts of what it copies: what the metadata files announce for
  a target namespace when the snapshots are opened is, modulo \<open>2^64\<close>, the number of records that the copy
  selects for it, and every record goes to a namespace that is counted. The files may be replaced in
  between, as long as their digests do not collide; so a count that is wrong in the database is never due
  to the snapshots.
\<close>

theorem announced_is_selected:
  assumes "prepare_import E ctx ph options = Inr p" "no_collision (libS E) (fs_load ph) (fs_copy ph)"
    "selected (libS E) (fs_copy ph) (pConfig p) (snapshots (pLoaded p)) = Inr recs"
  shows "lookup_count (pCounts p) t = of_nat (length (filter (\<lambda>row. fst row = t) recs)) \<and>
    fst ` set recs \<subseteq> set (keys (pCounts p))"
proof
  show "lookup_count (pCounts p) t = of_nat (length (filter (\<lambda>row. fst row = t) recs))"
    using plan_counts(1) [OF assms, of t] by (simp add: rows_for_def filter_map row_of_def comp_def)
  show "fst ` set recs \<subseteq> set (keys (pCounts p))"
    using plan_counts(2) [OF assms] by (rule image_subsetI)
qed

lemma mig_no_collision: "no_collision (libS mig_libs) (fs_load mig_phases) (fs_copy mig_phases)"
proof -
  have "fs_load mig_phases = mig_fs" by (simp add: mig_phases_def)
  then show ?thesis by (simp add: no_collision_def)
qed

theorem announced_is_selected_witness:
  "lookup_count (pCounts mig_plan) ''th'' = 1 \<and> {''tb'', ''th''} \<subseteq> set (keys (pCounts mig_plan))"
  using announced_is_selected [OF mig_prepared mig_no_collision, of "[(''tb'', ex_record), (''th'', ex_private_record)]" "''th''"] mig_selected
  by simp

subsection \<open>When an import succeeds\<close>

interpretation mig_up: import_running mig_libs ref_tables ref_valid ref_tables
proof (rule import_running.intro [OF mig_env])
  show "sql_running (libD mig_libs) ref_tables ref_valid ref_tables"
    by (simp add: refdb_up.sql_running_axioms)
qed

text \<open>
  C2. An import succeeds exactly when it should. On a database that is up, the importer returns a result if
  and only if the inputs can be prepared, the database is accepted, the selected records can be read again,
  the context is not cancelled during the copy, every target namespace is missing or empty and receives
  no key twice, its policy is not empty and agrees with an entry that is already there, the configuration
  likewise, and the files are unchanged at the end. Nothing else makes it fail.
\<close>

theorem import_succeeds_iff:
  assumes "import_running E rows valid stored" "no_collision (libS E) (fs_load ph) (fs_copy ph)"
  shows "(\<exists>result db'. Import E ctx ph options (Some db) = (Inr result, Some db')) \<longleftrightarrow>
    (\<exists>p recs. prepare_import E ctx ph options = Inr p \<and> check_database (libD E) db = Inr () \<and>
       selected (libS E) (fs_copy ph) (pConfig p) (snapshots (pLoaded p)) = Inr recs \<and>
       (\<forall>i < length recs. ctx_Err ctx (pPolls p + i) = None) \<and>
       importable E p (map row_of recs) (stored db) \<and>
       revalidate_inputs (libS E) (fs_recheck ph) (inputs (pLoaded p)) (snapshots (pLoaded p)) = Inr ())"
  using import_running.Import_succeeds [OF assms] unfolding calm_def .

theorem import_succeeds_iff_witness:
  "importable mig_libs mig_plan mig_rows (ref_tables []) \<and>
   \<not> importable mig_libs mig_plan mig_rows (ref_tables mig_after)"
proof
  have "\<exists>result db'. Import mig_libs background mig_phases mig_options (Some []) = (Inr result, Some db')"
    using mig_imported by blast
  then show "importable mig_libs mig_plan mig_rows (ref_tables [])"
    unfolding import_succeeds_iff [OF mig_up.import_running_axioms mig_no_collision]
    by (auto simp: mig_prepared mig_selected simp flip: mig_rows)
  have "\<not> (\<exists>result db'. Import mig_libs background mig_phases mig_options (Some mig_after) = (Inr result, Some db'))"
    using mig_again by simp
  then have no: "\<not> (\<exists>p recs. prepare_import mig_libs background mig_phases mig_options = Inr p \<and> check_database (libD mig_libs) mig_after = Inr () \<and>
       selected (libS mig_libs) (fs_copy mig_phases) (pConfig p) (snapshots (pLoaded p)) = Inr recs \<and>
       (\<forall>i < length recs. ctx_Err background (pPolls p + i) = None) \<and>
       importable mig_libs p (map row_of recs) (ref_tables mig_after) \<and>
       revalidate_inputs (libS mig_libs) (fs_recheck mig_phases) (inputs (pLoaded p)) (snapshots (pLoaded p)) = Inr ())"
    unfolding import_succeeds_iff [OF mig_up.import_running_axioms mig_no_collision] .
  show "\<not> importable mig_libs mig_plan mig_rows (ref_tables mig_after)"
  proof
    let ?recs = "[(''tb'', ex_record), (''th'', ex_private_record)]"
    assume "importable mig_libs mig_plan mig_rows (ref_tables mig_after)"
    then have "importable mig_libs mig_plan (map row_of ?recs) (ref_tables mig_after)" by (simp only: mig_rows)
    moreover have "\<forall>i < length ?recs. ctx_Err background (pPolls mig_plan + i) = None" by (simp add: background_def)
    moreover have "selected (libS mig_libs) (fs_copy mig_phases) (pConfig mig_plan) (snapshots (pLoaded mig_plan)) = Inr ?recs"
      by (simp add: mig_selected)
    moreover have "check_database (libD mig_libs) mig_after = Inr ()" by code_simp
    moreover have "revalidate_inputs (libS mig_libs) (fs_recheck mig_phases) (inputs (pLoaded mig_plan)) (snapshots (pLoaded mig_plan)) = Inr ()"
      by code_simp
    ultimately show False using no mig_prepared by blast
  qed
qed

subsection \<open>No walk runs longer than its file\<close>

text \<open>
  C18. The number of records a metadata file announces is not trusted: it may be anything below \<open>2^64\<close>, but
  the loop over the records of a namespace is decided, with the same result or error, after at most one
  iteration more than there are bytes left in the data file.
\<close>

theorem walk_bounded_by_file:
  "walk_namespace s pfx namespace yield n previousKey r st =
     walk_namespace s pfx namespace yield (min n (Suc (length (remaining r)))) previousKey r st"
proof (induction n arbitrary: previousKey r st rule: less_induct)
  case (less n)
  show ?case
  proof (cases n)
    case (Suc k)
    have "walk_namespace s pfx namespace yield k prev r' u = walk_namespace s pfx namespace yield (min k (length (remaining r))) prev r' u"
      if step: "length (remaining r') < length (remaining r)" for prev r' u
    proof -
      let ?j = "min k (length (remaining r))"
      have "walk_namespace s pfx namespace yield k prev r' u = walk_namespace s pfx namespace yield (min k (Suc (length (remaining r')))) prev r' u"
        by (rule less.IH) (simp add: Suc)
      also have "min k (Suc (length (remaining r'))) = min ?j (Suc (length (remaining r')))" using step by auto
      also have "walk_namespace s pfx namespace yield \<dots> prev r' u = walk_namespace s pfx namespace yield ?j prev r' u"
        by (rule less.IH [symmetric]) (simp add: Suc)
      finally show ?thesis .
    qed
    then have "walk_namespace s pfx namespace yield (Suc k) previousKey r st =
        walk_namespace s pfx namespace yield (Suc (min k (length (remaining r)))) previousKey r st"
      by (auto intro!: rbind_cong dest: read_record_Inr(5))
    then show ?thesis by (simp add: Suc)
  qed simp
qed

end
