(* ===== verification/History.thy ===== *)
theory History
  imports ImportAgree ImportLive
begin

text \<open>
  Many imports into one database. The importer runs in a serializable transaction and takes the lock of
  the configuration row, so concurrent imports have the effect of imports one after the other, in some
  order; \<open>history\<close> is any such sequence, each import with options, files, a context and a map order of its
  own, successful or not. What one import has written is kept by every later one (\<open>kept\<close>).
\<close>

subsection \<open>Sequences of imports\<close>

inductive history :: "('o, 'db, 'tx) libs \<Rightarrow> 'db \<Rightarrow> import_result res list \<Rightarrow> 'db \<Rightarrow> bool" for E where
  history_start: "history E db [] db"
| history_import: "history E db rs db1 \<Longrightarrow> no_collision (libS E) (fs_load ph) (fs_copy ph) \<Longrightarrow>
    Import (E\<lparr>iteration := rng\<rparr>) ctx ph options (Some db1) = (r, Some db2) \<Longrightarrow> history E db (rs @ [r]) db2"

inductive_cases history_snocE: "history E db (rs @ [r]) db2"

subsection \<open>What an import keeps\<close>

text \<open>
  Tables of namespaces that have rows keep them; the policy entries stay; the configuration entry still
  decodes to the same channel.
\<close>

definition kept ::
  "('o, 'db, 'tx) libs \<Rightarrow> (string \<Rightarrow> bool) \<Rightarrow> (string \<Rightarrow> table option) \<Rightarrow> (string \<Rightarrow> table option) \<Rightarrow> bool" where
  "kept E valid before after \<longleftrightarrow>
     (let D = libD E in
      (\<forall>n r. valid n \<longrightarrow> n \<notin> set (SystemNamespaces D) \<longrightarrow> before n = Some r \<longrightarrow> r \<noteq> Map.empty \<longrightarrow> after n = Some r) \<and>
      (\<forall>r. before (MetaNamespaceID D) = Some r \<longrightarrow> (\<exists>r'. after (MetaNamespaceID D) = Some r' \<and> r \<subseteq>\<^sub>m r')) \<and>
      (\<forall>r v c. before (ConfigNamespaceID D) = Some r \<longrightarrow> r (bytes_of_string (ConfigKey D)) = Some (Some v, 0) \<longrightarrow>
         decodeChannelConfig (libC E) v = Inr c \<longrightarrow>
         (\<exists>r' v' c'. after (ConfigNamespaceID D) = Some r' \<and> r' (bytes_of_string (ConfigKey D)) = Some (Some v', 0) \<and>
            decodeChannelConfig (libC E) v' = Inr c' \<and> cChannel c' = cChannel c)))"

lemma kept_refl: "kept E valid before before"
  unfolding kept_def Let_def by (simp add: map_le_refl)

lemma keptD:
  assumes "kept E valid before after"
  shows "valid n \<Longrightarrow> n \<notin> set (SystemNamespaces (libD E)) \<Longrightarrow> before n = Some r \<Longrightarrow> r \<noteq> Map.empty \<Longrightarrow> after n = Some r"
    and "before (MetaNamespaceID (libD E)) = Some r \<Longrightarrow> \<exists>r'. after (MetaNamespaceID (libD E)) = Some r' \<and> r \<subseteq>\<^sub>m r'"
    and "before (ConfigNamespaceID (libD E)) = Some r \<Longrightarrow> r (bytes_of_string (ConfigKey (libD E))) = Some (Some v, 0) \<Longrightarrow>
      decodeChannelConfig (libC E) v = Inr c \<Longrightarrow>
      \<exists>r' v' c'. after (ConfigNamespaceID (libD E)) = Some r' \<and> r' (bytes_of_string (ConfigKey (libD E))) = Some (Some v', 0) \<and>
        decodeChannelConfig (libC E) v' = Inr c' \<and> cChannel c' = cChannel c"
  using assms unfolding kept_def Let_def by blast+

lemma kept_trans:
  assumes ab: "kept E valid a b" and bc: "kept E valid b c"
  shows "kept E valid a c"
  unfolding kept_def Let_def
proof (intro conjI allI impI)
  fix n r assume "valid n" "n \<notin> set (SystemNamespaces (libD E))" "a n = Some r" "r \<noteq> Map.empty"
  with keptD(1) [OF ab, of n r] keptD(1) [OF bc, of n r] show "c n = Some r" by blast
next
  fix r assume "a (MetaNamespaceID (libD E)) = Some r"
  from keptD(2) [OF ab this] keptD(2) [OF bc] show "\<exists>r'. c (MetaNamespaceID (libD E)) = Some r' \<and> r \<subseteq>\<^sub>m r'"
    by (metis map_le_trans)
next
  fix r v ch
  assume "a (ConfigNamespaceID (libD E)) = Some r" "r (bytes_of_string (ConfigKey (libD E))) = Some (Some v, 0)"
    "decodeChannelConfig (libC E) v = Inr ch"
  from keptD(3) [OF ab this] obtain r1 v1 c1 where 1: "b (ConfigNamespaceID (libD E)) = Some r1"
    "r1 (bytes_of_string (ConfigKey (libD E))) = Some (Some v1, 0)" "decodeChannelConfig (libC E) v1 = Inr c1" "cChannel c1 = cChannel ch"
    by blast
  from keptD(3) [OF bc 1(1-3)] 1(4) show "\<exists>r' v' c'. c (ConfigNamespaceID (libD E)) = Some r' \<and>
      r' (bytes_of_string (ConfigKey (libD E))) = Some (Some v', 0) \<and>
      decodeChannelConfig (libC E) v' = Inr c' \<and> cChannel c' = cChannel ch" by metis
qed

lemma kept_cong:
  assumes "kept E valid before after" "\<And>n. valid n \<Longrightarrow> after' n = after n"
    "valid (MetaNamespaceID (libD E))" "valid (ConfigNamespaceID (libD E))"
  shows "kept E valid before after'"
  using assms unfolding kept_def Let_def by simp

lemma imported_kept:
  assumes "imported E valid p ts before after" "\<And>row. row \<in> set ts \<Longrightarrow> fst row \<in> set (keys (pCounts p))"
    "MetaNamespaceID (libD E) \<noteq> ConfigNamespaceID (libD E)"
  shows "kept E valid before after"
proof -
  let ?D = "libD E" and ?meta = "MetaNamespaceID (libD E)" and ?config = "ConfigNamespaceID (libD E)"
  let ?key = "bytes_of_string (ConfigKey ?D)"
  note imp = assms(1) [unfolded imported_def Let_def]
  have tables: "after n = Some r" if "valid n" "n \<notin> set (SystemNamespaces ?D)" "before n = Some r" "r \<noteq> Map.empty" for n r
  proof -
    have "n \<notin> set (keys (pCounts p))" using imp that(3,4) by (auto simp: or_empty_def)
    moreover have "rows_for n ts = []" using calculation assms(2) by (auto simp: rows_for_def filter_empty_conv)
    ultimately show ?thesis using imp that(1-3) by simp
  qed
  have policies: "\<exists>r'. after ?meta = Some r' \<and> r \<subseteq>\<^sub>m r'" if r: "before ?meta = Some r" for r
  proof -
    from imp have "\<exists>r'. after ?meta = Some r' \<and>
      (\<forall>n \<in> set (keys (pCounts p)). lookup_policy (pPolicies p) n \<noteq> [] \<and> r' (bytes_of_string n) = Some (Some (lookup_policy (pPolicies p) n), 0) \<and>
         entry_compatible ?D (libC E) ?meta (lookup_policy (pPolicies p) n) (or_empty (before ?meta) (bytes_of_string n))) \<and>
      (\<forall>k. k \<notin> bytes_of_string ` set (keys (pCounts p)) \<longrightarrow> r' k = or_empty (before ?meta) k)" by blast
    then obtain r' where r': "after ?meta = Some r'"
      "\<forall>n \<in> set (keys (pCounts p)). lookup_policy (pPolicies p) n \<noteq> [] \<and> r' (bytes_of_string n) = Some (Some (lookup_policy (pPolicies p) n), 0) \<and>
         entry_compatible ?D (libC E) ?meta (lookup_policy (pPolicies p) n) (or_empty (before ?meta) (bytes_of_string n))"
      "\<forall>k. k \<notin> bytes_of_string ` set (keys (pCounts p)) \<longrightarrow> r' k = or_empty (before ?meta) k" by (elim exE conjE) simp
    have "r \<subseteq>\<^sub>m r'"
      unfolding map_le_def
    proof
      fix k assume k: "k \<in> dom r"
      show "r k = r' k"
      proof (cases "k \<in> bytes_of_string ` set (keys (pCounts p))")
        case True
        with r' r k assms(3) show ?thesis by (auto simp: entry_compatible_def or_empty_def)
      next
        case False
        with r' r show ?thesis by (simp add: or_empty_def)
      qed
    qed
    with r'(1) show ?thesis by blast
  qed
  have network: "\<exists>r' v' c'. after ?config = Some r' \<and> r' ?key = Some (Some v', 0) \<and>
      decodeChannelConfig (libC E) v' = Inr c' \<and> cChannel c' = cChannel c"
    if r: "before ?config = Some r" "r ?key = Some (Some v, 0)" "decodeChannelConfig (libC E) v = Inr c" for r v c
  proof -
    from imp r(1) have after: "after ?config = Some (r(?key \<mapsto> (Some (pEnvelope p), 0)))" by (simp add: or_empty_def)
    from imp r(1,2) have "v = pEnvelope p \<or> same_channel_config (libC E) v (pEnvelope p)"
      by (auto simp: entry_compatible_def or_empty_def)
    then obtain c' where "decodeChannelConfig (libC E) (pEnvelope p) = Inr c'" "cChannel c' = cChannel c"
      using r(3) by (auto simp: same_channel_config_iff)
    with after show ?thesis by simp
  qed
  show ?thesis
    unfolding kept_def Let_def using tables policies network by blast
qed

subsection \<open>Every import, successful or not\<close>

text \<open>The outcome of one import: nothing, or a complete import of a plan.\<close>

context import_env
begin

lemma import_kept:
  assumes "Import E ctx ph options (Some db) = (r, Some db')" "no_collision (libS E) (fs_load ph) (fs_copy ph)"
  shows "kept E valid (stored db) (stored db')"
proof -
  have meta: "valid (MetaNamespaceID (libD E))" "valid (ConfigNamespaceID (libD E))"
    using valid_system system_meta system_config by blast+
  have complete: "kept E valid (stored db) (stored db')"
    if p: "prepare_import E ctx ph options = Inr p"
      and recs: "selected (libS E) (fs_copy ph) (pConfig p) (snapshots (pLoaded p)) = Inr recs"
      and done_: "imported E valid p (map row_of recs) (stored db) (stored db')" for p recs
  proof (rule imported_kept [OF done_ _ config_meta [symmetric]])
    show "fst row \<in> set (keys (pCounts p))" if "row \<in> set (map row_of recs)" for row
      using that plan_counts(2) [OF p assms(2) recs] by (auto simp: row_of_def)
  qed
  show ?thesis
  proof (cases r)
    case (Inl e)
    from import_atomic [OF assms(1) [unfolded Inl]] show ?thesis
    proof
      assume "\<forall>n. valid n \<longrightarrow> stored db' n = stored db n"
      then show ?thesis using kept_cong [OF kept_refl _ meta] by blast
    qed (use complete in blast)
  next
    case (Inr result)
    from import_complete [OF assms(1) [unfolded Inr]] complete show ?thesis by blast
  qed
qed

lemma import_target_empty:
  assumes "Import E ctx ph options (Some db) = (Inr result, Some db')" "n \<in> nrNamespace ` set (Namespaces result)"
  shows "or_empty (stored db n) = Map.empty" "n \<notin> set (SystemNamespaces (libD E))" "valid n"
proof -
  from import_complete [OF assms(1)] obtain p recs where p: "prepare_import E ctx ph options = Inr p"
    and done_: "imported E valid p (map row_of recs) (stored db) (stored db')" "result = expected_result E p" by blast
  have n: "n \<in> set (keys (pCounts p))" using assms(2) done_(2) by (auto simp: expected_result_def)
  then show "or_empty (stored db n) = Map.empty" using done_(1) unfolding imported_def Let_def by blast
  note ok = prepare_import_ok [OF p]
  with n have "n \<in> targets (pConfig p)" by (auto simp: plan_ok_def)
  then show "n \<notin> set (SystemNamespaces (libD E))" "valid n" using plan_targets [OF ok] by blast+
qed

lemma import_target_filled:
  assumes "Import E ctx ph options (Some db) = (Inr result, Some db')" "nr \<in> set (Namespaces result)" "nrRecordCount nr \<noteq> 0"
  shows "\<exists>r. stored db' (nrNamespace nr) = Some r \<and> r \<noteq> Map.empty"
proof -
  from import_complete [OF assms(1)] obtain p recs where
    1: "imported E valid p (map row_of recs) (stored db) (stored db')" "result = expected_result E p" by blast
  let ?n = "nrNamespace nr"
  have n: "?n \<in> set (keys (pCounts p))" "nrRecordCount nr = lookup_count (pCounts p) ?n"
    using assms(2) 1(2) by (auto simp: expected_result_def)
  have filled: "stored db' ?n = Some (row_table (rows_for ?n (map row_of recs)))"
    "length (rows_for ?n (map row_of recs)) = unat (lookup_count (pCounts p) ?n)"
    using 1(1) n(1) unfolding imported_def Let_def by blast+
  then have "rows_for ?n (map row_of recs) \<noteq> []" using n(2) assms(3) by (auto simp: unat_eq_zero)
  then have "dom (row_table (rows_for ?n (map row_of recs))) \<noteq> {}" by simp
  with filled(1) show ?thesis by fastforce
qed

end

subsection \<open>Histories\<close>

lemma kept_iteration: "kept (E\<lparr>iteration := rng\<rparr>) valid = kept E valid"
  by (intro ext) (simp add: kept_def)

lemma history_kept:
  assumes "history E db rs db'" "import_env E rows valid stored"
  shows "kept E valid (stored db) (stored db')"
  using assms
proof induction
  case (history_start db)
  then show ?case by (simp add: kept_refl)
next
  case (history_import db rs db1 ph rng ctx options r db2)
  have "import_env (E\<lparr>iteration := rng\<rparr>) rows valid stored"
    using history_import.prems by (simp add: import_env_iteration)
  from import_env.import_kept [OF this history_import.hyps(3)] history_import.hyps(2)
  have "kept E valid (stored db1) (stored db2)" by (simp add: kept_iteration)
  with history_import.IH [OF history_import.prems] show ?case by (rule kept_trans)
qed

text \<open>A namespace that has rows is not imported again.\<close>

lemma history_not_again:
  assumes "history E db rs db'" "import_env E rows valid stored" "stored db n = Some r" "r \<noteq> Map.empty" "Inr result \<in> set rs"
  shows "n \<notin> nrNamespace ` set (Namespaces result)"
  using assms
proof induction
  case (history_import db rs db1 ph rng ctx options r' db2)
  show ?case
  proof (cases "Inr result \<in> set rs")
    case True
    then show ?thesis by (rule history_import.IH [OF history_import.prems(1-3)])
  next
    case False
    with history_import.prems(4) have r': "r' = Inr result" by simp
    have env: "import_env (E\<lparr>iteration := rng\<rparr>) rows valid stored"
      using history_import.prems(1) by (simp add: import_env_iteration)
    show ?thesis
    proof
      assume n: "n \<in> nrNamespace ` set (Namespaces result)"
      note t = import_env.import_target_empty [OF env history_import.hyps(3) [unfolded r'] n]
      have "stored db1 n = Some r"
        by (rule keptD(1) [OF history_kept [OF history_import.hyps(1) history_import.prems(1)] _ _ history_import.prems(2,3)])
          (use t(2,3) in simp_all)
      with t(1) history_import.prems(3) show False by (simp add: or_empty_def)
    qed
  qed
qed simp

end
