(* ===== verification/HistoryProps.thy ===== *)
theory HistoryProps
  imports History ImportProps
begin

text \<open>
  The properties of sequences of imports (theory History): what one import has written is never changed
  or imported again, and the network a database is bound to never changes. The example runs two imports
  into one database and repeats the first.
\<close>

definition mig_options2 :: import_options where
  "mig_options2 = mig_options\<lparr>MappingPath := ''n''\<rparr>"

definition mig_later :: ref_state where
  "mig_later =
     [(ref_table ''_meta'', [([117, 104], Some mig_policy, 0), ([117, 98], Some mig_policy, 0),
         ([116, 104], Some mig_policy, 0), ([116, 98], Some mig_policy, 0)]),
      (ref_table ''_config'', [([95, 99, 111, 110, 102, 105, 103], Some [1, 3], 0)]),
      (ref_table ''tb'', [([97], Some [98], 0)]),
      (ref_table ''th'', [(replicate 32 7, Some (replicate 32 9), 0)]),
      (ref_table ''ub'', [([97], Some [98], 0)]),
      (ref_table ''uh'', [(replicate 32 7, Some (replicate 32 9), 0)])]"

definition mig_result2 :: import_result where
  "mig_result2 = mig_result\<lparr>rMapping := mig_config2,
     Namespaces := [\<lparr>nrNamespace = ''ub'', nrRecordCount = 1, nrPolicy = mig_policy\<rparr>,
       \<lparr>nrNamespace = ''uh'', nrRecordCount = 1, nrPolicy = mig_policy\<rparr>]\<rparr>"

lemma mig_imported_again:
  "Import (mig_libs\<lparr>iteration := reversed_order\<rparr>) background mig_phases mig_options2 (Some mig_after) = (Inr mig_result2, Some mig_later)"
  by code_simp

lemma mig_refused_later:
  "Import (mig_libs\<lparr>iteration := reversed_order\<rparr>) background mig_phases mig_options (Some mig_later) =
     (Inl (New ''target namespace is not empty'' [''tb'']), Some mig_later)"
  by code_simp

lemma mig_no_collisions: "no_collision (libS mig_libs) (fs_load mig_phases) (fs_copy mig_phases)"
  unfolding no_collision_def by (simp add: mig_phases_def)

lemma mig_history:
  "history mig_libs mig_after [Inr mig_result2, Inl (New ''target namespace is not empty'' [''tb''])] mig_later"
  using history_import [OF history_import [OF history_start mig_no_collisions mig_imported_again] mig_no_collisions mig_refused_later]
  by simp

text \<open>
  C6. What an import has written is permanent. After a successful import, whatever further imports are run
  on the database, with whatever options, files, contexts and outcomes, a target namespace that received
  records holds exactly the same table, and no later import that succeeds has it among its targets.
\<close>

theorem imports_are_permanent:
  assumes "import_env E rows valid stored" "Import E ctx ph options (Some db) = (Inr result, Some db1)"
    "nr \<in> set (Namespaces result)" "nrRecordCount nr \<noteq> 0" "history E db1 rs db2"
  shows "stored db2 (nrNamespace nr) = stored db1 (nrNamespace nr) \<and>
    stored db1 (nrNamespace nr) \<notin> {None, Some Map.empty} \<and>
    nrNamespace nr \<notin> (\<Union>later \<in> {result'. Inr result' \<in> set rs}. nrNamespace ` set (Namespaces later))"
proof -
  let ?n = "nrNamespace nr"
  from import_env.import_target_filled [OF assms(1-4)] obtain r where r: "stored db1 ?n = Some r" "r \<noteq> Map.empty" by blast
  from import_env.import_target_empty(2,3) [OF assms(1,2), of ?n] assms(3) have "?n \<notin> set (SystemNamespaces (libD E))" "valid ?n"
    by blast+
  from keptD(1) [OF history_kept [OF assms(5,1)] this(2,1) r] history_not_again [OF assms(5,1) r] r show ?thesis by auto
qed

theorem imports_are_permanent_witness:
  "ref_tables mig_later ''tb'' = ref_tables mig_after ''tb'' \<and>
   ''tb'' \<notin> (\<Union>later \<in> {result'. Inr result' \<in> {Inr mig_result2, Inl (New ''target namespace is not empty'' [''tb''])}}.
     nrNamespace ` set (Namespaces later))"
proof -
  let ?nr = "\<lparr>nrNamespace = ''tb'', nrRecordCount = 1, nrPolicy = mig_policy\<rparr>"
  have "?nr \<in> set (Namespaces mig_result)" "nrRecordCount ?nr \<noteq> 0" by code_simp+
  from imports_are_permanent [OF mig_env mig_imported this mig_history] show ?thesis by simp
qed

text \<open>
  C15. A database stays bound to its network, and its policies stay. However many imports are run on it, the
  entries of the meta namespace are never changed or removed, and a configuration entry at version 0 is
  only ever replaced by one of the same channel.
\<close>

theorem network_binding_permanent:
  assumes "import_env E rows valid stored" "history E db rs db'"
    "stored db (MetaNamespaceID (libD E)) = Some policies" "stored db (ConfigNamespaceID (libD E)) = Some r"
    "r (bytes_of_string (ConfigKey (libD E))) = Some (Some v, 0)" "decodeChannelConfig (libC E) v = Inr c"
  shows "(\<exists>policies'. stored db' (MetaNamespaceID (libD E)) = Some policies' \<and> policies \<subseteq>\<^sub>m policies') \<and>
    (\<exists>r' v' c'. stored db' (ConfigNamespaceID (libD E)) = Some r' \<and> r' (bytes_of_string (ConfigKey (libD E))) = Some (Some v', 0) \<and>
       decodeChannelConfig (libC E) v' = Inr c' \<and> cChannel c' = cChannel c)"
  using keptD(2,3) [OF history_kept [OF assms(2,1)]] assms(3-6) by blast

theorem network_binding_permanent_witness:
  "\<exists>policies'. ref_tables mig_later ''_meta'' = Some policies' \<and>
     policies' (bytes_of_string ''tb'') = Some (Some mig_policy, 0)"
proof -
  let ?r = "map_of [([95, 99, 111, 110, 102, 105, 103], (Some [1, 3], 0))] :: table"
  let ?p = "map_of [([116, 104], (Some mig_policy, 0)), ([116, 98], (Some mig_policy, 0))] :: table"
  have meta: "ref_tables mig_after ''_meta'' = Some ?p" and config: "ref_tables mig_after ''_config'' = Some ?r"
    by (simp_all add: mig_after_def ref_tables_def ref_table_def ref_quote_plain)
  have names: "MetaNamespaceID (libD mig_libs) = ''_meta''" "ConfigNamespaceID (libD mig_libs) = ''_config''" by simp_all
  have key: "?r (bytes_of_string (ConfigKey (libD mig_libs))) = Some (Some [1, 3], 0)" by code_simp
  have "\<not> isl (decodeChannelConfig (libC mig_libs) [1, 3])" by code_simp
  then obtain c where c: "decodeChannelConfig (libC mig_libs) [1, 3] = Inr c"
    by (cases "decodeChannelConfig (libC mig_libs) [1, 3]") simp_all
  have "bytes_of_string ''tb'' = [116, 98]" by code_simp
  then have entry: "?p (bytes_of_string ''tb'') = Some (Some mig_policy, 0)" by simp
  have "\<exists>policies'. ref_tables mig_later ''_meta'' = Some policies' \<and> ?p \<subseteq>\<^sub>m policies'"
    using network_binding_permanent [OF mig_env mig_history meta [folded names] config [folded names] key c] names by simp
  then obtain policies' where later: "ref_tables mig_later ''_meta'' = Some policies'" "?p \<subseteq>\<^sub>m policies'" by (elim exE conjE)
  from entry have "bytes_of_string ''tb'' \<in> dom ?p" unfolding dom_def mem_Collect_eq by (rule ssubst) simp
  then have "?p (bytes_of_string ''tb'') = policies' (bytes_of_string ''tb'')"
    by (rule bspec [OF later(2) [unfolded map_le_def]])
  with entry have "policies' (bytes_of_string ''tb'') = Some (Some mig_policy, 0)" by (simp only:)
  with later(1) show ?thesis by blast
qed

end
