(* ===== verification/Cli.thy ===== *)
theory Cli
  imports Importer
begin

text \<open>
  \<^verbatim>\<open>internal/cmd/main.go\<close>: the command line. \<open>parse_flags\<close> is \<^verbatim>\<open>FlagSet.Parse\<close>
  of the standard library for the five flags \<open>Run\<close> defines, none of which is boolean; usage texts and the
  output stream are not modelled. Opening the connection pool and encoding the result as JSON are
  parameters.
\<close>

subsection \<open>channelPaths\<close>

type_synonym channelPaths = "(string, string) gomap"

definition channelPaths_String :: "channelPaths \<Rightarrow> string" where
  "channelPaths_String p = strings_Join (sort (map (\<lambda>(channel, path). channel @ ''='' @ path) p)) '',''"

definition channelPaths_Set :: "string \<Rightarrow> channelPaths \<Rightarrow> channelPaths res" where
  "channelPaths_Set val p =
     (case Cut val ''='' of (channel, path, ok) \<Rightarrow>
       if \<not> ok \<or> channel = [] \<or> path = [] then Inl (New ''expected CHANNEL=PATH'' [])
       else if has_key p channel then Inl (New ''channel is supplied more than once'' [channel])
       else Inr (AList.update channel path p))"

subsection \<open>The flags\<close>

record flag_values =
  fl_snapshots :: channelPaths
  fl_sourceConfigs :: channelPaths
  fl_mapping :: string
  fl_target :: string
  fl_databaseURL :: string

definition no_flags :: flag_values where
  "no_flags = \<lparr>fl_snapshots = [], fl_sourceConfigs = [], fl_mapping = [], fl_target = [], fl_databaseURL = []\<rparr>"

definition flag_names :: "string list" where
  "flag_names = [''snapshot'', ''source-config'', ''mapping'', ''target-config'', ''database-url'']"

text \<open>The \<^verbatim>\<open>Set\<close> method of the flag with this name; a string flag just takes the value.\<close>

definition set_flag :: "string \<times> string \<Rightarrow> flag_values \<Rightarrow> flag_values res" where
  "set_flag nv st = (case nv of (name, val) \<Rightarrow>
     if name = ''snapshot'' then
       (case channelPaths_Set val (fl_snapshots st) of
          Inl _ \<Rightarrow> Inl (New ''invalid value for flag'' [val, name])
        | Inr p \<Rightarrow> Inr (st\<lparr>fl_snapshots := p\<rparr>))
     else if name = ''source-config'' then
       (case channelPaths_Set val (fl_sourceConfigs st) of
          Inl _ \<Rightarrow> Inl (New ''invalid value for flag'' [val, name])
        | Inr p \<Rightarrow> Inr (st\<lparr>fl_sourceConfigs := p\<rparr>))
     else if name = ''mapping'' then Inr (st\<lparr>fl_mapping := val\<rparr>)
     else if name = ''target-config'' then Inr (st\<lparr>fl_target := val\<rparr>)
     else Inr (st\<lparr>fl_databaseURL := val\<rparr>))"

text \<open>\<open>name=value\<close>: the first \<open>=\<close> after the first character.\<close>

definition split_value :: "string \<Rightarrow> string \<times> string option" where
  "split_value name =
     (case name of
        [] \<Rightarrow> ([], None)
      | c # rest \<Rightarrow> (case cut_at ''='' rest of None \<Rightarrow> (name, None) | Some (a, b) \<Rightarrow> (c # a, Some b)))"

fun parse_flags :: "string list \<Rightarrow> flag_values \<Rightarrow> (flag_values \<times> string list) res" where
  "parse_flags [] st = Inr (st, [])"
| "parse_flags (s # args) st =
     (if length s < 2 \<or> hd s \<noteq> CHR ''-'' then Inr (st, s # args)
      else if s = ''--'' then Inr (st, args)
      else
        let name = (if s ! 1 = CHR ''-'' then drop 2 s else drop 1 s) in
        if name = [] \<or> hd name = CHR ''-'' \<or> hd name = CHR ''='' then Inl (New ''bad flag syntax'' [s])
        else case split_value name of (name, val) \<Rightarrow>
          if name \<notin> set flag_names then
            (if name = ''help'' \<or> name = ''h'' then Inl ErrHelp
             else Inl (New ''flag provided but not defined'' [name]))
          else case val of
            Some v \<Rightarrow> rbind (set_flag (name, v) st) (parse_flags args)
          | None \<Rightarrow>
              (case args of
                 [] \<Rightarrow> Inl (New ''flag needs an argument'' [name])
               | v # args \<Rightarrow> rbind (set_flag (name, v) st) (parse_flags args)))"

subsection \<open>Run\<close>

definition options_of :: "flag_values \<Rightarrow> import_options" where
  "options_of st = \<lparr>oSnapshots = fl_snapshots st, oSourceConfigs = fl_sourceConfigs st,
     MappingPath = fl_mapping st, TargetConfigPath = fl_target st\<rparr>"

definition incomplete :: "flag_values \<Rightarrow> string list \<Rightarrow> bool" where
  "incomplete st rest \<longleftrightarrow>
     length rest \<noteq> 0 \<or> length (fl_snapshots st) = 0 \<or> length (fl_sourceConfigs st) = 0 \<or>
     fl_mapping st = [] \<or> fl_target st = [] \<or> fl_databaseURL st = []"

definition Run ::
  "('o, 'db, 'tx) libs \<Rightarrow> phases \<Rightarrow> (string \<Rightarrow> 'db res) \<Rightarrow> (import_result \<Rightarrow> bytes res) \<Rightarrow> string list \<Rightarrow> bytes res \<times> 'db option" where
  "Run E ph connect encode_json args =
     (if length args = 0 \<or> hd args \<noteq> ''import'' then (Inl (New ''usage'' []), None)
      else case parse_flags (tl args) no_flags of
        Inl e \<Rightarrow> (Inl e, None)
      | Inr (st, rest) \<Rightarrow>
          if incomplete st rest then (Inl (New ''required flags are missing'' []), None)
          else (case wrapped [''configure target database connection''] (connect (fl_databaseURL st)) of
                  Inl e \<Rightarrow> (Inl e, None)
                | Inr db \<Rightarrow>
                    (case Import E background ph (options_of st) (Some db) of
                       (Inl e, pool) \<Rightarrow> (Inl e, pool)
                     | (Inr result, pool) \<Rightarrow> (encode_json result, pool))))"

text \<open>The exit status of \<^verbatim>\<open>cmd/fabric-x-migrate/main.go\<close>.\<close>

definition exit_status :: "bytes res \<Rightarrow> nat" where
  "exit_status r = (case r of Inl _ \<Rightarrow> 1 | Inr _ \<Rightarrow> 0)"

subsection \<open>Rendered command lines\<close>

text \<open>The four ways to write a flag with its value.\<close>

definition render_flag :: "(bool \<times> bool) \<times> string \<times> string \<Rightarrow> string list" where
  "render_flag x = (case x of ((double, joined), name, val) \<Rightarrow>
     let dashes = (if double then ''--'' else ''-'') in
     if joined then [dashes @ name @ ''='' @ val] else [dashes @ name, val])"

lemma cut_at_eq: "CHR ''='' \<notin> set a \<Longrightarrow> cut_at ''='' (a @ ''='' @ b) = Some (a, b)"
  by (induction a) (auto simp: HasPrefix_def)

lemma cut_at_no_eq: "CHR ''='' \<notin> set a \<Longrightarrow> cut_at ''='' a = None"
  by (induction a) (auto simp: HasPrefix_def)

lemma flag_name_shape:
  assumes "name \<in> set flag_names"
  shows "name \<noteq> []" "hd name \<noteq> CHR ''-''" "hd name \<noteq> CHR ''=''" "CHR ''='' \<notin> set name"
  using assms by (auto simp: flag_names_def)

lemma split_value_flag:
  assumes "name \<in> set flag_names"
  shows "split_value name = (name, None)" "split_value (name @ ''='' @ val) = (name, Some val)"
proof -
  obtain c rest where name: "name = c # rest" using flag_name_shape(1) [OF assms] by (cases name) auto
  then have "CHR ''='' \<notin> set rest" using flag_name_shape(4) [OF assms] by simp
  with name cut_at_eq [of rest val] cut_at_no_eq [of rest]
  show "split_value name = (name, None)" "split_value (name @ ''='' @ val) = (name, Some val)"
    by (simp_all add: split_value_def)
qed

lemma parse_rendered:
  assumes "name \<in> set flag_names"
  shows "parse_flags (render_flag ((double, joined), name, val) @ args) st = rbind (set_flag (name, val) st) (parse_flags args)"
proof -
  obtain c rest where name: "name = c # rest" using flag_name_shape(1) [OF assms] by (cases name) auto
  have c: "c \<noteq> CHR ''-''" "c \<noteq> CHR ''=''" using flag_name_shape(2,3) [OF assms] name by simp_all
  note split = split_value_flag [OF assms, unfolded name]
  show ?thesis
    using assms c split by (cases double; cases joined) (simp_all add: render_flag_def name Let_def)
qed

lemma cut_at_eq_Some: "cut_at ''='' s = Some (a, b) \<longleftrightarrow> s = a @ ''='' @ b \<and> CHR ''='' \<notin> set a"
proof
  assume "cut_at ''='' s = Some (a, b)"
  then show "s = a @ ''='' @ b \<and> CHR ''='' \<notin> set a"
    by (induction s arbitrary: a) (auto simp: HasPrefix_def split: if_splits)
qed (auto dest: cut_at_eq [of a b])

lemma channelPaths_Set_Inr:
  "channelPaths_Set v p = Inr p' \<longleftrightarrow>
     (\<exists>channel path. v = channel @ ''='' @ path \<and> CHR ''='' \<notin> set channel \<and> channel \<noteq> [] \<and> path \<noteq> [] \<and>
        channel \<notin> set (keys p) \<and> p' = p @ [(channel, path)])"
proof (cases "cut_at ''='' v")
  case None
  then have "v \<noteq> channel @ ''='' @ path" if "CHR ''='' \<notin> set channel" for channel path
    using cut_at_eq [OF that] by auto
  with None show ?thesis by (auto simp: channelPaths_Set_def Cut_def)
next
  case (Some cp)
  obtain channel path where cp: "cp = (channel, path)" by (cases cp)
  with Some have v: "v = channel @ ''='' @ path" "CHR ''='' \<notin> set channel" by (simp_all add: cut_at_eq_Some)
  have unique: "channel' = channel \<and> path' = path" if "v = channel' @ ''='' @ path'" "CHR ''='' \<notin> set channel'" for channel' path'
    using cut_at_eq [OF that(2), of path'] Some cp that(1) by simp
  have "channelPaths_Set v p = Inr p' \<longleftrightarrow> channel \<noteq> [] \<and> path \<noteq> [] \<and> channel \<notin> set (keys p) \<and> p' = p @ [(channel, path)]"
    using Some cp by (auto simp: channelPaths_Set_def Cut_def has_key_iff update_fresh)
  with v unique show ?thesis by blast
qed

text \<open>A sequence of \<^verbatim>\<open>Set\<close> calls appends the pairs.\<close>

definition channel_pair :: "string \<times> string \<Rightarrow> string" where
  "channel_pair x = fst x @ ''='' @ snd x"

definition channel_pair_ok :: "string \<times> string \<Rightarrow> bool" where
  "channel_pair_ok x \<longleftrightarrow> fst x \<noteq> [] \<and> CHR ''='' \<notin> set (fst x) \<and> snd x \<noteq> []"

lemma channelPaths_Set_pair:
  "channelPaths_Set v p = Inr p' \<longleftrightarrow>
     (\<exists>x. v = channel_pair x \<and> channel_pair_ok x \<and> fst x \<notin> fst ` set p \<and> p' = p @ [x])"
  by (auto simp: channelPaths_Set_Inr channel_pair_def channel_pair_ok_def keys_def)

lemma channel_pairs_accepted:
  assumes "distinct (map fst q)"
  shows "rfold channelPaths_Set vals q = Inr p \<longleftrightarrow>
    (\<exists>r. p = q @ r \<and> vals = map channel_pair r \<and> distinct (map fst p) \<and> (\<forall>x \<in> set r. channel_pair_ok x))"
  using assms
proof (induction vals arbitrary: q)
  case (Cons v vals)
  have "rfold channelPaths_Set (v # vals) q = Inr p \<longleftrightarrow>
      (\<exists>x. v = channel_pair x \<and> channel_pair_ok x \<and> fst x \<notin> fst ` set q \<and> rfold channelPaths_Set vals (q @ [x]) = Inr p)"
    by (auto simp: channelPaths_Set_pair)
  also have "\<dots> \<longleftrightarrow>
      (\<exists>x. v = channel_pair x \<and> channel_pair_ok x \<and> fst x \<notin> fst ` set q \<and>
         (\<exists>r. p = (q @ [x]) @ r \<and> vals = map channel_pair r \<and> distinct (map fst p) \<and> (\<forall>x \<in> set r. channel_pair_ok x)))"
    using Cons.prems by (intro ex_cong1 conj_cong refl Cons.IH) auto
  also have "\<dots> \<longleftrightarrow>
      (\<exists>r. p = q @ r \<and> v # vals = map channel_pair r \<and> distinct (map fst p) \<and> (\<forall>x \<in> set r. channel_pair_ok x))"
    (is "?l \<longleftrightarrow> ?r")
  proof
    assume ?l
    then obtain x r where "v = channel_pair x" "channel_pair_ok x" "p = (q @ [x]) @ r" "vals = map channel_pair r"
      "distinct (map fst p)" "\<forall>x \<in> set r. channel_pair_ok x" by (elim exE conjE) simp
    then show ?r by (intro exI [of _ "x # r"]) auto
  next
    assume ?r
    then obtain r0 where "p = q @ r0 \<and> v # vals = map channel_pair r0 \<and> distinct (map fst p) \<and>
      (\<forall>x \<in> set r0. channel_pair_ok x)" by (rule exE)
    then have r0: "p = q @ r0" "v # vals = map channel_pair r0" "distinct (map fst p)"
      "\<forall>x \<in> set r0. channel_pair_ok x" by blast+
    then obtain x r where "r0 = x # r" by (cases r0) auto
    with r0 show ?l by (intro exI [of _ x]) auto
  qed
  finally show ?case .
qed auto

end
