(* ===== verification/CliProps.thy ===== *)
theory CliProps
  imports Cli ImportProps
begin

text \<open>
  The properties of the command line (theory Cli): how flags are read, what \<^verbatim>\<open>channelPaths\<close>
  accepts, and that a run that succeeds is a complete import with the options of its flags.
\<close>

subsection \<open>Flags\<close>


definition mig_flags :: "((bool \<times> bool) \<times> string \<times> string) list" where
  "mig_flags = [((True, False), ''snapshot'', ''assets=d''), ((False, True), ''source-config'', ''assets=s''),
     ((True, True), ''mapping'', ''m''), ((False, False), ''target-config'', ''t''), ((True, False), ''database-url'', ''u'')]"

definition mig_args :: "string list" where
  "mig_args = [''--snapshot'', ''assets=d'', ''-source-config=assets=s'', ''--mapping=m'', ''-target-config'', ''t'', ''--database-url'', ''u'']"

definition mig_values :: flag_values where
  "mig_values = \<lparr>fl_snapshots = [(''assets'', ''d'')], fl_sourceConfigs = [(''assets'', ''s'')], fl_mapping = ''m'',
     fl_target = ''t'', fl_databaseURL = ''u''\<rparr>"


text \<open>
  C26. A repeatable channel flag accepts exactly lists of \<^verbatim>\<open>CHANNEL=PATH\<close> with no part empty and
  no channel twice; a path may contain further \<^verbatim>\<open>=\<close> signs. The map then has these pairs, in this
  order, and nothing else.
\<close>

theorem channel_paths_accepted:
  "rfold channelPaths_Set vals [] = Inr p \<longleftrightarrow>
     vals = map (\<lambda>(channel, path). channel @ ''='' @ path) p \<and> distinct (map fst p) \<and>
     (\<forall>(channel, path) \<in> set p. channel \<noteq> [] \<and> CHR ''='' \<notin> set channel \<and> path \<noteq> [])"
  using channel_pairs_accepted [of "[]" vals p] unfolding channel_pair_def channel_pair_ok_def
  by (auto simp: case_prod_unfold)

theorem channel_paths_accepted_witness:
  "rfold channelPaths_Set [''a=b=c'', ''d=e''] [] = Inr [(''a'', ''b=c''), (''d'', ''e'')]"
  unfolding channel_paths_accepted by simp

subsection \<open>Run\<close>

text \<open>
  C5. End to end: when the command succeeds, all five flags were given and nothing else, the connection
  was opened to the database URL, and that database has received a complete import with the options of
  the flags; the output is the encoding of its result.
\<close>

theorem run_is_an_import:
  assumes "import_env E rows valid stored" "Run E ph connect encode_json args = (Inr out, Some db')"
  shows "\<exists>rest st db p recs. args = ''import'' # rest \<and> parse_flags rest no_flags = Inr (st, []) \<and>
    fl_snapshots st \<noteq> [] \<and> fl_sourceConfigs st \<noteq> [] \<and> fl_mapping st \<noteq> [] \<and> fl_target st \<noteq> [] \<and> fl_databaseURL st \<noteq> [] \<and>
    connect (fl_databaseURL st) = Inr db \<and>
    prepare_import E background ph \<lparr>oSnapshots = fl_snapshots st, oSourceConfigs = fl_sourceConfigs st,
      MappingPath = fl_mapping st, TargetConfigPath = fl_target st\<rparr> = Inr p \<and>
    selected (libS E) (fs_copy ph) (pConfig p) (snapshots (pLoaded p)) = Inr recs \<and>
    imported E valid p (map row_of recs) (stored db) (stored db') \<and> encode_json (expected_result E p) = Inr out"
proof -
  from assms(2) obtain rest st db result where args: "args = ''import'' # rest" "parse_flags rest no_flags = Inr (st, [])"
    "\<not> incomplete st []" "connect (fl_databaseURL st) = Inr db"
    and run: "Import E background ph (options_of st) (Some db) = (Inr result, Some db')" "encode_json result = Inr out"
    by (cases args) (auto simp: Run_def incomplete_def split: if_splits sum.splits prod.splits)
  from import_env.import_complete [OF assms(1) run(1)] run(2) args show ?thesis
    by (auto simp: incomplete_def options_of_def)
qed

lemma mig_run:
  "Run mig_libs mig_phases (\<lambda>url. Inr []) (\<lambda>r. Inr (replicate (unat (RecordCount r)) 0)) (''import'' # mig_args) =
     (Inr [0, 0], Some mig_after)"
  by code_simp

theorem run_is_an_import_witness:
  "\<exists>p recs. imported mig_libs ref_valid p (map row_of recs) (ref_tables []) (ref_tables mig_after)"
  using run_is_an_import [OF mig_env mig_run] by auto

text \<open>An error in writing the report comes after the commit.\<close>

lemma report_error_after_commit:
  "Run mig_libs mig_phases (\<lambda>url. Inr []) (\<lambda>r. Inl (Ext ''write'')) (''import'' # mig_args) = (Inl (Ext ''write''), Some mig_after) \<and>
   exit_status (Inl (Ext ''write'')) = 1"
proof
  show "Run mig_libs mig_phases (\<lambda>url. Inr []) (\<lambda>r. Inl (Ext ''write'')) (''import'' # mig_args) = (Inl (Ext ''write''), Some mig_after)"
    by code_simp
  show "exit_status (Inl (Ext ''write'')) = 1" by code_simp
qed

end
