(* ===== verification/Paths.thy ===== *)
theory Paths
  imports GoLib
begin

text \<open>
  Lexical paths as \<^verbatim>\<open>path/filepath\<close> computes them: a cleaned path is a list of elements, joining
  descends into a directory and \<^verbatim>\<open>Dir\<close> climbs out of the last element.
\<close>

definition filepath_IsAbs :: "string \<Rightarrow> bool" where
  "filepath_IsAbs path \<longleftrightarrow> HasPrefix path ''/''"

text \<open>\<^verbatim>\<open>filepath.Dir\<close>: everything up to the last slash, cleaned.\<close>

definition filepath_Dir :: "string \<Rightarrow> string" where
  "filepath_Dir path = filepath_Clean (rev (dropWhile (\<lambda>c. c \<noteq> CHR ''/'') (rev path)))"

subsection \<open>Cleaned paths as lists of elements\<close>

definition is_rooted :: "string \<Rightarrow> bool" where
  "is_rooted path \<longleftrightarrow> path \<noteq> [] \<and> hd path = CHR ''/''"

definition path_elems :: "string \<Rightarrow> string list" where
  "path_elems path = (if path = [] then [] else clean_elems (is_rooted path) (split_slash path) [])"

definition render_path :: "bool \<Rightarrow> string list \<Rightarrow> string" where
  "render_path rooted es =
     (if rooted then CHR ''/'' # strings_Join es ''/'' else if es = [] then ''.'' else strings_Join es ''/'')"

text \<open>The elements of a cleaned path: some \<^verbatim>\<open>..\<close>, unless it is rooted, then plain names.\<close>

definition clean_form :: "bool \<Rightarrow> string list \<Rightarrow> bool" where
  "clean_form rooted es \<longleftrightarrow>
     (\<exists>k ns. es = replicate k ''..'' @ ns \<and> (\<forall>n \<in> set ns. plain_name n) \<and> (rooted \<longrightarrow> k = 0))"

lemma clean_form_Nil [simp]: "clean_form rooted []"
  by (simp add: clean_form_def)

lemma clean_form_snoc: "clean_form rooted es \<Longrightarrow> plain_name n \<Longrightarrow> clean_form rooted (es @ [n])"
proof -
  assume "clean_form rooted es" "plain_name n"
  then obtain k ns where "es = replicate k ''..'' @ ns" "\<forall>n \<in> set ns. plain_name n" "rooted \<longrightarrow> k = 0"
    by (auto simp: clean_form_def)
  with \<open>plain_name n\<close> show ?thesis unfolding clean_form_def by (intro exI [of _ k] exI [of _ "ns @ [n]"]) simp
qed

lemma clean_form_append: "clean_form rooted es \<Longrightarrow> \<forall>n \<in> set ns. plain_name n \<Longrightarrow> clean_form rooted (es @ ns)"
  by (induction ns rule: rev_induct) (simp_all add: clean_form_snoc flip: append_assoc)

lemma clean_form_butlast: "clean_form rooted (es @ [e]) \<Longrightarrow> clean_form rooted es"
proof -
  assume "clean_form rooted (es @ [e])"
  then obtain k ns where kn: "es @ [e] = replicate k ''..'' @ ns" "\<forall>n \<in> set ns. plain_name n" "rooted \<longrightarrow> k = 0"
    by (auto simp: clean_form_def)
  show ?thesis
  proof (cases ns rule: rev_cases)
    case Nil
    with kn(1) have len: "k = Suc (length es)" by (metis append_Nil2 length_append_singleton length_replicate)
    with kn(1) Nil have "es = replicate (length es) ''..''" by (simp add: replicate_append_same [symmetric])
    with len kn(3) show ?thesis unfolding clean_form_def by (metis append_Nil2 empty_iff list.set(1) nat.distinct(1))
  next
    case (snoc ms m)
    with kn have "es = replicate k ''..'' @ ms" "\<forall>n \<in> set ms. plain_name n" by simp_all
    with kn(3) show ?thesis by (auto simp: clean_form_def)
  qed
qed

lemma split_slash_elems: "e \<in> set (split_slash s) \<Longrightarrow> CHR ''/'' \<notin> set e"
  by (induction s arbitrary: e) (auto split: if_splits list.splits)

lemma clean_form_dotdot:
  assumes "clean_form rooted es" "es = [] \<or> last es = ''..''" "\<not> rooted"
  shows "clean_form rooted (es @ [''..''])"
proof -
  from assms(1) obtain k ns where kn: "es = replicate k ''..'' @ ns" "\<forall>n \<in> set ns. plain_name n"
    by (auto simp: clean_form_def)
  have "ns = []"
  proof (rule ccontr)
    assume "ns \<noteq> []"
    then have "last es \<in> set ns" by (simp add: kn(1))
    with kn(2) assms(2) \<open>ns \<noteq> []\<close> kn(1) show False by (auto simp: plain_name_def)
  qed
  then have "es @ [''..''] = replicate (Suc k) ''..'' @ []" using kn(1) by (simp add: replicate_append_same)
  with assms(3) show ?thesis unfolding clean_form_def by (metis empty_iff list.set(1))
qed

lemma clean_elems_form:
  "clean_form rooted (rev out) \<Longrightarrow> \<forall>e \<in> set es. CHR ''/'' \<notin> set e \<Longrightarrow> clean_form rooted (clean_elems rooted es out)"
proof (induction es arbitrary: out)
  case (Cons e es)
  show ?case
  proof (cases "e = [] \<or> e = ''.''")
    case True
    with Cons show ?thesis by auto
  next
    case False
    show ?thesis
    proof (cases "e = ''..''")
      case dots: True
      show ?thesis
      proof (cases out)
        case Nil
        have "clean_form rooted (rev [''..''])" if "\<not> rooted"
          using clean_form_dotdot [of rooted "[]"] that by simp
        with dots Nil Cons show ?thesis by auto
      next
        case (Cons o1 out')
        show ?thesis
        proof (cases "o1 = ''..''")
          case True
          have "clean_form rooted (rev (''..'' # out))" if "\<not> rooted"
            using clean_form_dotdot [of rooted "rev out"] Cons.prems(1) that True Cons by simp
          with dots True Cons Cons.prems Cons.IH [of out] Cons.IH [of "''..'' # out"] show ?thesis by auto
        next
          case False
          have "clean_form rooted (rev out')" using Cons.prems(1) Cons clean_form_butlast by simp
          with dots False Cons Cons.prems Cons.IH [of out'] show ?thesis by auto
        qed
      qed
    next
      case dots: False
      with False Cons.prems have "plain_name e" by (simp add: plain_name_def)
      then have "clean_form rooted (rev (e # out))" using clean_form_snoc Cons.prems(1) by simp
      with Cons.IH [of "e # out"] Cons.prems(2) False dots show ?thesis by auto
    qed
  qed
qed simp

lemma path_elems_form: "clean_form (is_rooted path) (path_elems path)"
  using clean_elems_form [of "is_rooted path" "[]" "split_slash path"] split_slash_elems by (auto simp: path_elems_def)

lemma clean_form_elem: "clean_form rooted es \<Longrightarrow> e \<in> set es \<Longrightarrow> e = ''..'' \<or> plain_name e"
  unfolding clean_form_def by (auto simp: in_set_replicate)

lemma clean_form_elems: "clean_form rooted es \<Longrightarrow> e \<in> set es \<Longrightarrow> e \<noteq> [] \<and> e \<noteq> ''.'' \<and> CHR ''/'' \<notin> set e"
  using clean_form_elem [of rooted es e] by (auto simp: plain_name_def)

lemma clean_form_before_dotdot:
  assumes "clean_form rooted (xs @ ''..'' # ys)"
  shows "\<not> rooted \<and> set xs \<subseteq> {''..''}"
proof -
  from assms obtain k ns where kn: "xs @ ''..'' # ys = replicate k ''..'' @ ns" "\<forall>n \<in> set ns. plain_name n" "rooted \<longrightarrow> k = 0"
    by (auto simp: clean_form_def)
  have "length xs < k"
  proof (rule ccontr)
    assume "\<not> length xs < k"
    then have "(replicate k ''..'' @ ns) ! length xs = ns ! (length xs - k)" by (simp add: nth_append)
    moreover have "(xs @ ''..'' # ys) ! length xs = ''..''" by simp
    moreover have "length xs - k < length ns"
      using arg_cong [OF kn(1), of length] \<open>\<not> length xs < k\<close> by simp
    ultimately have "''..'' \<in> set ns" unfolding kn(1) by (metis nth_mem)
    with kn(2) show False by (auto simp: plain_name_def)
  qed
  moreover have "xs = take (length xs) (replicate k ''..'' @ ns)" unfolding kn(1) [symmetric] by simp
  then have "set xs \<subseteq> set (take (length xs) (replicate k ''..'' @ ns))" by simp
  then have "set xs \<subseteq> {''..''}" using calculation by (auto simp: take_append in_set_replicate)
  ultimately show ?thesis using kn(3) by auto
qed

lemma clean_elems_clean: "clean_form rooted (rev out @ es) \<Longrightarrow> clean_elems rooted es out = rev out @ es"
proof (induction es arbitrary: out)
  case (Cons e es)
  have e: "e \<noteq> []" "e \<noteq> ''.''" using clean_form_elems [OF Cons.prems, of e] by simp_all
  have "clean_elems rooted (e # es) out = clean_elems rooted es (e # out)"
  proof (cases "e = ''..''")
    case True
    from clean_form_before_dotdot [of rooted "rev out" es] Cons.prems True have "\<not> rooted" "set out \<subseteq> {''..''}" by simp_all
    then have "out = [] \<or> hd out = ''..''" by (cases out) auto
    with True \<open>\<not> rooted\<close> show ?thesis by auto
  qed (use e in simp)
  with Cons.IH [of "e # out"] Cons.prems show ?case by simp
qed simp

lemma split_slash_Join:
  "es \<noteq> [] \<Longrightarrow> \<forall>e \<in> set es. CHR ''/'' \<notin> set e \<Longrightarrow> split_slash (strings_Join es ''/'') = es"
proof (induction es "''/''" rule: strings_Join.induct)
  case (3 x y zs)
  then show ?case using split_slash_join [of x "strings_Join (y # zs) ''/''"] by (simp add: split_slash_plain)
qed (simp_all add: split_slash_plain)

lemma strings_Join_nonempty: "es \<noteq> [] \<Longrightarrow> hd es \<noteq> [] \<Longrightarrow> strings_Join es ''/'' \<noteq> [] \<and> hd (strings_Join es ''/'') = hd (hd es)"
  by (induction es "''/''" rule: strings_Join.induct) auto

lemma filepath_Clean_render: "filepath_Clean path = render_path (is_rooted path) (path_elems path)"
proof (cases "path = []")
  case False
  have "strings_Join (path_elems path) ''/'' = [] \<longleftrightarrow> path_elems path = []"
    using strings_Join_nonempty [of "path_elems path"] clean_form_elems [OF path_elems_form, of "hd (path_elems path)" path]
    by (cases "path_elems path") auto
  moreover have "is_rooted path = (hd path = CHR ''/'')" using False by (simp add: is_rooted_def)
  moreover from this have "clean_elems (hd path = CHR ''/'') (split_slash path) [] = path_elems path"
    using False by (simp add: path_elems_def)
  ultimately show ?thesis using False by (simp add: filepath_Clean_def render_path_def)
qed (simp add: filepath_Clean_def render_path_def is_rooted_def path_elems_def)

lemma render_path_nonempty: "clean_form rooted es \<Longrightarrow> render_path rooted es \<noteq> []"
  using strings_Join_nonempty [of es] clean_form_elems [of rooted es "hd es"] by (cases es) (auto simp: render_path_def)

lemma is_rooted_render: "clean_form rooted es \<Longrightarrow> is_rooted (render_path rooted es) = rooted"
proof (cases "rooted \<or> es = []")
  case False
  assume "clean_form rooted es"
  with False have "hd es \<noteq> []" "CHR ''/'' \<notin> set (hd es)" using clean_form_elems [of rooted es "hd es"] by auto
  moreover from this have "hd (hd es) \<noteq> CHR ''/''" by (metis hd_in_set)
  ultimately show ?thesis using False strings_Join_nonempty [of es] by (auto simp: is_rooted_def render_path_def)
qed (auto simp: is_rooted_def render_path_def)

lemma split_render:
  assumes "clean_form rooted es"
  shows "split_slash (render_path rooted es) =
    (if rooted then [] # (if es = [] then [[]] else es) else if es = [] then [''.''] else es)"
  using split_slash_Join [of es] clean_form_elems [OF assms] by (auto simp: render_path_def)

lemma path_elems_render: "clean_form rooted es \<Longrightarrow> path_elems (render_path rooted es) = es"
  using clean_elems_clean [of rooted "[]" es]
  by (cases rooted; cases es) (simp_all add: path_elems_def is_rooted_render render_path_nonempty split_render)

lemma filepath_Clean_idem: "clean_form rooted es \<Longrightarrow> filepath_Clean (render_path rooted es) = render_path rooted es"
  by (simp add: filepath_Clean_render is_rooted_render path_elems_render)

subsection \<open>Descending and climbing\<close>

lemma clean_elems_plain: "\<forall>n \<in> set ns. plain_name n \<Longrightarrow> clean_elems rooted (ps @ ns) out = clean_elems rooted ps out @ ns"
  by (induction ns rule: rev_induct) (simp_all add: clean_elems_snoc plain_name_def flip: append_assoc)

lemma clean_elems_dot: "clean_elems rooted (ps @ [''.'']) out = clean_elems rooted ps out"
  by (induction rooted ps out rule: clean_elems.induct) auto

lemma clean_elems_slash: "clean_elems rooted (ps @ [[]]) out = clean_elems rooted ps out"
  by (induction rooted ps out rule: clean_elems.induct) auto

lemma filepath_Join_render:
  assumes "dir \<noteq> []" "\<forall>n \<in> set ns. plain_name n"
  shows "filepath_Join dir (render_path False ns) = render_path (is_rooted dir) (path_elems dir @ ns)"
proof -
  let ?p = "dir @ ''/'' @ render_path False ns"
  have form: "clean_form False ns" using clean_form_append [of False "[]" ns] assms(2) by simp
  have "split_slash ?p = split_slash dir @ split_slash (render_path False ns)"
    using split_slash_join [of dir] by simp
  then have "path_elems ?p = path_elems dir @ ns"
    using assms by (simp add: path_elems_def is_rooted_def split_render [OF form] clean_elems_plain clean_elems_dot)
  moreover have "is_rooted ?p = is_rooted dir" using assms(1) by (simp add: is_rooted_def)
  ultimately show ?thesis using assms(1) by (simp add: filepath_Join_def filepath_Clean_render)
qed

lemma filepath_Dir_render:
  assumes "clean_form rooted (es @ [n])"
  shows "filepath_Dir (render_path rooted (es @ [n])) = render_path rooted es"
proof -
  note es = clean_form_butlast [OF assms]
  have n: "CHR ''/'' \<notin> set n" "n \<noteq> []" using clean_form_elems [OF assms, of n] by simp_all
  have drop: "rev (dropWhile (\<lambda>c. c \<noteq> CHR ''/'') (rev (xs @ n))) = rev (dropWhile (\<lambda>c. c \<noteq> CHR ''/'') (rev xs))" for xs
    unfolding rev_append by (subst dropWhile_append2) (use n(1) in auto)
  show ?thesis
  proof (cases "es = []")
    case True
    then have "render_path rooted (es @ [n]) = (if rooted then ''/'' else []) @ n" by (simp add: render_path_def)
    then have "filepath_Dir (render_path rooted (es @ [n])) = filepath_Clean (if rooted then ''/'' else [])"
      unfolding filepath_Dir_def by (simp only: drop) simp
    with True show ?thesis by (simp add: filepath_Clean_def render_path_def)
  next
    case False
    then have "render_path rooted (es @ [n]) = (render_path rooted es @ ''/'') @ n"
      by (simp add: render_path_def strings_Join_snoc)
    then have "filepath_Dir (render_path rooted (es @ [n])) = filepath_Clean (render_path rooted es @ ''/'')"
      unfolding filepath_Dir_def by (simp only: drop) simp
    moreover have "path_elems (render_path rooted es @ ''/'') = es"
      using False clean_elems_clean [of rooted "[]" es] es split_slash_join [of "render_path rooted es" "[]"] is_rooted_render [OF es]
        render_path_nonempty [OF es]
      by (cases rooted) (simp_all add: path_elems_def is_rooted_def split_render clean_elems_slash)
    moreover have "is_rooted (render_path rooted es @ ''/'') = rooted"
      using is_rooted_render [OF es] render_path_nonempty [OF es] by (simp add: is_rooted_def)
    ultimately show ?thesis by (simp add: filepath_Clean_render)
  qed
qed

end
