(* ===== verification/Archive.thy ===== *)
theory Archive
  imports Paths Files
begin

text \<open>
  The release installer of the integration tests: \<^verbatim>\<open>ensureFabricRelease\<close> and
  \<^verbatim>\<open>extractFabricRelease\<close> of \<^verbatim>\<open>internal/integrationtest/integrationtest.go\<close>.
  Directories are created with mode \<^verbatim>\<open>0o700\<close> (\<open>0x1C0\<close>).
  The operating system is a record of calls on a state \<open>'s\<close> with file handles \<open>'h\<close>; an archive
  is what \<^verbatim>\<open>archive/tar\<close> reads from it. The locale states what the calls leave alone.
\<close>

subsection \<open>The archive and the operating system\<close>

text \<open>\<open>tar.Header\<close> as the code reads it; \<^verbatim>\<open>Mode\<close> is an \<^verbatim>\<open>int64\<close>.\<close>

record tar_header =
  header_name :: string
  Typeflag :: char
  header_mode :: "64 word"

definition TypeReg :: char where "TypeReg = CHR ''0''"
definition TypeDir :: char where "TypeDir = CHR ''5''"

text \<open>An entry: its header, the bytes it yields and the error that ends the reading of it (none at the end).\<close>

record tar_entry =
  entry_header :: tar_header
  entry_data :: bytes
  entry_error :: "go_error option"

text \<open>
  An opened archive: the entries \<^verbatim>\<open>Next\<close> returns, the error that it returns after them
  (\<open>EOF\<close> at the regular end) and the error of closing the decompressor.
\<close>

record tar_archive =
  tar_entries :: "tar_entry list"
  tar_end :: go_error
  gzip_close :: "go_error option"

text \<open>
  \<^verbatim>\<open>OpenFile\<close> is called with \<^verbatim>\<open>O_CREATE|O_TRUNC|O_WRONLY\<close>; the file modes are
  \<^verbatim>\<open>uint32\<close>. \<open>http_Get\<close> returns the status code, what
  \<^verbatim>\<open>gzip.NewReader\<close> makes of the body, and the error of closing the body.
\<close>

record ('s, 'h) os =
  os_Stat :: "string \<Rightarrow> 's \<Rightarrow> bool"
  os_MkdirAll :: "string \<Rightarrow> 32 word \<Rightarrow> 's \<Rightarrow> go_error option \<times> 's"
  os_OpenFile :: "string \<Rightarrow> 32 word \<Rightarrow> 's \<Rightarrow> 'h res \<times> 's"
  file_Write :: "'h \<Rightarrow> bytes \<Rightarrow> 's \<Rightarrow> go_error option \<times> 's"
  file_Close :: "'h \<Rightarrow> 's \<Rightarrow> go_error option \<times> 's"
  os_RemoveAll :: "string \<Rightarrow> 's \<Rightarrow> go_error option \<times> 's"
  os_Rename :: "string \<Rightarrow> string \<Rightarrow> 's \<Rightarrow> go_error option \<times> 's"

record response =
  StatusCode :: int
  Body :: "tar_archive res"
  body_close :: "go_error option"

subsection \<open>Sequencing\<close>

text \<open>\<^verbatim>\<open>if err := f(); err != nil { return err }\<close> on the state, then the rest.\<close>

definition and_then :: "go_error option \<times> 's \<Rightarrow> ('s \<Rightarrow> unit res \<times> 's) \<Rightarrow> unit res \<times> 's" where
  "and_then r k = (case r of (Some e, s) \<Rightarrow> (Inl e, s) | (None, s) \<Rightarrow> k s)"

lemma and_then_simps [simp]: "and_then (Some e, s) k = (Inl e, s)" "and_then (None, s) k = k s"
  by (simp_all add: and_then_def)

subsection \<open>extractFabricRelease\<close>

definition unsafe_name :: "string \<Rightarrow> bool" where
  "unsafe_name name \<longleftrightarrow> filepath_IsAbs name \<or> name = ''..'' \<or> HasPrefix name (''..'' @ ''/'')"

text \<open>\<^verbatim>\<open>io.Copy(file, archive)\<close>: the bytes of the entry are written, then its error is met.\<close>

definition io_Copy :: "('s, 'h, 'm) os_scheme \<Rightarrow> 'h \<Rightarrow> tar_entry \<Rightarrow> 's \<Rightarrow> go_error option \<times> 's" where
  "io_Copy os file e s =
     (case file_Write os file (entry_data e) s of
        (Some err, s) \<Rightarrow> (Some err, s)
      | (None, s) \<Rightarrow> (entry_error e, s))"

definition extract_file :: "('s, 'h, 'm) os_scheme \<Rightarrow> string \<Rightarrow> tar_entry \<Rightarrow> 's \<Rightarrow> unit res \<times> 's" where
  "extract_file os path e s =
     and_then (os_MkdirAll os (filepath_Dir path) 0x1C0 s) (\<lambda>s.
       case os_OpenFile os path (ucast (header_mode (entry_header e))) s of
         (Inl err, s) \<Rightarrow> (Inl err, s)
       | (Inr file, s) \<Rightarrow>
           (let (copyErr, s) = io_Copy os file e s; (closeErr, s) = file_Close os file s
            in case copyErr of
                 Some err \<Rightarrow> (Inl err, s)
               | None \<Rightarrow> (case closeErr of Some err \<Rightarrow> (Inl err, s) | None \<Rightarrow> (Inr (), s))))"

definition extract_entry :: "('s, 'h, 'm) os_scheme \<Rightarrow> string \<Rightarrow> tar_entry \<Rightarrow> 's \<Rightarrow> unit res \<times> 's" where
  "extract_entry os destination e s =
     (let header = entry_header e; name = filepath_Clean (header_name header) in
      if unsafe_name name then (Inl (New ''unsafe archive path'' [header_name header]), s)
      else let path = filepath_Join destination name in
        if Typeflag header = TypeDir then
          and_then (os_MkdirAll os path (ucast (header_mode header)) s) (\<lambda>s. (Inr (), s))
        else if Typeflag header = TypeReg then extract_file os path e s
        else (Inl (New ''unsupported archive entry'' [header_name header]), s))"

fun extract_entries :: "('s, 'h, 'm) os_scheme \<Rightarrow> string \<Rightarrow> tar_entry list \<Rightarrow> go_error \<Rightarrow> 's \<Rightarrow> unit res \<times> 's" where
  "extract_entries os destination [] err s = (if errors_Is err EOF then Inr () else Inl err, s)"
| "extract_entries os destination (e # es) err s =
     (case extract_entry os destination e s of
        (Inl err', s) \<Rightarrow> (Inl err', s)
      | (Inr _, s) \<Rightarrow> extract_entries os destination es err s)"

definition extractFabricRelease :: "('s, 'h, 'm) os_scheme \<Rightarrow> string \<Rightarrow> tar_archive res \<Rightarrow> 's \<Rightarrow> unit res \<times> 's" where
  "extractFabricRelease os destination source s =
     (case source of
        Inl err \<Rightarrow> (Inl err, s)
      | Inr archive \<Rightarrow>
          (let (returnErr, s) = extract_entries os destination (tar_entries archive) (tar_end archive) s
           in (join_close returnErr (gzip_close archive), s)))"

subsection \<open>ensureFabricRelease\<close>

text \<open>
  A failing \<^verbatim>\<open>require\<close> ends the test after the deferred close of the body: an error here.
  \<open>temporary\<close> is the directory \<^verbatim>\<open>t.TempDir()\<close> returned, which exists, and \<open>response\<close> what the download returned.
\<close>

definition NoError :: "unit res \<times> 's \<Rightarrow> ('s \<Rightarrow> unit res \<times> 's) \<Rightarrow> unit res \<times> 's" where
  "NoError r k = (case r of (Inl e, s) \<Rightarrow> (Inl e, s) | (Inr _, s) \<Rightarrow> k s)"

definition install_release :: "('s, 'h, 'm) os_scheme \<Rightarrow> string \<Rightarrow> string \<Rightarrow> response \<Rightarrow> 's \<Rightarrow> unit res \<times> 's" where
  "install_release os temporary destination response s =
     (if StatusCode response \<noteq> 200 then (Inl (New ''Not equal'' []), s)
      else NoError (extractFabricRelease os temporary (Body response) s) (\<lambda>s.
        and_then (os_RemoveAll os destination s) (\<lambda>s.
          and_then (os_Rename os temporary destination s) (\<lambda>s. (Inr (), s)))))"

definition ensureFabricRelease ::
  "('s, 'h, 'm) os_scheme \<Rightarrow> string \<Rightarrow> response res \<Rightarrow> string \<Rightarrow> 's \<Rightarrow> unit res \<times> 's" where
  "ensureFabricRelease os temporary download destination s =
     (if os_Stat os (filepath_Join (filepath_Join destination ''bin'') ''peer'') s then (Inr (), s)
      else and_then (os_MkdirAll os (filepath_Dir destination) 0x1C0 s) (\<lambda>s.
        case download of
          Inl e \<Rightarrow> (Inl e, s)
        | Inr response \<Rightarrow>
            (let (outcome, s) = install_release os temporary destination response s
             in (join_close outcome (body_close response), s))))"

subsection \<open>What the calls leave alone\<close>

datatype node = Dir | File bytes

text \<open>Of two absolute paths, \<open>p\<close> is \<open>q\<close> or a directory above it.\<close>

definition above :: "string \<Rightarrow> string \<Rightarrow> bool" where
  "above p q \<longleftrightarrow> is_rooted p \<and> is_rooted q \<and> prefix (path_elems p) (path_elems q)"

definition same_path :: "string \<Rightarrow> string \<Rightarrow> bool" where
  "same_path p q \<longleftrightarrow> is_rooted p \<and> is_rooted q \<and> path_elems p = path_elems q"

text \<open>
  \<open>node s q\<close> is what is at the absolute path \<open>q\<close>. The laws are those of a file system where different
  absolute paths reach different files: no symbolic link leads from one of them to another.
\<close>

locale local_calls =
  fixes os :: "('s, 'h, 'm) os_scheme" and node :: "'s \<Rightarrow> string \<Rightarrow> node option"
  assumes node_cong: "same_path p q \<Longrightarrow> node s p = node s q"
    and mkdir_above: "is_rooted p \<Longrightarrow> is_rooted q \<Longrightarrow> \<not> above q p \<Longrightarrow> node (snd (os_MkdirAll os p m s)) q = node s q"
    and mkdir_keeps: "is_rooted p \<Longrightarrow> is_rooted q \<Longrightarrow> node s q \<noteq> None \<Longrightarrow> node (snd (os_MkdirAll os p m s)) q = node s q"
    and open_at: "is_rooted p \<Longrightarrow> is_rooted q \<Longrightarrow> \<not> same_path p q \<Longrightarrow> node (snd (os_OpenFile os p m s)) q = node s q"
    and write_at: "is_rooted p \<Longrightarrow> is_rooted q \<Longrightarrow> os_OpenFile os p m s = (Inr h, s1) \<Longrightarrow> \<not> same_path p q \<Longrightarrow> node (snd (file_Write os h bs s1)) q = node s1 q"
    and close_none: "node (snd (file_Close os h s)) q = node s q"
    and remove_below: "is_rooted p \<Longrightarrow> is_rooted q \<Longrightarrow> \<not> above p q \<Longrightarrow> node (snd (os_RemoveAll os p s)) q = node s q"
    and rename_below: "is_rooted p \<Longrightarrow> is_rooted p' \<Longrightarrow> is_rooted q \<Longrightarrow> \<not> above p q \<Longrightarrow> \<not> above p' q \<Longrightarrow> node (snd (os_Rename os p p' s)) q = node s q"

text \<open>And what they do when they succeed.\<close>

locale file_calls = local_calls os node
  for os :: "('s, 'h, 'm) os_scheme" and node :: "'s \<Rightarrow> string \<Rightarrow> node option" +
  assumes mkdir_made: "is_rooted p \<Longrightarrow> os_MkdirAll os p m s = (None, s') \<Longrightarrow> node s' p = Some Dir"
    and mkdir_only: "is_rooted p \<Longrightarrow> is_rooted q \<Longrightarrow> node s q = None \<Longrightarrow> os_MkdirAll os p m s = (r, s') \<Longrightarrow> node s' q = None \<or> node s' q = Some Dir"
    and write_file: "is_rooted p \<Longrightarrow> os_OpenFile os p m s = (Inr h, s1) \<Longrightarrow> file_Write os h bs s1 = (None, s2) \<Longrightarrow> node s2 p = Some (File bs)"
    and rename_moves: "is_rooted p \<Longrightarrow> is_rooted p' \<Longrightarrow> os_Rename os p p' s = (None, s') \<Longrightarrow>
      \<forall>n \<in> set ns. plain_name n \<Longrightarrow>
      node s' (render_path True (path_elems p' @ ns)) = node s (render_path True (path_elems p @ ns))"

lemma above_refl: "is_rooted p \<Longrightarrow> above p p"
  by (simp add: above_def)

lemma above_trans: "above p q \<Longrightarrow> above q r \<Longrightarrow> above p r"
  by (auto simp: above_def)

lemma above_comparable: "above p r \<Longrightarrow> above q r \<Longrightarrow> above p q \<or> above q p"
  unfolding above_def using prefix_same_cases by metis

lemma same_path_above: "same_path p q \<longleftrightarrow> above p q \<and> above q p"
  by (auto simp: same_path_def above_def)

lemma same_path_sym: "same_path p q \<Longrightarrow> same_path q p"
  by (simp add: same_path_def)

subsection \<open>Where an entry goes\<close>

lemma safe_name:
  assumes "\<not> unsafe_name (filepath_Clean name)"
  obtains ns where "filepath_Clean name = render_path False ns" "\<forall>n \<in> set ns. plain_name n"
proof -
  have form: "clean_form (is_rooted name) (path_elems name)" by (rule path_elems_form)
  have unrooted: "\<not> is_rooted name"
    using assms by (auto simp: filepath_Clean_render render_path_def unsafe_name_def filepath_IsAbs_def HasPrefix_iff)
  from form obtain k ns where kn: "path_elems name = replicate k ''..'' @ ns" "\<forall>n \<in> set ns. plain_name n"
    by (auto simp: clean_form_def)
  have "k = 0"
  proof (rule ccontr)
    assume "k \<noteq> 0"
    then obtain rest where rest: "path_elems name = ''..'' # rest" using kn(1) by (cases k) auto
    have "filepath_Clean name = ''..'' \<or> HasPrefix (filepath_Clean name) (''..'' @ ''/'')"
      using unrooted rest by (cases rest) (simp_all add: filepath_Clean_render render_path_def HasPrefix_iff)
    with assms show False by (auto simp: unsafe_name_def)
  qed
  with kn unrooted that show thesis by (simp add: filepath_Clean_render)
qed

lemma Join_safe:
  assumes "\<forall>n \<in> set ns. plain_name n"
  shows "filepath_Join dir (render_path False ns) = render_path (is_rooted dir) (path_elems dir @ ns)"
proof (cases "dir = []")
  case True
  have "clean_form False ns" using clean_form_append [of False "[]" ns] assms by simp
  then show ?thesis using True filepath_Clean_idem [of False ns] render_path_nonempty [of False ns]
    by (simp add: filepath_Join_def is_rooted_def path_elems_def)
qed (use assms filepath_Join_render in blast)

lemma descend_form: "\<forall>n \<in> set ns. plain_name n \<Longrightarrow> clean_form (is_rooted dir) (path_elems dir @ ns)"
  using clean_form_append path_elems_form by blast

lemma filepath_Dir_root: "filepath_Dir (render_path rooted []) = render_path rooted []"
  by (cases rooted) (simp_all add: render_path_def filepath_Dir_def filepath_Clean_def)

lemma Join_safe_elems:
  assumes "\<not> unsafe_name (filepath_Clean name)" "is_rooted dir"
  shows "above dir (filepath_Join dir (filepath_Clean name))"
    and "above (filepath_Dir (filepath_Join dir (filepath_Clean name))) (filepath_Join dir (filepath_Clean name))"
proof -
  from safe_name [OF assms(1)] obtain ns where ns: "filepath_Clean name = render_path False ns" "\<forall>n \<in> set ns. plain_name n" .
  have path: "filepath_Join dir (filepath_Clean name) = render_path True (path_elems dir @ ns)"
    using Join_safe [OF ns(2), of dir] assms(2) ns(1) by simp
  have form: "clean_form True (path_elems dir @ ns)" using descend_form [OF ns(2), of dir] assms(2) by simp
  show "above dir (filepath_Join dir (filepath_Clean name))"
    unfolding path by (simp add: above_def assms(2) is_rooted_render [OF form] path_elems_render [OF form])
  show "above (filepath_Dir (filepath_Join dir (filepath_Clean name))) (filepath_Join dir (filepath_Clean name))"
  proof (cases "path_elems dir @ ns" rule: rev_cases)
    case Nil
    then show ?thesis unfolding path filepath_Dir_root Nil by (intro above_refl) (simp add: is_rooted_render)
  next
    case (snoc es n)
    with form have form': "clean_form True (es @ [n])" by simp
    note up = clean_form_butlast [OF form']
    show ?thesis unfolding path snoc filepath_Dir_render [OF form']
      by (simp add: above_def is_rooted_render [OF form'] path_elems_render [OF form'] is_rooted_render [OF up] path_elems_render [OF up])
  qed
qed

lemma above_rooted: "above p q \<Longrightarrow> is_rooted p \<and> is_rooted q"
  by (simp add: above_def)

subsection \<open>An extraction stays in its directory\<close>

context local_calls
begin

lemma copy_at:
  assumes "is_rooted p" "is_rooted q" "os_OpenFile os p m s = (Inr h, s1)" "\<not> same_path p q"
  shows "node (snd (io_Copy os h e s1)) q = node s1 q"
  using write_at [OF assms, where bs = "entry_data e"]
  by (cases "file_Write os h (entry_data e) s1") (auto simp: io_Copy_def split: option.splits)

lemma extract_file_at:
  assumes p: "is_rooted p" "is_rooted (filepath_Dir p)" and q: "is_rooted q"
    and other: "\<not> above q (filepath_Dir p)" "\<not> same_path p q"
  shows "node (snd (extract_file os p e s)) q = node s q"
proof -
  obtain r1 s1 where m: "os_MkdirAll os (filepath_Dir p) 0x1C0 s = (r1, s1)" by fastforce
  obtain r2 s2 where opn: "os_OpenFile os p (ucast (header_mode (entry_header e))) s1 = (r2, s2)" by fastforce
  have s1: "node s1 q = node s q" using mkdir_above [OF p(2) q other(1), of "0x1C0" s] by (simp add: m)
  have s2: "node s2 q = node s1 q"
    using open_at [OF p(1) q other(2), of "ucast (header_mode (entry_header e))" s1] by (simp add: opn)
  show ?thesis
  proof (cases r2)
    case (Inr h)
    obtain r3 s3 where c: "io_Copy os h e s2 = (r3, s3)" by fastforce
    obtain r4 s4 where cl: "file_Close os h s3 = (r4, s4)" by fastforce
    have "node s3 q = node s2 q" using copy_at [OF p(1) q opn [unfolded Inr] other(2), of e] c by simp
    moreover have "node s4 q = node s3 q" using close_none [of h s3 q] cl by simp
    ultimately show ?thesis using s1 s2 by (simp add: extract_file_def and_then_def m opn Inr c cl split: option.splits)
  qed (use s1 s2 in \<open>simp add: extract_file_def and_then_def m opn split: option.splits\<close>)
qed

lemma extract_entry_confined:
  assumes dir: "is_rooted dir" and q: "is_rooted q" and outside: "\<not> above q dir" "\<not> above dir q"
  shows "node (snd (extract_entry os dir e s)) q = node s q"
proof (cases "unsafe_name (filepath_Clean (header_name (entry_header e)))")
  case False
  define p where "p = filepath_Join dir (filepath_Clean (header_name (entry_header e)))"
  note at = Join_safe_elems [OF False dir, folded p_def]
  note rooted = above_rooted [OF at(2)]
  have far: "\<not> above q p" "\<not> same_path p q" "\<not> above q (filepath_Dir p)"
    using outside at above_trans above_comparable same_path_above by metis+
  have "node (snd (and_then (os_MkdirAll os p m s) (\<lambda>s. (Inr (), s)))) q = node s q" for m
    using mkdir_above [OF _ q far(1), of m s] rooted by (auto simp: and_then_def split: prod.splits option.splits)
  with extract_file_at [OF _ _ q far(3,2)] rooted show ?thesis using False by (simp add: extract_entry_def p_def Let_def)
qed (simp add: extract_entry_def Let_def)

lemma extract_entries_confined:
  "is_rooted dir \<Longrightarrow> is_rooted q \<Longrightarrow> \<not> above q dir \<Longrightarrow> \<not> above dir q \<Longrightarrow>
   node (snd (extract_entries os dir es err s)) q = node s q"
proof (induction es arbitrary: s)
  case (Cons e es)
  with extract_entry_confined [of dir q e s] show ?case by (auto split: prod.splits sum.splits)
qed simp

lemma extract_confined:
  assumes "is_rooted dir" "is_rooted q" "\<not> above q dir" "\<not> above dir q"
  shows "node (snd (extractFabricRelease os dir source s)) q = node s q"
proof (cases source)
  case (Inr a)
  with extract_entries_confined [OF assms, of "tar_entries a" "tar_end a" s] show ?thesis
    by (cases "extract_entries os dir (tar_entries a) (tar_end a) s") (simp add: extractFabricRelease_def)
qed (simp add: extractFabricRelease_def)

end

subsection \<open>What a successful extraction leaves\<close>

definition entry_path :: "string \<Rightarrow> tar_entry \<Rightarrow> string" where
  "entry_path dir e = filepath_Join dir (filepath_Clean (header_name (entry_header e)))"

definition entry_node :: "tar_entry \<Rightarrow> node" where
  "entry_node e = (if Typeflag (entry_header e) = TypeDir then Dir else File (entry_data e))"

text \<open>What the archive says is at a path: the last entry for it.\<close>

fun archive_node :: "string \<Rightarrow> tar_entry list \<Rightarrow> string \<Rightarrow> node option" where
  "archive_node dir [] q = None"
| "archive_node dir (e # es) q =
     (case archive_node dir es q of
        Some n \<Rightarrow> Some n
      | None \<Rightarrow> if same_path (entry_path dir e) q then Some (entry_node e) else None)"

definition entry_ok :: "tar_entry \<Rightarrow> bool" where
  "entry_ok e \<longleftrightarrow> \<not> unsafe_name (filepath_Clean (header_name (entry_header e))) \<and>
     (Typeflag (entry_header e) = TypeDir \<or> Typeflag (entry_header e) = TypeReg \<and> entry_error e = None)"

text \<open>A path without an entry keeps what is there, or becomes a directory above an entry.\<close>

definition holds_at :: "node option \<Rightarrow> node option \<Rightarrow> node option \<Rightarrow> bool" where
  "holds_at entry before after \<longleftrightarrow>
     (case entry of Some n \<Rightarrow> after = Some n | None \<Rightarrow> after = before \<or> before = None \<and> after = Some Dir)"

lemma holds_at_trans: "holds_at None a b \<Longrightarrow> holds_at None b c \<Longrightarrow> holds_at None a c"
  by (auto simp: holds_at_def)

lemma holds_at_kept: "a = Some n \<Longrightarrow> holds_at None a b \<Longrightarrow> b = Some n"
  by (auto simp: holds_at_def)

context file_calls
begin

lemma mkdir_holds:
  "is_rooted p \<Longrightarrow> is_rooted q \<Longrightarrow> os_MkdirAll os p m s = (r, s') \<Longrightarrow> holds_at None (node s q) (node s' q)"
  using mkdir_keeps [of p q s m] mkdir_only [of p q s m r s'] by (cases "node s q") (auto simp: holds_at_def)

lemma copy_writes:
  assumes "is_rooted p" "os_OpenFile os p m s = (Inr h, s1)" "io_Copy os h e s1 = (None, s2)"
  shows "node s2 p = Some (File (entry_data e)) \<and> entry_error e = None"
  using assms(3) write_file [OF assms(1,2), of "entry_data e"] by (auto simp: io_Copy_def split: prod.splits option.splits)

lemma extract_file_result:
  assumes p: "is_rooted p" "is_rooted (filepath_Dir p)" and q: "is_rooted q"
    and run: "extract_file os p e s = (Inr (), s')"
  shows "entry_error e = None \<and>
    holds_at (if same_path p q then Some (File (entry_data e)) else None) (node s q) (node s' q)"
proof -
  obtain r1 s1 where m: "os_MkdirAll os (filepath_Dir p) 0x1C0 s = (r1, s1)" by fastforce
  obtain r2 s2 where opn: "os_OpenFile os p (ucast (header_mode (entry_header e))) s1 = (r2, s2)" by fastforce
  from run m have "r1 = None" by (cases r1) (auto simp: extract_file_def)
  with run m opn obtain h where r2: "r2 = Inr h" by (cases r2) (auto simp: extract_file_def)
  obtain r3 s3 where c: "io_Copy os h e s2 = (r3, s3)" by fastforce
  obtain r4 s4 where cl: "file_Close os h s3 = (r4, s4)" by fastforce
  from run m opn r2 c cl \<open>r1 = None\<close> have ok: "r3 = None" "s' = s4"
    by (auto simp: extract_file_def split: option.splits)
  note opn = opn [unfolded r2] and c = c [unfolded ok(1)]
  have s4: "node s' x = node s3 x" for x using close_none [of h s3 x] cl ok(2) by simp
  note w = copy_writes [OF p(1) opn c]
  show ?thesis
  proof (cases "same_path p q")
    case True
    have "node s' q = Some (File (entry_data e))" using w s4 [of p] node_cong [OF True, of s'] by simp
    with w True show ?thesis by (simp add: holds_at_def)
  next
    case False
    have "node s3 q = node s2 q" using copy_at [OF p(1) q opn False, of e] c by simp
    moreover have "node s2 q = node s1 q"
      using open_at [OF p(1) q False, of "ucast (header_mode (entry_header e))" s1] opn by simp
    ultimately show ?thesis using mkdir_holds [OF p(2) q m] s4 w False by simp
  qed
qed

lemma extract_entry_result:
  assumes dir: "is_rooted dir" and q: "is_rooted q" and run: "extract_entry os dir e s = (Inr (), s')"
  shows "entry_ok e \<and>
    holds_at (if same_path (entry_path dir e) q then Some (entry_node e) else None) (node s q) (node s' q)"
proof -
  let ?h = "entry_header e"
  from run have safe: "\<not> unsafe_name (filepath_Clean (header_name ?h))"
    by (auto simp: extract_entry_def Let_def split: if_splits)
  note at = Join_safe_elems [OF safe dir, folded entry_path_def]
  note rooted = above_rooted [OF at(1)] above_rooted [OF at(2)]
  show ?thesis
  proof (cases "Typeflag ?h = TypeDir")
    case True
    obtain r s1 where m: "os_MkdirAll os (entry_path dir e) (ucast (header_mode ?h)) s = (r, s1)" by fastforce
    with run safe True have ok: "r = None" "s1 = s'"
      by (cases r; simp add: extract_entry_def Let_def entry_path_def)+
    note m = m [unfolded ok]
    have "node s' q = Some Dir" if "same_path (entry_path dir e) q"
      using mkdir_made [OF _ m] rooted node_cong [OF that, of s'] by simp
    with mkdir_holds [OF _ q m] rooted True safe show ?thesis
      by (auto simp: entry_ok_def entry_node_def holds_at_def)
  next
    case False
    with run safe have reg: "Typeflag ?h = TypeReg" and f: "extract_file os (entry_path dir e) e s = (Inr (), s')"
      by (auto simp: extract_entry_def Let_def entry_path_def split: if_splits)
    from extract_file_result [OF _ _ q f] rooted reg False safe show ?thesis
      by (cases "same_path (entry_path dir e) q") (simp_all add: entry_ok_def entry_node_def)
  qed
qed

lemma extract_entries_result:
  "is_rooted dir \<Longrightarrow> is_rooted q \<Longrightarrow> extract_entries os dir es err s = (Inr (), s') \<Longrightarrow>
   errors_Is err EOF \<and> list_all entry_ok es \<and> holds_at (archive_node dir es q) (node s q) (node s' q)"
proof (induction es arbitrary: s)
  case Nil
  then show ?case by (auto simp: holds_at_def split: if_splits)
next
  case (Cons e es)
  obtain r s1 where e: "extract_entry os dir e s = (r, s1)" by fastforce
  with Cons.prems(3) have r: "r = Inr ()" by (cases r) auto
  note step = extract_entry_result [OF Cons.prems(1,2) e [unfolded r]]
  from Cons.prems e r have "extract_entries os dir es err s1 = (Inr (), s')" by simp
  note rest = Cons.IH [OF Cons.prems(1,2) this]
  show ?case
  proof (cases "archive_node dir es q")
    case None
    show ?thesis
    proof (cases "same_path (entry_path dir e) q")
      case True
      with step have "node s1 q = Some (entry_node e)" by (simp add: holds_at_def)
      then have "node s' q = Some (entry_node e)" using holds_at_kept rest None by metis
      with True None rest step show ?thesis by (simp add: holds_at_def)
    next
      case False
      with step rest None holds_at_trans show ?thesis by auto
    qed
  next
    case (Some n)
    with rest step show ?thesis by (simp add: holds_at_def)
  qed
qed

lemma extract_result:
  assumes "is_rooted dir" "is_rooted q" "extractFabricRelease os dir (Inr a) s = (Inr (), s')"
  shows "errors_Is (tar_end a) EOF \<and> gzip_close a = None \<and> list_all entry_ok (tar_entries a) \<and>
    holds_at (archive_node dir (tar_entries a) q) (node s q) (node s' q)"
proof -
  obtain r s1 where e: "extract_entries os dir (tar_entries a) (tar_end a) s = (r, s1)" by fastforce
  with assms(3) have "r = Inr ()" "gzip_close a = None" "s1 = s'" by (auto simp: extractFabricRelease_def)
  with extract_entries_result [OF assms(1,2), of "tar_entries a" "tar_end a" s s'] e show ?thesis by simp
qed

end

subsection \<open>Installing a release\<close>

lemma is_rooted_Clean: "is_rooted p \<Longrightarrow> is_rooted (filepath_Clean p)"
  unfolding filepath_Clean_render using is_rooted_render [OF path_elems_form, of p] by simp

lemma is_rooted_Dir: "is_rooted p \<Longrightarrow> is_rooted (filepath_Dir p)"
proof -
  assume "is_rooted p"
  then obtain rest where "p = CHR ''/'' # rest" by (cases p) (auto simp: is_rooted_def)
  then show ?thesis unfolding filepath_Dir_def
    by (intro is_rooted_Clean) (simp add: is_rooted_def dropWhile_append3)
qed

text \<open>The path of the names \<open>ns\<close> below a directory.\<close>

definition below :: "string \<Rightarrow> string list \<Rightarrow> string" where
  "below dir ns = render_path True (path_elems dir @ ns)"

lemma below_path:
  assumes "is_rooted dir" "\<forall>n \<in> set ns. plain_name n"
  shows "is_rooted (below dir ns)" "path_elems (below dir ns) = path_elems dir @ ns" "above dir (below dir ns)"
  using descend_form [OF assms(2), of dir] assms(1)
  by (simp_all add: below_def above_def is_rooted_render path_elems_render)

text \<open>What an archive says about a path does not depend on where it is extracted.\<close>

lemma same_path_below:
  assumes "is_rooted dir" "\<forall>n \<in> set ms. plain_name n" "\<forall>n \<in> set ns. plain_name n"
  shows "same_path (below dir ms) (below dir ns) \<longleftrightarrow> ms = ns"
  using below_path [OF assms(1,2)] below_path [OF assms(1,3)] by (simp add: same_path_def)

lemma archive_node_moves:
  assumes "is_rooted d" "is_rooted t" "\<forall>n \<in> set ns. plain_name n"
  shows "list_all entry_ok es \<Longrightarrow> archive_node t es (below t ns) = archive_node d es (below d ns)"
proof (induction es)
  case (Cons e es)
  then have safe: "\<not> unsafe_name (filepath_Clean (header_name (entry_header e)))" by (simp add: entry_ok_def)
  obtain ms where ms: "filepath_Clean (header_name (entry_header e)) = render_path False ms" "\<forall>n \<in> set ms. plain_name n"
    using safe_name [OF safe] .
  have "entry_path x e = below x ms" if "is_rooted x" for x
    using Join_safe [OF ms(2), of x] that by (simp add: entry_path_def below_def ms(1))
  with Cons assms ms(2) show ?case by (simp add: same_path_below)
qed simp

context local_calls
begin

lemma replaced_only_when_extracted:
  assumes t: "is_rooted t" and d: "is_rooted d" and apart: "\<not> above t d" "\<not> above d t"
    and q: "above d q" "node s q \<noteq> None"
    and changed: "node (snd (ensureFabricRelease os t download d s)) q \<noteq> node s q"
  shows "\<exists>response archive. download = Inr response \<and> StatusCode response = 200 \<and> Body response = Inr archive \<and>
    fst (extractFabricRelease os t (Inr archive) (snd (os_MkdirAll os (filepath_Dir d) 0x1C0 s))) = Inr ()"
proof -
  obtain r1 s1 where m: "os_MkdirAll os (filepath_Dir d) 0x1C0 s = (r1, s1)" by fastforce
  note rooted = above_rooted [OF q(1), THEN conjunct2]
  have s1: "node s1 q = node s q" using mkdir_keeps [OF is_rooted_Dir [OF d] rooted q(2), of "0x1C0"] m by simp
  have ensure: "\<not> os_Stat os (filepath_Join (filepath_Join d ''bin'') ''peer'') s" "r1 = None"
    using changed s1 by (auto simp: ensureFabricRelease_def m and_then_def split: if_splits option.splits)
  obtain response where response: "download = Inr response"
    using changed s1 ensure m by (cases download) (auto simp: ensureFabricRelease_def)
  obtain r2 s2 where x: "extractFabricRelease os t (Body response) s1 = (r2, s2)" by fastforce
  have "\<not> above q t" "\<not> above t q" using apart q(1) above_trans above_comparable by metis+
  then have s2: "node s2 q = node s1 q" using extract_confined [OF t rooted, of "Body response" s1] x by simp
  have ok: "StatusCode response = 200" "r2 = Inr ()"
    using changed s1 s2 ensure m response x
    by (auto simp: ensureFabricRelease_def install_release_def NoError_def split: if_splits sum.splits)
  moreover obtain archive where "Body response = Inr archive"
    using x ok(2) by (cases "Body response") (auto simp: extractFabricRelease_def)
  ultimately show ?thesis using response x m by simp
qed

end

context file_calls
begin

lemma installed:
  assumes t: "is_rooted t" and d: "is_rooted d" and apart: "\<not> above t d" "\<not> above d t"
    and absent: "\<not> os_Stat os (filepath_Join (filepath_Join d ''bin'') ''peer'') s"
    and run: "ensureFabricRelease os t download d s = (Inr (), s')"
  shows "\<exists>response archive. download = Inr response \<and> StatusCode response = 200 \<and> Body response = Inr archive \<and>
    errors_Is (tar_end archive) EOF \<and> list_all entry_ok (tar_entries archive) \<and>
    (\<forall>ns. (\<forall>n \<in> set ns. plain_name n) \<longrightarrow>
       holds_at (archive_node d (tar_entries archive) (below d ns)) (node s (below t ns)) (node s' (below d ns)))"
proof -
  obtain r1 s1 where m: "os_MkdirAll os (filepath_Dir d) 0x1C0 s = (r1, s1)" by fastforce
  have r1: "r1 = None" using run absent m by (cases r1) (auto simp: ensureFabricRelease_def)
  obtain response where response: "download = Inr response"
    using run absent m r1 by (cases download) (auto simp: ensureFabricRelease_def)
  with run absent m r1 have inst: "install_release os t d response s1 = (Inr (), s')"
    by (auto simp: ensureFabricRelease_def split: prod.splits)
  then have status: "StatusCode response = 200" by (auto simp: install_release_def split: if_splits)
  obtain r2 s2 where x: "extractFabricRelease os t (Body response) s1 = (r2, s2)" by fastforce
  with inst status have r2: "r2 = Inr ()" by (cases r2) (auto simp: install_release_def NoError_def)
  then obtain archive where body: "Body response = Inr archive"
    using x by (cases "Body response") (auto simp: extractFabricRelease_def)
  obtain r3 s3 where rm: "os_RemoveAll os d s2 = (r3, s3)" by fastforce
  with inst status x r2 have r3: "r3 = None" by (cases r3) (auto simp: install_release_def NoError_def)
  obtain r4 s4 where mv: "os_Rename os t d s3 = (r4, s4)" by fastforce
  with inst status x r2 rm r3 have r4: "r4 = None" "s4 = s'"
    by (cases r4; simp add: install_release_def NoError_def)+
  note result = extract_result [OF t _ x [unfolded body r2]]
  have ok: "errors_Is (tar_end archive) EOF" "list_all entry_ok (tar_entries archive)"
    using result [OF t] by simp_all
  have "holds_at (archive_node d (tar_entries archive) (below d ns)) (node s (below t ns)) (node s' (below d ns))"
    if ns: "\<forall>n \<in> set ns. plain_name n" for ns
  proof -
    note q = below_path [OF t ns]
    have "\<not> above d (below t ns)" using apart q(3) above_comparable by metis
    then have "node s3 (below t ns) = node s2 (below t ns)" using remove_below [OF d q(1), of s2] rm by simp
    moreover have "node s' (below d ns) = node s3 (below t ns)"
      using rename_moves [OF t d mv [unfolded r4] ns] by (simp add: below_def)
    moreover have "holds_at (archive_node t (tar_entries archive) (below t ns)) (node s1 (below t ns)) (node s2 (below t ns))"
      using result [OF q(1)] by simp
    moreover have "holds_at None (node s (below t ns)) (node s1 (below t ns))"
      by (rule mkdir_holds [OF is_rooted_Dir [OF d] q(1) m])
    ultimately show ?thesis using archive_node_moves [OF d t ns ok(2)]
      by (cases "archive_node d (tar_entries archive) (below d ns)") (auto simp: holds_at_def)
  qed
  with response status body ok show ?thesis by blast
qed

end

end
