(* ===== verification/ArchiveProps.thy ===== *)
theory ArchiveProps
  imports Archive
begin

text \<open>
  A file tree whose working directory is the root interprets the calls of \<open>Archive\<close>, and the
  properties of the release installer.
\<close>

subsection \<open>A file tree\<close>

type_synonym tree = "(string list \<times> node) list"

definition tree_path :: "string \<Rightarrow> string list" where
  "tree_path p = path_elems (if is_rooted p then p else CHR ''/'' # p)"

definition tree_node :: "tree \<Rightarrow> string \<Rightarrow> node option" where
  "tree_node t p = map_of t (tree_path p)"

fun tree_mkdirs :: "string list list \<Rightarrow> tree \<Rightarrow> go_error option \<times> tree" where
  "tree_mkdirs [] t = (None, t)"
| "tree_mkdirs (p # ps) t =
     (case map_of t p of
        None \<Rightarrow> tree_mkdirs ps ((p, Dir) # t)
      | Some Dir \<Rightarrow> tree_mkdirs ps t
      | Some (File _) \<Rightarrow> (Some (Ext ''not a directory''), t))"

definition tree_open :: "string list \<Rightarrow> tree \<Rightarrow> string list res \<times> tree" where
  "tree_open p t =
     (if p = [] \<or> map_of t p = Some Dir then (Inl (Ext ''is a directory''), t)
      else if map_of t (butlast p) \<noteq> Some Dir then (Inl (Ext ''no such directory''), t)
      else (Inr p, (p, File []) # t))"

definition tree_write :: "string list \<Rightarrow> bytes \<Rightarrow> tree \<Rightarrow> go_error option \<times> tree" where
  "tree_write p bs t =
     (case map_of t p of
        Some (File b) \<Rightarrow> (None, (p, File (b @ bs)) # t)
      | _ \<Rightarrow> (Some (Ext ''bad file descriptor''), t))"

definition tree_remove :: "string list \<Rightarrow> tree \<Rightarrow> tree" where
  "tree_remove p = filter (\<lambda>(q, _). \<not> prefix p q)"

definition tree_move :: "string list \<Rightarrow> string list \<Rightarrow> tree \<Rightarrow> tree" where
  "tree_move p p' = map (\<lambda>(q, n). (if prefix p q then p' @ drop (length p) q else q, n))"

definition tree_rename :: "string list \<Rightarrow> string list \<Rightarrow> tree \<Rightarrow> go_error option \<times> tree" where
  "tree_rename p p' t =
     (if map_of t p = None \<or> map_of t p' \<noteq> None \<or> map_of t (butlast p') \<noteq> Some Dir \<or> prefix p p' \<or> prefix p' p
      then (Some (Ext ''rename''), t)
      else (None, tree_move p p' (tree_remove p' t)))"

definition tree_os :: "(tree, string list) os" where
  "tree_os =
     \<lparr>os_Stat = \<lambda>p t. tree_node t p \<noteq> None,
      os_MkdirAll = \<lambda>p m. tree_mkdirs (prefixes (tree_path p)),
      os_OpenFile = \<lambda>p m. tree_open (tree_path p),
      file_Write = tree_write,
      file_Close = \<lambda>h t. (None, t),
      os_RemoveAll = \<lambda>p t. (None, tree_remove (tree_path p) t),
      os_Rename = \<lambda>p p'. tree_rename (tree_path p) (tree_path p')\<rparr>"

lemma tree_path_rooted: "is_rooted p \<Longrightarrow> tree_path p = path_elems p"
  by (simp add: tree_path_def)

lemma tree_mkdirs_other: "q \<notin> set ps \<Longrightarrow> map_of (snd (tree_mkdirs ps t)) q = map_of t q"
  by (induction ps arbitrary: t) (auto split: option.splits node.splits)

lemma tree_mkdirs_keeps: "map_of t q \<noteq> None \<Longrightarrow> map_of (snd (tree_mkdirs ps t)) q = map_of t q"
proof (induction ps arbitrary: t)
  case (Cons p ps)
  have "map_of t p = None \<Longrightarrow> map_of ((p, Dir) # t) q = map_of t q" using Cons.prems by auto
  with Cons Cons.IH [of "(p, Dir) # t"] show ?case by (simp split: option.splits node.splits)
qed simp

lemma tree_mkdirs_only:
  "map_of t q = None \<Longrightarrow>
   map_of (snd (tree_mkdirs ps t)) q = None \<or> map_of (snd (tree_mkdirs ps t)) q = Some Dir"
proof (induction ps arbitrary: t)
  case (Cons p ps)
  then show ?case
    by (cases "p = q") (auto simp: tree_mkdirs_keeps split: option.splits node.splits)
qed simp

lemma tree_mkdirs_made: "tree_mkdirs ps t = (None, t') \<Longrightarrow> q \<in> set ps \<Longrightarrow> map_of t' q = Some Dir"
proof (induction ps arbitrary: t)
  case (Cons p ps)
  have "map_of t' p = Some Dir" if "tree_mkdirs ps u = (None, t')" "map_of u p = Some Dir" for u
    using tree_mkdirs_keeps [of u p ps] that by simp
  with Cons show ?case by (auto split: option.splits node.splits)
qed simp

lemma tree_remove_lookup: "map_of (tree_remove p t) q = (if prefix p q then None else map_of t q)"
  by (induction t) (auto simp: tree_remove_def)

lemma prefix_moved: "prefix p r \<Longrightarrow> p' @ drop (length p) r = q \<longleftrightarrow> prefix p' q \<and> r = p @ drop (length p') q"
  by (auto simp: prefix_def)

lemma tree_move_lookup:
  assumes "\<not> prefix p p'" "\<not> prefix p' p"
  shows "map_of (tree_move p p' (tree_remove p' t)) q =
    (if prefix p' q then map_of t (p @ drop (length p') q) else if prefix p q then None else map_of t q)"
proof (induction t)
  case (Cons x t)
  obtain r n where x: "x = (r, n)" by fastforce
  have apart: "\<not> (prefix p r \<and> prefix p' r)" using assms prefix_same_cases by blast
  show ?case
  proof (cases "prefix p' r")
    case True
    with apart have "p @ drop (length p') q \<noteq> r" by (metis prefixI)
    with True apart Cons x show ?thesis by (auto simp: tree_move_def tree_remove_def)
  next
    case False
    then have "tree_move p p' (tree_remove p' (x # t)) =
        (if prefix p r then p' @ drop (length p) r else r, n) # tree_move p p' (tree_remove p' t)"
      by (simp add: tree_move_def tree_remove_def x)
    moreover have "r \<noteq> p' @ drop (length p) r" using False by (metis prefixI)
    ultimately show ?thesis using Cons False
      by (cases "prefix p r") (auto simp: x prefix_moved)
  qed
qed (simp add: tree_move_def tree_remove_def)

interpretation tree_up: file_calls tree_os tree_node
proof
  show "tree_node s p = tree_node s q" if "same_path p q" for p q s
    using that by (simp add: same_path_def tree_node_def tree_path_rooted)
  show "tree_node (snd (os_MkdirAll tree_os p m s)) q = tree_node s q"
    if "is_rooted p" "is_rooted q" "\<not> above q p" for p q m s
    using that tree_mkdirs_other by (simp add: tree_os_def tree_node_def tree_path_rooted above_def)
  show "tree_node (snd (os_MkdirAll tree_os p m s)) q = tree_node s q"
    if "is_rooted p" "is_rooted q" "tree_node s q \<noteq> None" for p q m s
    using that tree_mkdirs_keeps by (simp add: tree_os_def tree_node_def)
  show "tree_node (snd (os_OpenFile tree_os p m s)) q = tree_node s q"
    if "is_rooted p" "is_rooted q" "\<not> same_path p q" for p q m s
    using that by (simp add: tree_os_def tree_node_def tree_open_def tree_path_rooted same_path_def)
  show "tree_node (snd (file_Write tree_os h bs s1)) q = tree_node s1 q"
    if "is_rooted p" "is_rooted q" "os_OpenFile tree_os p m s = (Inr h, s1)" "\<not> same_path p q" for p q m s h bs s1
    using that by (auto simp: tree_os_def tree_node_def tree_open_def tree_write_def tree_path_rooted same_path_def
        split: if_splits option.splits node.splits)
  show "tree_node (snd (file_Close tree_os h s)) q = tree_node s q" for h s q
    by (simp add: tree_os_def)
  show "tree_node (snd (os_RemoveAll tree_os p s)) q = tree_node s q"
    if "is_rooted p" "is_rooted q" "\<not> above p q" for p q s
    using that by (simp add: tree_os_def tree_node_def tree_remove_lookup tree_path_rooted above_def)
  show "tree_node (snd (os_Rename tree_os p p' s)) q = tree_node s q"
    if "is_rooted p" "is_rooted p'" "is_rooted q" "\<not> above p q" "\<not> above p' q" for p p' q s
    using that by (simp add: tree_os_def tree_node_def tree_rename_def tree_move_lookup tree_path_rooted above_def)
  show "tree_node s' p = Some Dir" if "is_rooted p" "os_MkdirAll tree_os p m s = (None, s')" for p m s s'
    using that tree_mkdirs_made [of "prefixes (tree_path p)" s s' "tree_path p"] by (simp add: tree_os_def tree_node_def)
  show "tree_node s' q = None \<or> tree_node s' q = Some Dir"
    if "is_rooted p" "is_rooted q" "tree_node s q = None" "os_MkdirAll tree_os p m s = (r, s')" for p q m s r s'
    using that tree_mkdirs_only [of s "tree_path q" "prefixes (tree_path p)"] by (simp add: tree_os_def tree_node_def)
  show "tree_node s2 p = Some (File bs)"
    if "is_rooted p" "os_OpenFile tree_os p m s = (Inr h, s1)" "file_Write tree_os h bs s1 = (None, s2)" for p m s h bs s1 s2
    using that by (auto simp: tree_os_def tree_node_def tree_open_def tree_write_def split: if_splits)
  show "tree_node s' (render_path True (path_elems p' @ ns)) = tree_node s (render_path True (path_elems p @ ns))"
    if "is_rooted p" "is_rooted p'" "os_Rename tree_os p p' s = (None, s')" "\<forall>n \<in> set ns. plain_name n" for p p' s s' ns
    using that below_path [OF that(1,4)] below_path [OF that(2,4)]
    by (auto simp: tree_os_def tree_node_def tree_rename_def tree_move_lookup tree_path_rooted below_def split: if_splits)
qed

subsection \<open>The properties\<close>

definition demo_entry :: "string \<Rightarrow> char \<Rightarrow> bytes \<Rightarrow> tar_entry" where
  "demo_entry name flag bs =
     \<lparr>entry_header = \<lparr>header_name = name, Typeflag = flag, header_mode = 0x1ED\<rparr>, entry_data = bs, entry_error = None\<rparr>"

definition demo_archive :: "tar_entry list \<Rightarrow> tar_archive" where
  "demo_archive es = \<lparr>tar_entries = es, tar_end = EOF, gzip_close = None\<rparr>"

definition demo_entries :: "tar_entry list" where
  "demo_entries = [demo_entry ''./bin/'' TypeDir [], demo_entry ''bin/peer'' TypeReg [1, 2]]"

definition demo_tree :: tree where
  "demo_tree = [([], Dir), ([''tmp''], Dir), ([''r''], Dir), ([''r'', ''f''], Dir), ([''r'', ''f'', ''old''], File [9])]"

definition demo_response :: response where
  "demo_response = \<lparr>StatusCode = 200, Body = Inr (demo_archive demo_entries), body_close = None\<rparr>"

text \<open>
  C37. Extracting an archive, whatever its entries are named and wherever it fails, changes nothing
  outside the destination: a path that is neither in it nor above it keeps its node.
\<close>

theorem extraction_confined:
  assumes "local_calls os node" "is_rooted destination" "is_rooted q" "\<not> above q destination" "\<not> above destination q"
  shows "node (snd (extractFabricRelease os destination source s)) q = node s q"
  using assms by (rule local_calls.extract_confined)

theorem extraction_confined_witness:
  "tree_node (snd (extractFabricRelease tree_os ''/tmp''
     (Inr (demo_archive [demo_entry ''a'' TypeReg [1], demo_entry ''b/../../r/f/old'' TypeReg [2]])) demo_tree)) ''/r/f/old'' = Some (File [9])"
proof -
  have "is_rooted ''/tmp''" "is_rooted ''/r/f/old''" "\<not> above ''/r/f/old'' ''/tmp''" "\<not> above ''/tmp'' ''/r/f/old''"
    "tree_node demo_tree ''/r/f/old'' = Some (File [9])"
    by code_simp+
  with extraction_confined [OF tree_up.local_calls_axioms] show ?thesis by simp
qed

text \<open>
  C39. Installing a release touches an existing file of the destination only when the download
  succeeded with status 200 and its whole archive was extracted into the temporary directory first;
  a failing download or extraction leaves the installed release as it was.
\<close>

theorem release_replaced_only_by_complete_download:
  assumes "local_calls os node" "is_rooted temporary" "is_rooted destination"
    and "\<not> above temporary destination" "\<not> above destination temporary"
    and "above destination q" "node s q \<noteq> None"
    and "node (snd (ensureFabricRelease os temporary download destination s)) q \<noteq> node s q"
  shows "\<exists>response archive. download = Inr response \<and> StatusCode response = 200 \<and> Body response = Inr archive \<and>
    fst (extractFabricRelease os temporary (Inr archive) (snd (os_MkdirAll os (filepath_Dir destination) 0x1C0 s))) = Inr ()"
  using assms by (rule local_calls.replaced_only_when_extracted)

theorem release_replaced_only_by_complete_download_witness:
  "\<exists>response archive. (Inr demo_response :: response res) = Inr response \<and> StatusCode response = 200 \<and> Body response = Inr archive \<and>
    fst (extractFabricRelease tree_os ''/tmp'' (Inr archive)
      (snd (os_MkdirAll tree_os (filepath_Dir ''/r/f'') 0x1C0 demo_tree))) = Inr ()"
proof -
  have c: "is_rooted ''/tmp''" "is_rooted ''/r/f''" "\<not> above ''/tmp'' ''/r/f''" "\<not> above ''/r/f'' ''/tmp''"
    "above ''/r/f'' ''/r/f/old''"
    by code_simp+
  have before: "tree_node demo_tree ''/r/f/old'' = Some (File [9])" by code_simp
  have after: "tree_node (snd (ensureFabricRelease tree_os ''/tmp'' (Inr demo_response) ''/r/f'' demo_tree)) ''/r/f/old'' = None"
    by code_simp
  show ?thesis
    by (rule release_replaced_only_by_complete_download [OF tree_up.local_calls_axioms c, where s = demo_tree])
      (simp_all only: before after option.distinct not_False_eq_True)
qed

text \<open>
  C38. When a release that was not there has been installed, the download was a complete archive of
  directories and regular files with confined names, and every path below the destination holds what
  its last entry says; other paths are directories above an entry or what the temporary directory held.
\<close>

theorem release_installed:
  assumes "file_calls os node" "is_rooted temporary" "is_rooted destination"
    and "\<not> above temporary destination" "\<not> above destination temporary"
    and "\<not> os_Stat os (filepath_Join (filepath_Join destination ''bin'') ''peer'') s"
    and "ensureFabricRelease os temporary download destination s = (Inr (), s')"
  shows "\<exists>response archive. download = Inr response \<and> StatusCode response = 200 \<and> Body response = Inr archive \<and>
    errors_Is (tar_end archive) EOF \<and> list_all entry_ok (tar_entries archive) \<and>
    (\<forall>ns. (\<forall>n \<in> set ns. plain_name n) \<longrightarrow>
       holds_at (archive_node destination (tar_entries archive) (below destination ns))
         (node s (below temporary ns)) (node s' (below destination ns)))"
  using assms by (rule file_calls.installed)

theorem release_installed_witness:
  "tree_node (snd (ensureFabricRelease tree_os ''/tmp'' (Inr demo_response) ''/r/f'' demo_tree)) ''/r/f/bin/peer'' = Some (File [1, 2])"
proof -
  have c: "is_rooted ''/tmp''" "is_rooted ''/r/f''" "\<not> above ''/tmp'' ''/r/f''" "\<not> above ''/r/f'' ''/tmp''"
    "\<not> os_Stat tree_os (filepath_Join (filepath_Join ''/r/f'' ''bin'') ''peer'') demo_tree"
    and ok: "fst (ensureFabricRelease tree_os ''/tmp'' (Inr demo_response) ''/r/f'' demo_tree) = Inr ()"
    by code_simp+
  obtain s' where run: "ensureFabricRelease tree_os ''/tmp'' (Inr demo_response) ''/r/f'' demo_tree = (Inr (), s')"
    using ok by (metis prod.collapse)
  have names: "\<forall>n \<in> set [''bin'', ''peer'']. plain_name n" by (simp add: plain_name_def)
  have at: "below ''/r/f'' [''bin'', ''peer''] = ''/r/f/bin/peer''"
    "archive_node ''/r/f'' demo_entries ''/r/f/bin/peer'' = Some (File [1, 2])"
    by code_simp+
  from release_installed [OF tree_up.file_calls_axioms c run] names at run show ?thesis
    by (auto simp: demo_response_def demo_archive_def holds_at_def dest!: spec [where x = "[''bin'', ''peer'']"])
qed

end
