(* ===== verification/Harness.thy ===== *)
theory Harness
  imports Archive
begin

text \<open>
  The Fabric network of the integration tests, \<^verbatim>\<open>internal/integrationtest/integrationtest.go\<close>: the
  commands that build it, deploy chaincodes on it and take snapshots of its channels. A command is run
  by the operating system on a state \<open>'s\<close>; a \<^verbatim>\<open>require\<close> that fails ends the test, as an error here.
\<close>

subsection \<open>Strings\<close>

text \<open>The rest of \<open>s\<close> after the last \<open>sep\<close>: \<^verbatim>\<open>s[strings.LastIndex(s, sep)+len(sep):]\<close>.\<close>

fun after_last :: "string \<Rightarrow> string \<Rightarrow> string option" where
  "after_last sep [] = (if sep = [] then Some [] else None)"
| "after_last sep (c # cs) =
     (case after_last sep cs of
        Some rest \<Rightarrow> Some rest
      | None \<Rightarrow> if HasPrefix (c # cs) sep then Some (drop (length sep) (c # cs)) else None)"

text \<open>\<^verbatim>\<open>strings.TrimSpace\<close>: the UTF-8 encodings of white space are taken off both ends.\<close>

definition white_space :: "string list" where
  "white_space =
     map (\<lambda>c. [c]) [CHR 0x09, CHR 0x0A, CHR 0x0B, CHR 0x0C, CHR 0x0D, CHR 0x20] @
     [[CHR 0xC2, CHR 0x85], [CHR 0xC2, CHR 0xA0], [CHR 0xE1, CHR 0x9A, CHR 0x80]] @
     map (\<lambda>n. [CHR 0xE2, CHR 0x80, char_of n]) ([0x80..<0x8B] @ [0xA8, 0xA9, 0xAF :: nat]) @
     [[CHR 0xE2, CHR 0x81, CHR 0x9F], [CHR 0xE3, CHR 0x80, CHR 0x80]]"

function trim_prefixes :: "string list \<Rightarrow> string \<Rightarrow> string" where
  "trim_prefixes ps s =
     (case find (\<lambda>p. p \<noteq> [] \<and> HasPrefix s p) ps of
        None \<Rightarrow> s
      | Some p \<Rightarrow> trim_prefixes ps (drop (length p) s))"
  by pat_completeness auto

termination
  by (relation "measure (length \<circ> snd)") (auto simp: find_Some_iff HasPrefix_iff)

declare trim_prefixes.simps [simp del]

definition TrimSpace :: "string \<Rightarrow> string" where
  "TrimSpace s = rev (trim_prefixes (map rev white_space) (rev (trim_prefixes white_space s)))"

fun FormatNat :: "nat \<Rightarrow> string" where
  "FormatNat n = (if n < 10 then [char_of (48 + n)] else FormatNat (n div 10) @ [char_of (48 + n mod 10)])"

declare FormatNat.simps [simp del]

definition FormatUint :: "uint64 \<Rightarrow> string" where
  "FormatUint n = FormatNat (unat n)"

text \<open>\<^verbatim>\<open>filepath.Join\<close> of any number of elements: the empty ones in front are skipped.\<close>

fun filepath_Joins :: "string list \<Rightarrow> string" where
  "filepath_Joins [] = []"
| "filepath_Joins (e # es) = (if e \<noteq> [] then filepath_Clean (strings_Join (e # es) ''/'') else filepath_Joins es)"

lemma filepath_Joins_two: "filepath_Joins [dir, name] = filepath_Join dir name"
  by (simp add: filepath_Join_def)

subsection \<open>Commands\<close>

text \<open>An \<^verbatim>\<open>exec.Cmd\<close>; without a directory or an environment it inherits those of the test.\<close>

record command =
  cmd_Path :: string
  cmd_Args :: "string list"
  cmd_Dir :: string
  cmd_Env :: "string list"

text \<open>
  \<^verbatim>\<open>CombinedOutput\<close>, \<^verbatim>\<open>Output\<close> and \<^verbatim>\<open>Run\<close> of a command; \<open>polls\<close> is how often
  \<^verbatim>\<open>require.Eventually\<close> evaluates its condition before its time is over; \<open>decode_height\<close> is
  \<^verbatim>\<open>json.Unmarshal\<close> of the channel information.
\<close>

record ('s, 'h) shell = "('s, 'h) os" +
  CombinedOutput :: "command \<Rightarrow> 's \<Rightarrow> (string \<times> go_error option) \<times> 's"
  Output :: "command \<Rightarrow> 's \<Rightarrow> (string \<times> go_error option) \<times> 's"
  cmd_Run :: "command \<Rightarrow> 's \<Rightarrow> go_error option \<times> 's"
  os_ReadFile :: "string \<Rightarrow> 's \<Rightarrow> bytes res"
  os_WriteFile :: "string \<Rightarrow> bytes \<Rightarrow> 32 word \<Rightarrow> 's \<Rightarrow> go_error option \<times> 's"
  Getenv :: "string \<Rightarrow> string"
  Environ :: "string list"
  http_Get :: "string \<Rightarrow> response res"
  GOOS :: string
  GOARCH :: string
  Caller :: "string option"
  polls :: nat
  decode_height :: "string \<Rightarrow> uint64 res"

record fabric_network =
  net_root :: string
  net_home :: string
  net_samples :: string
  net_version :: string
  net_stateDB :: string

definition bin :: "fabric_network \<Rightarrow> string \<Rightarrow> string" where
  "bin f name = filepath_Joins [net_home f, ''bin'', name]"

definition crypto :: "fabric_network \<Rightarrow> string list \<Rightarrow> string" where
  "crypto f parts = filepath_Joins ([net_root f, ''crypto''] @ parts)"

definition peerCA :: "fabric_network \<Rightarrow> string" where
  "peerCA f = crypto f [''peerOrganizations'', ''org1.example.com'', ''tlsca'', ''tlsca.org1.example.com-cert.pem'']"

definition ordererCA :: "fabric_network \<Rightarrow> string" where
  "ordererCA f = crypto f [''ordererOrganizations'', ''example.com'', ''tlsca'', ''tlsca.example.com-cert.pem'']"

definition ordererArgs :: "fabric_network \<Rightarrow> string list" where
  "ordererArgs f =
     [''--orderer'', ''localhost:18050'', ''--ordererTLSHostnameOverride'', ''orderer.example.com'', ''--tls'', ''--cafile'', ordererCA f]"

definition net_command :: "('s, 'h, 'm) shell_scheme \<Rightarrow> fabric_network \<Rightarrow> string \<Rightarrow> string list \<Rightarrow> command" where
  "net_command sh f name args = \<lparr>cmd_Path = name, cmd_Args = args, cmd_Dir = net_root f, cmd_Env = Environ sh\<rparr>"

definition peerCommand :: "('s, 'h, 'm) shell_scheme \<Rightarrow> fabric_network \<Rightarrow> string list \<Rightarrow> command" where
  "peerCommand sh f args =
     (let c = net_command sh f (bin f ''peer'') args in
      c\<lparr>cmd_Env := cmd_Env c @
        [''FABRIC_CFG_PATH='' @ filepath_Joins [net_home f, ''config''],
         ''CORE_PEER_TLS_ENABLED=true'',
         ''CORE_PEER_LOCALMSPID=Org1MSP'',
         ''CORE_PEER_MSPCONFIGPATH='' @
           crypto f [''peerOrganizations'', ''org1.example.com'', ''users'', ''Admin@org1.example.com'', ''msp''],
         ''CORE_PEER_ADDRESS=localhost:18051'',
         ''CORE_PEER_TLS_ROOTCERT_FILE='' @ peerCA f]\<rparr>)"

definition composeCommand :: "('s, 'h, 'm) shell_scheme \<Rightarrow> fabric_network \<Rightarrow> string list \<Rightarrow> command" where
  "composeCommand sh f args =
     (let c = net_command sh f ''docker'' ([''compose'', ''-f'', filepath_Joins [net_root f, ''compose.yaml'']] @ args) in
      c\<lparr>cmd_Env := cmd_Env c @ [''FABRIC_VERSION='' @ net_version f, ''STATE_DATABASE='' @ net_stateDB f]\<rparr>)"

subsection \<open>Running commands\<close>

text \<open>Statements of a test in sequence, up to the first one that fails.\<close>

definition tbind :: "('s \<Rightarrow> 'a res \<times> 's) \<Rightarrow> ('a \<Rightarrow> 's \<Rightarrow> 'b res \<times> 's) \<Rightarrow> 's \<Rightarrow> 'b res \<times> 's" where
  "tbind m k s = (case m s of (Inl e, s) \<Rightarrow> (Inl e, s) | (Inr x, s) \<Rightarrow> k x s)"

definition tret :: "'a \<Rightarrow> 's \<Rightarrow> 'a res \<times> 's" where
  "tret x s = (Inr x, s)"

definition tfail :: "go_error \<Rightarrow> 's \<Rightarrow> 'a res \<times> 's" where
  "tfail e s = (Inl e, s)"

text \<open>\<^verbatim>\<open>require.NoError\<close> of a call that changes the state, and of one that only reads it.\<close>

definition tcall :: "('s \<Rightarrow> go_error option \<times> 's) \<Rightarrow> 's \<Rightarrow> unit res \<times> 's" where
  "tcall m s = (case m s of (Some e, s) \<Rightarrow> (Inl e, s) | (None, s) \<Rightarrow> (Inr (), s))"

definition tread :: "('s \<Rightarrow> 'a res) \<Rightarrow> 's \<Rightarrow> 'a res \<times> 's" where
  "tread m s = (m s, s)"

fun tfor :: "('a \<Rightarrow> 's \<Rightarrow> 'b res \<times> 's) \<Rightarrow> 'a list \<Rightarrow> 's \<Rightarrow> 'b list res \<times> 's" where
  "tfor f [] = tret []"
| "tfor f (x # xs) = tbind (f x) (\<lambda>y. tbind (tfor f xs) (\<lambda>ys. tret (y # ys)))"

definition runCommand :: "('s, 'h, 'm) shell_scheme \<Rightarrow> fabric_network \<Rightarrow> command \<Rightarrow> 's \<Rightarrow> unit res \<times> 's" where
  "runCommand sh f c s =
     (case CombinedOutput sh c s of
        ((_, None), s) \<Rightarrow> (Inr (), s)
      | ((_, Some e), s) \<Rightarrow>
          (let (_, s) = CombinedOutput sh (composeCommand sh f [''logs'', ''peer'', ''couchdb'']) s in (Inl e, s)))"

definition net_output :: "('s, 'h, 'm) shell_scheme \<Rightarrow> command \<Rightarrow> 's \<Rightarrow> string res \<times> 's" where
  "net_output sh c s =
     (case CombinedOutput sh c s of
        ((out, None), s) \<Rightarrow> (Inr out, s)
      | ((_, Some e), s) \<Rightarrow> (Inl e, s))"

definition net_run :: "('s, 'h, 'm) shell_scheme \<Rightarrow> fabric_network \<Rightarrow> string \<Rightarrow> string list \<Rightarrow> 's \<Rightarrow> unit res \<times> 's" where
  "net_run sh f name args = runCommand sh f (net_command sh f name args)"

definition runPeer :: "('s, 'h, 'm) shell_scheme \<Rightarrow> fabric_network \<Rightarrow> string list \<Rightarrow> 's \<Rightarrow> unit res \<times> 's" where
  "runPeer sh f args = runCommand sh f (peerCommand sh f args)"

definition peerOutput :: "('s, 'h, 'm) shell_scheme \<Rightarrow> fabric_network \<Rightarrow> string list \<Rightarrow> 's \<Rightarrow> string res \<times> 's" where
  "peerOutput sh f args = net_output sh (peerCommand sh f args)"

definition compose :: "('s, 'h, 'm) shell_scheme \<Rightarrow> fabric_network \<Rightarrow> string list \<Rightarrow> 's \<Rightarrow> unit res \<times> 's" where
  "compose sh f args = runCommand sh f (composeCommand sh f args)"

text \<open>\<^verbatim>\<open>require.Eventually\<close> of a condition that is the success of a command.\<close>

fun Eventually :: "nat \<Rightarrow> ('s \<Rightarrow> go_error option \<times> 's) \<Rightarrow> 's \<Rightarrow> unit res \<times> 's" where
  "Eventually 0 m s = (Inl (New ''Condition never satisfied'' []), s)"
| "Eventually (Suc n) m s = (case m s of (None, s) \<Rightarrow> (Inr (), s) | (Some _, s) \<Rightarrow> Eventually n m s)"

definition eventually_runs :: "('s, 'h, 'm) shell_scheme \<Rightarrow> command \<Rightarrow> 's \<Rightarrow> unit res \<times> 's" where
  "eventually_runs sh c = Eventually (polls sh) (cmd_Run sh c)"

subsection \<open>The channels and the chaincodes\<close>

definition config_block :: "fabric_network \<Rightarrow> string \<Rightarrow> string" where
  "config_block f channel = filepath_Joins [net_root f, channel @ ''.block'']"

definition osnadmin_args :: "fabric_network \<Rightarrow> string \<Rightarrow> string list" where
  "osnadmin_args f channel =
     (let admin = [''-o'', ''localhost:18053'', ''--ca-file'', ordererCA f,
            ''--client-cert'', crypto f [''ordererOrganizations'', ''example.com'', ''orderers'', ''orderer.example.com'', ''tls'', ''server.crt''],
            ''--client-key'', crypto f [''ordererOrganizations'', ''example.com'', ''orderers'', ''orderer.example.com'', ''tls'', ''server.key'']] in
      [''channel'', ''join'', ''--channelID'', channel, ''--config-block'', config_block f channel] @ admin)"

definition fetch_args :: "fabric_network \<Rightarrow> string \<Rightarrow> string list" where
  "fetch_args f channel =
     [''channel'', ''fetch'', ''newest'', filepath_Joins [net_root f, channel @ ''-newest.block''], ''-c'', channel] @ ordererArgs f"

definition joinChannel :: "('s, 'h, 'm) shell_scheme \<Rightarrow> fabric_network \<Rightarrow> string \<Rightarrow> 's \<Rightarrow> unit res \<times> 's" where
  "joinChannel sh f channel =
     tbind (net_run sh f (bin f ''osnadmin'') (osnadmin_args f channel)) (\<lambda>_.
     tbind (runPeer sh f [''channel'', ''join'', ''-b'', config_block f channel]) (\<lambda>_.
       eventually_runs sh (peerCommand sh f (fetch_args f channel))))"

text \<open>A chaincode before it has a package: its name, the directory of its code and its collections.\<close>

record chaincode =
  cc_name :: string
  cc_path :: string
  cc_collections :: string

definition chaincodes :: "fabric_network \<Rightarrow> chaincode list" where
  "chaincodes f =
     (let singleCollection = filepath_Joins [net_root f, ''single-collection''];
          collections = filepath_Joins [net_root f, ''collections.json''] in
      [\<lparr>cc_name = ''basic'', cc_path = filepath_Joins [net_samples f, ''asset-transfer-basic'', ''chaincode-go''], cc_collections = []\<rparr>,
       \<lparr>cc_name = ''private'', cc_path = filepath_Joins [net_samples f, ''asset-transfer-private-data'', ''chaincode-go''],
         cc_collections = collections\<rparr>,
       \<lparr>cc_name = ''singlepublic'', cc_path = singleCollection, cc_collections = []\<rparr>,
       \<lparr>cc_name = ''singleprivate'', cc_path = singleCollection, cc_collections = collections\<rparr>])"

definition package_path :: "fabric_network \<Rightarrow> chaincode \<Rightarrow> string" where
  "package_path f c = filepath_Joins [net_root f, cc_name c @ ''.tar.gz'']"

definition package_chaincode :: "('s, 'h, 'm) shell_scheme \<Rightarrow> fabric_network \<Rightarrow> chaincode \<Rightarrow> 's \<Rightarrow> (chaincode \<times> string) res \<times> 's" where
  "package_chaincode sh f c =
     (let packagePath = package_path f c; label = cc_name c @ ''_1.0'' in
      tbind (runPeer sh f [''lifecycle'', ''chaincode'', ''package'', packagePath, ''--path'', cc_path c, ''--lang'', ''golang'', ''--label'', label]) (\<lambda>_.
      tbind (peerOutput sh f [''lifecycle'', ''chaincode'', ''calculatepackageid'', packagePath]) (\<lambda>out.
      tbind (runPeer sh f [''lifecycle'', ''chaincode'', ''install'', packagePath]) (\<lambda>_.
        tret (c, TrimSpace out)))))"

definition collections_args :: "chaincode \<Rightarrow> string list" where
  "collections_args c = (if cc_collections c \<noteq> [] then [''--collections-config'', cc_collections c] else [])"

definition approve_args :: "fabric_network \<Rightarrow> string \<Rightarrow> chaincode \<times> string \<Rightarrow> string list" where
  "approve_args f channel = (\<lambda>(c, packageID).
     [''lifecycle'', ''chaincode'', ''approveformyorg''] @ ordererArgs f @
     [''--channelID'', channel, ''--name'', cc_name c, ''--version'', ''1.0'', ''--package-id'', packageID, ''--sequence'', ''1''] @
     collections_args c)"

definition commit_args :: "fabric_network \<Rightarrow> string \<Rightarrow> chaincode \<times> string \<Rightarrow> string list" where
  "commit_args f channel = (\<lambda>(c, packageID).
     [''lifecycle'', ''chaincode'', ''commit''] @ ordererArgs f @
     [''--channelID'', channel, ''--name'', cc_name c, ''--version'', ''1.0'', ''--sequence'', ''1'',
      ''--peerAddresses'', ''localhost:18051'', ''--tlsRootCertFiles'', peerCA f] @ collections_args c)"

definition approve_and_commit :: "('s, 'h, 'm) shell_scheme \<Rightarrow> fabric_network \<Rightarrow> string \<Rightarrow> chaincode \<times> string \<Rightarrow> 's \<Rightarrow> unit res \<times> 's" where
  "approve_and_commit sh f channel c =
     tbind (runPeer sh f (approve_args f channel c)) (\<lambda>_. runPeer sh f (commit_args f channel c))"

definition invoke_args :: "fabric_network \<Rightarrow> string \<Rightarrow> string \<Rightarrow> string list \<Rightarrow> string list" where
  "invoke_args f channel name extra =
     [''chaincode'', ''invoke''] @ ordererArgs f @
     [''-C'', channel, ''-n'', name, ''--peerAddresses'', ''localhost:18051'', ''--tlsRootCertFiles'', peerCA f, ''--waitForEvent''] @ extra"

definition asset_properties :: string where
  "asset_properties = base64_EncodeToString (bytes_of_string
     ''{\"objectType\":\"asset\",\"assetID\":\"asset-private-1\",\"color\":\"blue\",\"size\":5,\"appraisedValue\":100}'')"

definition invocations :: "fabric_network \<Rightarrow> string \<Rightarrow> string list list" where
  "invocations f channel =
     [invoke_args f channel ''basic'' [''-c'', ''{\"function\":\"InitLedger\",\"Args\":[]}''],
      invoke_args f channel ''singlepublic'' [''-c'', ''{\"function\":\"SeedPublic\",\"Args\":[]}''],
      invoke_args f channel ''singleprivate'' [''-c'', ''{\"function\":\"Seed\",\"Args\":[]}''],
      invoke_args f channel ''private''
        [''--transient'', ''{\"asset_properties\":\"'' @ asset_properties @ ''\"}'', ''-c'', ''{\"function\":\"CreateAsset\",\"Args\":[]}'']]"

definition deploy_channel ::
  "('s, 'h, 'm) shell_scheme \<Rightarrow> fabric_network \<Rightarrow> (chaincode \<times> string) list \<Rightarrow> string \<Rightarrow> 's \<Rightarrow> unit res \<times> 's" where
  "deploy_channel sh f ccs channel =
     tbind (tfor (approve_and_commit sh f channel) ccs) (\<lambda>_.
     tbind (tfor (runPeer sh f) (invocations f channel)) (\<lambda>_. tret ()))"

text \<open>The source of the chaincode with one private collection.\<close>

definition go_line :: "nat \<Rightarrow> string \<Rightarrow> string" where
  "go_line tabs text = replicate tabs (CHR 0x09) @ text @ [CHR 0x0A]"

definition singleCollectionChaincode :: string where
  "singleCollectionChaincode = concat
     [go_line 0 ''package main'', go_line 0 [],
      go_line 0 ''import \"github.com/hyperledger/fabric-contract-api-go/v2/contractapi\"'', go_line 0 [],
      go_line 0 ''type Contract struct { contractapi.Contract }'', go_line 0 [],
      go_line 0 ''func (c *Contract) SeedPublic(ctx contractapi.TransactionContextInterface) error {'',
      go_line 1 ''channel := ctx.GetStub().GetChannelID()'',
      go_line 1 ''return ctx.GetStub().PutState(channel+\"-public-key\", []byte(channel+\"-public-value\"))'',
      go_line 0 ''}'', go_line 0 [],
      go_line 0 ''func (c *Contract) Seed(ctx contractapi.TransactionContextInterface) error {'',
      go_line 1 ''channel := ctx.GetStub().GetChannelID()'',
      go_line 1 ''if err := c.SeedPublic(ctx); err != nil { return err }'',
      go_line 1 ''return ctx.GetStub().PutPrivateData(\"assetCollection\", channel+\"-private-key\", []byte(channel+\"-private-value\"))'',
      go_line 0 ''}'', go_line 0 [],
      go_line 0 ''func main() {'',
      go_line 1 ''cc, err := contractapi.NewChaincode(&Contract{})'',
      go_line 1 ''if err != nil { panic(err) }'',
      go_line 1 ''if err := cc.Start(); err != nil { panic(err) }'',
      go_line 0 ''}'']"

definition copy_file :: "('s, 'h, 'm) shell_scheme \<Rightarrow> string \<Rightarrow> string \<Rightarrow> string \<Rightarrow> 's \<Rightarrow> unit res \<times> 's" where
  "copy_file sh from_dir to_dir name =
     tbind (tread (os_ReadFile sh (filepath_Joins [from_dir, name]))) (\<lambda>data.
       tcall (os_WriteFile sh (filepath_Joins [to_dir, name]) data 0x180))"

definition deploy :: "('s, 'h, 'm) shell_scheme \<Rightarrow> fabric_network \<Rightarrow> string list \<Rightarrow> 's \<Rightarrow> unit res \<times> 's" where
  "deploy sh f channels =
     (let singleCollection = filepath_Joins [net_root f, ''single-collection''] in
      tbind (tcall (os_MkdirAll sh singleCollection 0x1C0)) (\<lambda>_.
      tbind (tfor (copy_file sh (filepath_Joins [net_samples f, ''asset-transfer-private-data'', ''chaincode-go'']) singleCollection)
        [''go.mod'', ''go.sum'']) (\<lambda>_.
      tbind (tcall (os_WriteFile sh (filepath_Joins [singleCollection, ''main.go'']) (bytes_of_string singleCollectionChaincode) 0x180)) (\<lambda>_.
      tbind (tfor (package_chaincode sh f) (chaincodes f)) (\<lambda>ccs.
      tbind (tfor (deploy_channel sh f ccs) channels) (\<lambda>_. tret ()))))))"

subsection \<open>Snapshots\<close>

definition reported_block :: "('s, 'h, 'm) shell_scheme \<Rightarrow> string \<Rightarrow> string res" where
  "reported_block sh out =
     (case after_last ''Blockchain info: '' out of
        None \<Rightarrow> Inl (New ''Should not be'' [])
      | Some rest \<Rightarrow> rbind (decode_height sh (TrimSpace rest)) (\<lambda>height.
          if height = 0 then Inl (New ''Should not be zero'' []) else Inr (FormatUint (height - 1))))"

definition snapshot_dir :: "fabric_network \<Rightarrow> string \<Rightarrow> string \<Rightarrow> string" where
  "snapshot_dir f channel block = filepath_Joins [net_root f, ''snapshots'', channel, ''block-'' @ block]"

definition remote_dir :: "string \<Rightarrow> string \<Rightarrow> string" where
  "remote_dir channel block = ''/var/hyperledger/production/snapshots/completed/'' @ channel @ ''/'' @ block"

definition net_snapshot :: "('s, 'h, 'm) shell_scheme \<Rightarrow> fabric_network \<Rightarrow> string \<Rightarrow> 's \<Rightarrow> string res \<times> 's" where
  "net_snapshot sh f channel =
     tbind (peerOutput sh f [''channel'', ''getinfo'', ''-c'', channel]) (\<lambda>out.
     tbind (tread (\<lambda>_. reported_block sh out)) (\<lambda>block.
     let remote = remote_dir channel block; destination = snapshot_dir f channel block in
     tbind (runPeer sh f [''snapshot'', ''submitrequest'', ''-c'', channel, ''-b'', ''0'', ''--peerAddress'', ''localhost:18051'',
       ''--tlsRootCertFile'', peerCA f]) (\<lambda>_.
     tbind (eventually_runs sh (composeCommand sh f
       [''exec'', ''-T'', ''peer'', ''test'', ''-f'', remote @ ''/_snapshot_signable_metadata.json''])) (\<lambda>_.
     tbind (tcall (os_MkdirAll sh destination 0x1C0)) (\<lambda>_.
     tbind (compose sh f [''cp'', ''peer:'' @ remote @ ''/.'', destination]) (\<lambda>_. tret destination))))))"

definition genesis_command :: "('s, 'h, 'm) shell_scheme \<Rightarrow> fabric_network \<Rightarrow> string \<Rightarrow> command" where
  "genesis_command sh f channel =
     (let c = net_command sh f (bin f ''configtxgen'')
        [''-profile'', ''MigrationChannel'', ''-channelID'', channel, ''-outputBlock'', config_block f channel] in
      c\<lparr>cmd_Env := cmd_Env c @ [''FABRIC_CFG_PATH='' @ net_root f]\<rparr>)"

definition capture_channel ::
  "('s, 'h, 'm) shell_scheme \<Rightarrow> fabric_network \<Rightarrow> string \<Rightarrow> (string, string) gomap \<Rightarrow> 's \<Rightarrow> (string, string) gomap res \<times> 's" where
  "capture_channel sh f channel snapshots =
     tbind (net_snapshot sh f channel) (\<lambda>path. tret (AList.update channel path snapshots))"

fun capture_channels ::
  "('s, 'h, 'm) shell_scheme \<Rightarrow> fabric_network \<Rightarrow> string list \<Rightarrow> (string, string) gomap \<Rightarrow> 's \<Rightarrow> (string, string) gomap res \<times> 's" where
  "capture_channels sh f [] snapshots = tret snapshots"
| "capture_channels sh f (channel # channels) snapshots =
     tbind (capture_channel sh f channel snapshots) (capture_channels sh f channels)"

definition capture :: "('s, 'h, 'm) shell_scheme \<Rightarrow> fabric_network \<Rightarrow> string list \<Rightarrow> 's \<Rightarrow> (string, string) gomap res \<times> 's" where
  "capture sh f channels =
     tbind (tfor (\<lambda>channel. runCommand sh f (genesis_command sh f channel)) channels) (\<lambda>_.
     tbind (compose sh f [''up'', ''-d'']) (\<lambda>_.
     tbind (eventually_runs sh (peerCommand sh f [''channel'', ''list''])) (\<lambda>_.
     tbind (tfor (joinChannel sh f) channels) (\<lambda>_.
     tbind (deploy sh f channels) (\<lambda>_.
       capture_channels sh f channels [])))))"

subsection \<open>Building the network\<close>

definition git_command :: "string list \<Rightarrow> command" where
  "git_command args = \<lparr>cmd_Path = ''git'', cmd_Args = args, cmd_Dir = [], cmd_Env = []\<rparr>"

definition clone_commands :: "string \<Rightarrow> string \<Rightarrow> command list" where
  "clone_commands destination commit =
     [git_command [''clone'', ''--filter=blob:none'', ''--no-checkout'', ''https://github.com/hyperledger/fabric-samples.git'', destination],
      git_command [''-C'', destination, ''fetch'', ''--depth=1'', ''origin'', commit],
      git_command [''-C'', destination, ''checkout'', ''--detach'', commit]]"

definition ensureFabricSamples :: "('s, 'h, 'm) shell_scheme \<Rightarrow> string \<Rightarrow> 's \<Rightarrow> string res \<times> 's" where
  "ensureFabricSamples sh repository =
     tbind (tread (os_ReadFile sh (filepath_Joins [repository, ''fabric-samples.commit'']))) (\<lambda>commitBytes.
     let commit = TrimSpace (string_of_bytes commitBytes);
         destination = filepath_Joins [repository, ''.cache'', ''fabric-samples'', commit] in
     if commit = [] then tfail (New ''Should NOT be empty'' [])
     else (\<lambda>s. case Output sh (git_command [''-C'', destination, ''rev-parse'', ''HEAD'']) s of
         ((out, None), s) \<Rightarrow> (if TrimSpace out = commit then tret destination s else tfail (New ''Not equal'' []) s)
       | ((_, Some _), s) \<Rightarrow>
           tbind (tcall (os_MkdirAll sh (filepath_Dir destination) 0x1C0)) (\<lambda>_.
           tbind (tfor (net_output sh) (clone_commands destination commit)) (\<lambda>_. tret destination)) s))"

definition release_url :: "('s, 'h, 'm) shell_scheme \<Rightarrow> string \<Rightarrow> string" where
  "release_url sh version =
     (let asset = ''hyperledger-fabric-'' @ GOOS sh @ ''-'' @ GOARCH sh @ ''-'' @ version @ ''.tar.gz'' in
      ''https://github.com/hyperledger/fabric/releases/download/v'' @ version @ ''/'' @ asset)"

definition Version :: string where "Version = ''3.1.5''"

text \<open>
  \<open>root\<close> and \<open>temporary\<close> are the directories the two calls of \<^verbatim>\<open>t.TempDir()\<close> return. The network is
  taken down by \<open>teardown\<close> when the test is over.
\<close>

definition newFabricNetwork ::
  "('s, 'h, 'm) shell_scheme \<Rightarrow> string \<Rightarrow> string \<Rightarrow> string \<Rightarrow> string \<Rightarrow> 's \<Rightarrow> fabric_network res \<times> 's" where
  "newFabricNetwork sh root temporary repository stateDB =
     (let home = (if Getenv sh ''FABRIC_SOURCE_HOME'' = [] then filepath_Joins [repository, ''.cache'', ''fabric'', Version]
                  else Getenv sh ''FABRIC_SOURCE_HOME'') in
      tbind (ensureFabricRelease sh temporary (http_Get sh (release_url sh Version)) home) (\<lambda>_.
      tbind (ensureFabricSamples sh repository) (\<lambda>samples.
      case Caller sh of
        None \<Rightarrow> tfail (New ''Should be true'' [])
      | Some sourceFile \<Rightarrow>
          (let setup = filepath_Joins [filepath_Dir sourceFile, ''testdata''] in
           tbind (tfor (copy_file sh setup root) [''compose.yaml'', ''configtx.yaml'', ''crypto-config.yaml'', ''collections.json'']) (\<lambda>_.
           let f = \<lparr>net_root = root, net_home = home, net_samples = samples, net_version = Version, net_stateDB = stateDB\<rparr> in
           tbind (net_run sh f (bin f ''cryptogen'')
             [''generate'', ''--config='' @ filepath_Joins [root, ''crypto-config.yaml''], ''--output='' @ crypto f []]) (\<lambda>_. tret f))))))"

definition teardown :: "('s, 'h, 'm) shell_scheme \<Rightarrow> fabric_network \<Rightarrow> 's \<Rightarrow> unit res \<times> 's" where
  "teardown sh f = compose sh f [''down'', ''--volumes'', ''--remove-orphans'']"

text \<open>\<^verbatim>\<open>Source\<close>: the peer snapshot, the configuration effective at it, and signing material for tests.\<close>

record source =
  source_Snapshot :: string
  source_ConfigBlock :: string
  source_PeerMSPDir :: string
  source_AdminMSPDir :: string

definition source_at :: "fabric_network \<Rightarrow> string \<Rightarrow> string \<Rightarrow> source" where
  "source_at f channel snap =
     \<lparr>source_Snapshot = snap, source_ConfigBlock = config_block f channel,
      source_PeerMSPDir = crypto f [''peerOrganizations'', ''org1.example.com'', ''peers'', ''peer0.org1.example.com'', ''msp''],
      source_AdminMSPDir = crypto f [''peerOrganizations'', ''org1.example.com'', ''users'', ''Admin@org1.example.com'', ''msp'']\<rparr>"

definition Capture ::
  "('s, 'h, 'm) shell_scheme \<Rightarrow> string \<Rightarrow> string \<Rightarrow> string \<Rightarrow> string \<Rightarrow> string list \<Rightarrow> 's \<Rightarrow> (string, string) gomap res \<times> 's" where
  "Capture sh root temporary repository stateDB channels =
     tbind (newFabricNetwork sh root temporary repository stateDB) (\<lambda>f. capture sh f channels)"

definition CaptureSources ::
  "('s, 'h, 'm) shell_scheme \<Rightarrow> string \<Rightarrow> string \<Rightarrow> string \<Rightarrow> string \<Rightarrow> string list \<Rightarrow> 's \<Rightarrow> (string, source) gomap res \<times> 's" where
  "CaptureSources sh root temporary repository stateDB channels =
     tbind (newFabricNetwork sh root temporary repository stateDB) (\<lambda>network.
     tbind (capture sh network channels) (\<lambda>snaps.
       tret (map (\<lambda>(channel, snap). (channel, source_at network channel snap)) snaps)))"

subsection \<open>The exported entry points of \<^verbatim>\<open>integration.go\<close>\<close>

definition FabricVersion :: string where "FabricVersion = Version"

definition CaptureFabricSnapshots ::
  "('s, 'h, 'm) shell_scheme \<Rightarrow> string \<Rightarrow> string \<Rightarrow> string \<Rightarrow> string \<Rightarrow> string list \<Rightarrow> 's \<Rightarrow> (string, string) gomap res \<times> 's" where
  "CaptureFabricSnapshots = Capture"

end
