(* ===== verification/HarnessProps.thy ===== *)
theory HarnessProps
  imports Harness
begin

text \<open>
  What a successful capture has done. The specification of a part of the test is the list of its steps:
  the commands that succeeded, the polls that ended, the directories and files it made. \<open>script\<close> says
  that a part, when it succeeds, has made exactly such steps in this order.
\<close>

subsection \<open>Steps\<close>

datatype step = Command command | Poll command | Look command | Mkdir string | Write string | Install string

text \<open>
  A log pairs each step with the output of its command. Unsuccessful polls and lookups leave no step.
\<close>

type_synonym log = "(step \<times> string) list"

inductive progress :: "('s, 'h, 'm) shell_scheme \<Rightarrow> log \<Rightarrow> 's \<Rightarrow> 's \<Rightarrow> bool" for sh where
  start: "progress sh [] s s"
| ran: "progress sh log s t \<Longrightarrow> CombinedOutput sh c t = ((out, None), u) \<Longrightarrow> progress sh (log @ [(Command c, out)]) s u"
| polled: "progress sh log s t \<Longrightarrow> cmd_Run sh c t = (None, u) \<Longrightarrow> progress sh (log @ [(Poll c, [])]) s u"
| waited: "progress sh log s t \<Longrightarrow> cmd_Run sh c t = (Some e, u) \<Longrightarrow> progress sh log s u"
| looked: "progress sh log s t \<Longrightarrow> Output sh c t = ((out, None), u) \<Longrightarrow> progress sh (log @ [(Look c, out)]) s u"
| missed: "progress sh log s t \<Longrightarrow> Output sh c t = ((out, Some e), u) \<Longrightarrow> progress sh log s u"
| made: "progress sh log s t \<Longrightarrow> os_MkdirAll sh p m t = (None, u) \<Longrightarrow> progress sh (log @ [(Mkdir p, [])]) s u"
| wrote: "progress sh log s t \<Longrightarrow> os_WriteFile sh p bs m t = (None, u) \<Longrightarrow> progress sh (log @ [(Write p, [])]) s u"
| installed: "progress sh log s t \<Longrightarrow> ensureFabricRelease sh temporary download p t = (Inr (), u) \<Longrightarrow>
    progress sh (log @ [(Install p, [])]) s u"

lemma progress_append: "progress sh l2 t u \<Longrightarrow> progress sh l1 s t \<Longrightarrow> progress sh (l1 @ l2) s u"
  by (induction l2 t u rule: progress.induct) (auto intro: progress.intros simp flip: append_assoc)

text \<open>\<open>P y steps L\<close> relates the result, the steps made and any set \<open>L\<close> that holds the entries of the log.\<close>

definition script ::
  "('s, 'h, 'm) shell_scheme \<Rightarrow> ('s \<Rightarrow> 'a res \<times> 's) \<Rightarrow> ('a \<Rightarrow> step list \<Rightarrow> (step \<times> string) set \<Rightarrow> bool) \<Rightarrow> bool" where
  "script sh m P \<longleftrightarrow>
     (\<forall>s y s'. m s = (Inr y, s') \<longrightarrow> (\<exists>log. progress sh log s s' \<and> (\<forall>L. set log \<subseteq> L \<longrightarrow> P y (map fst log) L)))"

named_theorems scripts

lemma scriptI:
  "(\<And>s y s'. m s = (Inr y, s') \<Longrightarrow> \<exists>log. progress sh log s s' \<and> (\<forall>L. set log \<subseteq> L \<longrightarrow> P y (map fst log) L)) \<Longrightarrow> script sh m P"
  by (simp add: script_def)

lemma scriptD:
  assumes "script sh m P" "m s = (Inr y, s')"
  obtains log where "progress sh log s s'" "\<And>L. set log \<subseteq> L \<Longrightarrow> P y (map fst log) L"
  using assms unfolding script_def by blast

lemma script_weaken:
  assumes "script sh m P" "\<And>y st L. P y st L \<Longrightarrow> Q y st L"
  shows "script sh m Q"
  using assms unfolding script_def by meson

lemma tbind_Inr: "tbind m k s = (Inr y, s') \<longleftrightarrow> (\<exists>x t. m s = (Inr x, t) \<and> k x t = (Inr y, s'))"
  by (auto simp: tbind_def split: prod.splits sum.splits)

lemma script_bind:
  assumes "script sh m P" "\<And>x. script sh (k x) (Q x)"
  shows "script sh (tbind m k) (\<lambda>y st L. \<exists>x st1 st2. st = st1 @ st2 \<and> P x st1 L \<and> Q x y st2 L)"
proof (rule scriptI)
  fix s y s' assume "tbind m k s = (Inr y, s')"
  then obtain x t where x: "m s = (Inr x, t)" "k x t = (Inr y, s')" by (auto simp: tbind_Inr)
  obtain l1 where l1: "progress sh l1 s t" "\<And>L. set l1 \<subseteq> L \<Longrightarrow> P x (map fst l1) L"
    using scriptD [OF assms(1) x(1)] by blast
  obtain l2 where l2: "progress sh l2 t s'" "\<And>L. set l2 \<subseteq> L \<Longrightarrow> Q x y (map fst l2) L"
    using scriptD [OF assms(2) x(2)] by blast
  show "\<exists>log. progress sh log s s' \<and>
      (\<forall>L. set log \<subseteq> L \<longrightarrow> (\<exists>x st1 st2. map fst log = st1 @ st2 \<and> P x st1 L \<and> Q x y st2 L))"
  proof (intro exI [of _ "l1 @ l2"] conjI allI impI)
    show "progress sh (l1 @ l2) s s'" by (rule progress_append [OF l2(1) l1(1)])
    fix L assume "set (l1 @ l2) \<subseteq> L"
    then have "P x (map fst l1) L" "Q x y (map fst l2) L" using l1(2) l2(2) by simp_all
    then show "\<exists>x st1 st2. map fst (l1 @ l2) = st1 @ st2 \<and> P x st1 L \<and> Q x y st2 L" by (auto intro!: exI)
  qed
qed

text \<open>A step with a fixed script, then the rest.\<close>

lemma script_then:
  assumes "script sh m (\<lambda>_ st _. st = st1)" "\<And>x. script sh (k x) Q"
  shows "script sh (tbind m k) (\<lambda>y st L. \<exists>st2. st = st1 @ st2 \<and> Q y st2 L)"
  by (rule script_weaken [OF script_bind [OF assms]]) blast

lemma script_tret: "script sh (tret x) (\<lambda>y st _. y = x \<and> st = [])"
  by (rule scriptI) (auto simp: tret_def intro: progress.start)

lemma script_tread: "script sh (tread m) (\<lambda>y st _. st = [] \<and> (\<exists>s. m s = Inr y))"
  by (rule scriptI) (auto simp: tread_def intro: progress.start)

lemma script_tfor:
  assumes "\<And>x. script sh (f x) (\<lambda>y st L. st = S x \<and> R x y L)"
  shows "script sh (tfor f xs) (\<lambda>ys st L. st = concat (map S xs) \<and> list_all2 (\<lambda>x y. R x y L) xs ys)"
proof (induction xs)
  case Nil
  show ?case unfolding tfor.simps by (rule script_weaken [OF script_tret]) simp
next
  case (Cons x xs)
  show ?case
    unfolding tfor.simps
    by (rule script_weaken [OF script_bind [OF assms script_bind [OF Cons script_tret]]]) auto
qed

lemma script_each:
  assumes "\<And>x. script sh (f x) (\<lambda>y st L. st = S x)"
  shows "script sh (tfor f xs) (\<lambda>ys st L. st = concat (map S xs))"
  by (rule script_weaken [OF script_tfor [where R = "\<lambda>_ _ _. True"]]) (use assms in auto)

subsection \<open>The single steps\<close>

lemma progress_one:
  "CombinedOutput sh c s = ((out, None), u) \<Longrightarrow> progress sh [(Command c, out)] s u"
  "cmd_Run sh c s = (None, u) \<Longrightarrow> progress sh [(Poll c, [])] s u"
  "Output sh c s = ((out, None), u) \<Longrightarrow> progress sh [(Look c, out)] s u"
  "os_MkdirAll sh p m s = (None, u) \<Longrightarrow> progress sh [(Mkdir p, [])] s u"
  "os_WriteFile sh p bs m s = (None, u) \<Longrightarrow> progress sh [(Write p, [])] s u"
  "ensureFabricRelease sh temporary download p s = (Inr (), u) \<Longrightarrow> progress sh [(Install p, [])] s u"
  subgoal by (drule progress.ran [OF progress.start]) simp
  subgoal by (drule progress.polled [OF progress.start]) simp
  subgoal by (drule progress.looked [OF progress.start]) simp
  subgoal by (drule progress.made [OF progress.start]) simp
  subgoal by (drule progress.wrote [OF progress.start]) simp
  subgoal by (drule progress.installed [OF progress.start]) simp
  done

lemma script_one:
  assumes "\<And>s y s'. m s = (Inr y, s') \<Longrightarrow> \<exists>out. progress sh [(x, out)] s s' \<and> R y (x, out)"
  shows "script sh m (\<lambda>y st L. st = [x] \<and> (\<exists>out. (x, out) \<in> L \<and> R y (x, out)))"
proof (rule scriptI)
  fix s y s' assume "m s = (Inr y, s')"
  from assms [OF this] obtain out where "progress sh [(x, out)] s s'" "R y (x, out)" by blast
  then show "\<exists>log. progress sh log s s' \<and>
      (\<forall>L. set log \<subseteq> L \<longrightarrow> map fst log = [x] \<and> (\<exists>out. (x, out) \<in> L \<and> R y (x, out)))"
    by (intro exI [of _ "[(x, out)]"]) auto
qed

lemma script_step:
  assumes "\<And>s y s'. m s = (Inr y, s') \<Longrightarrow> \<exists>out. progress sh [(x, out)] s s'"
  shows "script sh m (\<lambda>_ st _. st = [x])"
  by (rule script_weaken [OF script_one [where R = "\<lambda>_ _. True"]]) (use assms in auto)

lemma script_runCommand [scripts]: "script sh (runCommand sh f c) (\<lambda>_ st _. st = [Command c])"
  by (rule script_step) (auto simp: runCommand_def split: prod.splits option.splits intro: progress_one)

lemma script_net_output: "script sh (net_output sh c) (\<lambda>y st L. st = [Command c] \<and> (Command c, y) \<in> L)"
proof -
  have "script sh (net_output sh c) (\<lambda>y st L. st = [Command c] \<and> (\<exists>out. (Command c, out) \<in> L \<and> snd (Command c, out) = y))"
    by (rule script_one) (auto simp: net_output_def split: prod.splits option.splits intro: progress_one)
  then show ?thesis by (rule script_weaken) auto
qed

lemma script_mkdir [scripts]: "script sh (tcall (os_MkdirAll sh p m)) (\<lambda>_ st _. st = [Mkdir p])"
  by (rule script_step) (auto simp: tcall_def split: prod.splits option.splits intro: progress_one)

lemma script_write [scripts]: "script sh (tcall (os_WriteFile sh p bs m)) (\<lambda>_ st _. st = [Write p])"
  by (rule script_step) (auto simp: tcall_def split: prod.splits option.splits intro: progress_one)

lemma script_release [scripts]: "script sh (ensureFabricRelease sh temporary download p) (\<lambda>_ st _. st = [Install p])"
  by (rule script_step) (auto intro: progress_one)

lemma Eventually_done:
  "Eventually n (cmd_Run sh c) s = (Inr y, s') \<Longrightarrow> progress sh [(Poll c, [])] s s'"
proof (induction n arbitrary: s)
  case (Suc n)
  obtain r t where r: "cmd_Run sh c s = (r, t)" by fastforce
  show ?case
  proof (cases r)
    case (Some e)
    with Suc r have "progress sh [(Poll c, [])] t s'" by simp
    moreover have "progress sh [] s t" using progress.waited [OF progress.start] r Some by fastforce
    ultimately show ?thesis using progress_append by fastforce
  qed (use Suc.prems r progress_one(2) in auto)
qed simp

lemma script_eventually [scripts]: "script sh (eventually_runs sh c) (\<lambda>_ st _. st = [Poll c])"
  by (rule script_step) (auto simp: eventually_runs_def dest: Eventually_done)

lemma script_copy [scripts]: "script sh (copy_file sh from_dir to_dir name) (\<lambda>_ st _. st = [Write (filepath_Joins [to_dir, name])])"
  unfolding copy_file_def by (rule script_weaken [OF script_bind [OF script_tread script_write]]) auto

lemmas script_commands [scripts] =
  script_runCommand [of sh f "net_command sh f name args" for sh f name args, folded net_run_def]
  script_runCommand [of sh f "peerCommand sh f args" for sh f args, folded runPeer_def]
  script_runCommand [of sh f "composeCommand sh f args" for sh f args, folded compose_def]

subsection \<open>The parts of a capture\<close>

definition join_steps :: "('s, 'h, 'm) shell_scheme \<Rightarrow> fabric_network \<Rightarrow> string \<Rightarrow> step list" where
  "join_steps sh f channel =
     [Command (net_command sh f (bin f ''osnadmin'') (osnadmin_args f channel)),
      Command (peerCommand sh f [''channel'', ''join'', ''-b'', config_block f channel]),
      Poll (peerCommand sh f (fetch_args f channel))]"

definition calculate_id :: "('s, 'h, 'm) shell_scheme \<Rightarrow> fabric_network \<Rightarrow> chaincode \<Rightarrow> command" where
  "calculate_id sh f c = peerCommand sh f [''lifecycle'', ''chaincode'', ''calculatepackageid'', package_path f c]"

definition package_steps :: "('s, 'h, 'm) shell_scheme \<Rightarrow> fabric_network \<Rightarrow> chaincode \<Rightarrow> step list" where
  "package_steps sh f c =
     [Command (peerCommand sh f [''lifecycle'', ''chaincode'', ''package'', package_path f c, ''--path'', cc_path c,
        ''--lang'', ''golang'', ''--label'', cc_name c @ ''_1.0'']),
      Command (calculate_id sh f c),
      Command (peerCommand sh f [''lifecycle'', ''chaincode'', ''install'', package_path f c])]"

definition channel_steps :: "('s, 'h, 'm) shell_scheme \<Rightarrow> fabric_network \<Rightarrow> (chaincode \<times> string) list \<Rightarrow> string \<Rightarrow> step list" where
  "channel_steps sh f ccs channel =
     concat (map (\<lambda>c. [Command (peerCommand sh f (approve_args f channel c)), Command (peerCommand sh f (commit_args f channel c))]) ccs) @
     map (\<lambda>args. Command (peerCommand sh f args)) (invocations f channel)"

definition source_steps :: "fabric_network \<Rightarrow> step list" where
  "source_steps f =
     (let dir = filepath_Joins [net_root f, ''single-collection''] in
      Mkdir dir # map (\<lambda>name. Write (filepath_Joins [dir, name])) [''go.mod'', ''go.sum'', ''main.go''])"

definition channel_info :: "('s, 'h, 'm) shell_scheme \<Rightarrow> fabric_network \<Rightarrow> string \<Rightarrow> command" where
  "channel_info sh f channel = peerCommand sh f [''channel'', ''getinfo'', ''-c'', channel]"

definition snapshot_steps :: "('s, 'h, 'm) shell_scheme \<Rightarrow> fabric_network \<Rightarrow> string \<times> string \<Rightarrow> step list" where
  "snapshot_steps sh f = (\<lambda>(channel, block).
     [Command (channel_info sh f channel),
      Command (peerCommand sh f [''snapshot'', ''submitrequest'', ''-c'', channel, ''-b'', ''0'',
        ''--peerAddress'', ''localhost:18051'', ''--tlsRootCertFile'', peerCA f]),
      Poll (composeCommand sh f [''exec'', ''-T'', ''peer'', ''test'', ''-f'',
        remote_dir channel block @ ''/_snapshot_signable_metadata.json'']),
      Mkdir (snapshot_dir f channel block),
      Command (composeCommand sh f [''cp'', ''peer:'' @ remote_dir channel block @ ''/.'', snapshot_dir f channel block])])"

lemma script_joinChannel [scripts]: "script sh (joinChannel sh f channel) (\<lambda>_ st _. st = join_steps sh f channel)"
  unfolding joinChannel_def
  by (rule script_weaken [OF script_then [OF script_commands(1) script_then [OF script_commands(2) script_eventually]]])
    (auto simp: join_steps_def)

lemma script_package:
  "script sh (package_chaincode sh f c)
     (\<lambda>y st L. st = package_steps sh f c \<and> (\<exists>out. (Command (calculate_id sh f c), out) \<in> L \<and> y = (c, TrimSpace out)))"
  unfolding package_chaincode_def Let_def peerOutput_def
  by (rule script_weaken [OF script_then [OF script_commands(2) script_bind [OF script_net_output
        script_then [OF script_commands(2) script_tret]]]])
    (auto simp: package_steps_def calculate_id_def)

lemma script_approve: "script sh (approve_and_commit sh f channel c)
    (\<lambda>_ st _. st = [Command (peerCommand sh f (approve_args f channel c)), Command (peerCommand sh f (commit_args f channel c))])"
  unfolding approve_and_commit_def
  by (rule script_weaken [OF script_then [OF script_commands(2) script_commands(2)]]) auto

lemma script_invoke: "script sh (tfor (runPeer sh f) xs) (\<lambda>_ st _. st = map (\<lambda>args. Command (peerCommand sh f args)) xs)"
  by (rule script_weaken [OF script_each [OF script_commands(2)]]) (simp add: concat_map_singleton)

lemma script_channel [scripts]: "script sh (deploy_channel sh f ccs channel) (\<lambda>_ st _. st = channel_steps sh f ccs channel)"
  unfolding deploy_channel_def
  by (rule script_weaken [OF script_then [OF script_each [OF script_approve] script_then [OF script_invoke script_tret]]])
    (auto simp: channel_steps_def)

lemma package_ids:
  "list_all2 (\<lambda>c y. \<exists>out. (calc c, out) \<in> L \<and> y = (c, TrimSpace out)) cs ys \<Longrightarrow>
   \<exists>outs. ys = zip cs (map TrimSpace outs) \<and> list_all2 (\<lambda>c out. (calc c, out) \<in> L) cs outs"
proof (induction cs ys rule: list_all2_induct)
  case (Cons c cs y ys)
  then obtain out outs where "(calc c, out) \<in> L" "y = (c, TrimSpace out)" "ys = zip cs (map TrimSpace outs)"
    "list_all2 (\<lambda>c out. (calc c, out) \<in> L) cs outs" by blast
  then show ?case by (intro exI [of _ "out # outs"]) simp
qed simp

definition deployed ::
  "('s, 'h, 'm) shell_scheme \<Rightarrow> fabric_network \<Rightarrow> string list \<Rightarrow> step list \<Rightarrow> (step \<times> string) set \<Rightarrow> bool" where
  "deployed sh f channels st L \<longleftrightarrow>
     (\<exists>outs. list_all2 (\<lambda>c out. (Command (calculate_id sh f c), out) \<in> L) (chaincodes f) outs \<and>
        st = source_steps f @ concat (map (package_steps sh f) (chaincodes f)) @
          concat (map (channel_steps sh f (zip (chaincodes f) (map TrimSpace outs))) channels))"

lemma script_deploy: "script sh (deploy sh f channels) (\<lambda>_ st L. deployed sh f channels st L)"
proof -
  note rest = script_bind [OF script_tfor [OF script_package] script_then [OF script_each [OF script_channel] script_tret]]
  show ?thesis
    unfolding deploy_def Let_def
    by (rule script_weaken [OF script_then [OF script_mkdir script_then [OF script_each [OF script_copy]
        script_then [OF script_write rest]]]])
      (auto simp: deployed_def source_steps_def Let_def dest!: package_ids)
qed

definition snapshot_taken :: "('s, 'h, 'm) shell_scheme \<Rightarrow> fabric_network \<Rightarrow> (step \<times> string) set \<Rightarrow> string \<Rightarrow> string \<Rightarrow> bool" where
  "snapshot_taken sh f L channel block \<longleftrightarrow>
     (\<exists>out. (Command (channel_info sh f channel), out) \<in> L \<and> reported_block sh out = Inr block)"

lemma script_snapshot:
  "script sh (net_snapshot sh f channel)
     (\<lambda>y st L. \<exists>block. st = snapshot_steps sh f (channel, block) \<and> snapshot_taken sh f L channel block \<and>
        y = snapshot_dir f channel block)"
  unfolding net_snapshot_def Let_def peerOutput_def
  by (rule script_weaken [OF script_bind [OF script_net_output script_bind [OF script_tread
        script_then [OF script_commands(2) script_then [OF script_eventually script_then [OF script_mkdir
        script_then [OF script_commands(3) script_tret]]]]]]])
    (auto simp: snapshot_steps_def snapshot_taken_def channel_info_def)

lemma script_capture_channels:
  "script sh (capture_channels sh f channels snapshots)
     (\<lambda>y st L. \<exists>blocks. list_all2 (snapshot_taken sh f L) channels blocks \<and>
        st = concat (map (snapshot_steps sh f) (zip channels blocks)) \<and>
        y = fold (\<lambda>(channel, block). AList.update channel (snapshot_dir f channel block)) (zip channels blocks) snapshots)"
proof (induction channels arbitrary: snapshots)
  case Nil
  show ?case unfolding capture_channels.simps by (rule script_weaken [OF script_tret]) simp
next
  case (Cons channel channels)
  show ?case
    unfolding capture_channels.simps capture_channel_def
  proof (rule script_weaken [OF script_bind [OF script_bind [OF script_snapshot script_tret] Cons]])
    fix y st L
    assume "\<exists>snaps st1 st2. st = st1 @ st2 \<and>
      (\<exists>path st3 st4. st1 = st3 @ st4 \<and>
        (\<exists>block. st3 = snapshot_steps sh f (channel, block) \<and> snapshot_taken sh f L channel block \<and> path = snapshot_dir f channel block) \<and>
        snaps = AList.update channel path snapshots \<and> st4 = []) \<and>
      (\<exists>blocks. list_all2 (snapshot_taken sh f L) channels blocks \<and>
        st2 = concat (map (snapshot_steps sh f) (zip channels blocks)) \<and>
        y = fold (\<lambda>(channel, block). AList.update channel (snapshot_dir f channel block)) (zip channels blocks) snaps)"
    then obtain block blocks where "snapshot_taken sh f L channel block" "list_all2 (snapshot_taken sh f L) channels blocks"
      "st = snapshot_steps sh f (channel, block) @ concat (map (snapshot_steps sh f) (zip channels blocks))"
      "y = fold (\<lambda>(channel, block). AList.update channel (snapshot_dir f channel block)) (zip channels blocks)
        (AList.update channel (snapshot_dir f channel block) snapshots)"
      by auto
    then show "\<exists>blocks. list_all2 (snapshot_taken sh f L) (channel # channels) blocks \<and>
        st = concat (map (snapshot_steps sh f) (zip (channel # channels) blocks)) \<and>
        y = fold (\<lambda>(channel, block). AList.update channel (snapshot_dir f channel block)) (zip (channel # channels) blocks) snapshots"
      by (intro exI [of _ "block # blocks"]) simp
  qed
qed

lemma fold_update_fresh:
  "length ks = length bs \<Longrightarrow> distinct ks \<Longrightarrow> set ks \<inter> fst ` set m = {} \<Longrightarrow>
   fold (\<lambda>(k, b). AList.update k (g k b)) (zip ks bs) m = m @ map (\<lambda>(k, b). (k, g k b)) (zip ks bs)"
proof (induction ks bs arbitrary: m rule: list_induct2)
  case (Cons k ks b bs)
  then have "fold (\<lambda>(k, b). AList.update k (g k b)) (zip ks bs) (m @ [(k, g k b)]) =
      (m @ [(k, g k b)]) @ map (\<lambda>(k, b). (k, g k b)) (zip ks bs)"
    by (intro Cons.IH) auto
  moreover have "AList.update k (g k b) m = m @ [(k, g k b)]"
    by (rule update_fresh) (use Cons.prems in \<open>auto simp: keys_def\<close>)
  ultimately show ?case by simp
qed simp

text \<open>A capture of a network, as its steps and the block of each channel's snapshot.\<close>

definition captured ::
  "('s, 'h, 'm) shell_scheme \<Rightarrow> fabric_network \<Rightarrow> string list \<Rightarrow> string list \<Rightarrow> step list \<Rightarrow> (step \<times> string) set \<Rightarrow> bool" where
  "captured sh f channels blocks st L \<longleftrightarrow>
     list_all2 (snapshot_taken sh f L) channels blocks \<and>
     (\<exists>deploy_st. deployed sh f channels deploy_st L \<and>
        st = map (\<lambda>channel. Command (genesis_command sh f channel)) channels @
          [Command (composeCommand sh f [''up'', ''-d'']), Poll (peerCommand sh f [''channel'', ''list''])] @
          concat (map (join_steps sh f) channels) @ deploy_st @
          concat (map (snapshot_steps sh f) (zip channels blocks)))"

lemma script_genesis: "script sh (tfor (\<lambda>channel. runCommand sh f (genesis_command sh f channel)) channels)
    (\<lambda>_ st _. st = map (\<lambda>channel. Command (genesis_command sh f channel)) channels)"
  by (rule script_weaken [OF script_each [OF script_runCommand]]) (simp add: concat_map_singleton)

lemma script_capture:
  assumes "distinct channels"
  shows "script sh (capture sh f channels)
    (\<lambda>y st L. \<exists>blocks. captured sh f channels blocks st L \<and>
       y = map (\<lambda>(channel, block). (channel, snapshot_dir f channel block)) (zip channels blocks))"
  unfolding capture_def
proof (rule script_weaken [OF script_then [OF script_genesis script_then [OF script_commands(3) script_then [OF script_eventually
        script_then [OF script_each [OF script_joinChannel] script_bind [OF script_deploy script_capture_channels]]]]]])
  fix y st L
  assume "\<exists>st2. st = map (\<lambda>channel. Command (genesis_command sh f channel)) channels @ st2 \<and>
    (\<exists>st3. st2 = [Command (composeCommand sh f [''up'', ''-d''])] @ st3 \<and>
      (\<exists>st4. st3 = [Poll (peerCommand sh f [''channel'', ''list''])] @ st4 \<and>
        (\<exists>st5. st4 = concat (map (join_steps sh f) channels) @ st5 \<and>
          (\<exists>x st6 st7. st5 = st6 @ st7 \<and> deployed sh f channels st6 L \<and>
            (\<exists>blocks. list_all2 (snapshot_taken sh f L) channels blocks \<and>
              st7 = concat (map (snapshot_steps sh f) (zip channels blocks)) \<and>
              y = fold (\<lambda>(channel, block). AList.update channel (snapshot_dir f channel block)) (zip channels blocks) [])))))"
  then obtain dst blocks where d: "deployed sh f channels dst L"
    and b: "list_all2 (snapshot_taken sh f L) channels blocks"
    and y: "y = fold (\<lambda>(channel, block). AList.update channel (snapshot_dir f channel block)) (zip channels blocks) []"
    and st: "st = map (\<lambda>channel. Command (genesis_command sh f channel)) channels @
      [Command (composeCommand sh f [''up'', ''-d'']), Poll (peerCommand sh f [''channel'', ''list''])] @
      concat (map (join_steps sh f) channels) @ dst @ concat (map (snapshot_steps sh f) (zip channels blocks))"
    by (elim exE conjE) simp
  have "y = map (\<lambda>(channel, block). (channel, snapshot_dir f channel block)) (zip channels blocks)"
    unfolding y using fold_update_fresh [of channels blocks "[]" "snapshot_dir f"] list_all2_lengthD [OF b] assms by simp
  with d b st show "\<exists>blocks. captured sh f channels blocks st L \<and>
      y = map (\<lambda>(channel, block). (channel, snapshot_dir f channel block)) (zip channels blocks)"
    unfolding captured_def by blast
qed

subsection \<open>Building the network\<close>

text \<open>The samples are at the pinned commit already, or are cloned and checked out there.\<close>

definition at_commit :: "string \<Rightarrow> string \<Rightarrow> step list \<Rightarrow> (step \<times> string) set \<Rightarrow> bool" where
  "at_commit destination commit st L \<longleftrightarrow>
     (let look = Look (git_command [''-C'', destination, ''rev-parse'', ''HEAD'']) in
      st = [look] \<and> (\<exists>out. (look, out) \<in> L \<and> TrimSpace out = commit)) \<or>
     st = Mkdir (filepath_Dir destination) # map Command (clone_commands destination commit)"

lemma script_clone: "script sh (tfor (net_output sh) cs) (\<lambda>_ st _. st = map Command cs)"
  by (rule script_weaken [OF script_each [where S = "\<lambda>c. [Command c]"]])
    (auto intro: script_weaken [OF script_net_output] simp: concat_map_singleton)

lemma script_checkout:
  "script sh (\<lambda>s. case Output sh (git_command [''-C'', destination, ''rev-parse'', ''HEAD'']) s of
         ((out, None), s) \<Rightarrow> (if TrimSpace out = commit then tret destination s else tfail (New ''Not equal'' []) s)
       | ((_, Some _), s) \<Rightarrow>
           tbind (tcall (os_MkdirAll sh (filepath_Dir destination) 0x1C0)) (\<lambda>_.
           tbind (tfor (net_output sh) (clone_commands destination commit)) (\<lambda>_. tret destination)) s)
     (\<lambda>y st L. y = destination \<and> at_commit destination commit st L)" (is "script sh ?m _")
proof (rule scriptI)
  let ?look = "git_command [''-C'', destination, ''rev-parse'', ''HEAD'']"
  let ?clone = "tbind (tcall (os_MkdirAll sh (filepath_Dir destination) 0x1C0)) (\<lambda>_.
    tbind (tfor (net_output sh) (clone_commands destination commit)) (\<lambda>_. tret destination))"
  fix s y s' assume run: "?m s = (Inr y, s')"
  obtain out err t where look: "Output sh ?look s = ((out, err), t)" by (metis prod.exhaust)
  show "\<exists>log. progress sh log s s' \<and> (\<forall>L. set log \<subseteq> L \<longrightarrow> y = destination \<and> at_commit destination commit (map fst log) L)"
  proof (cases err)
    case None
    with run look have "TrimSpace out = commit" "y = destination" "t = s'"
      by (auto simp: tret_def tfail_def split: if_splits)
    with look None show ?thesis
      by (intro exI [of _ "[(Look ?look, out)]"]) (auto simp: at_commit_def Let_def intro: progress_one)
  next
    case (Some e)
    have clone: "script sh ?clone (\<lambda>y st _. y = destination \<and> st = Mkdir (filepath_Dir destination) # map Command (clone_commands destination commit))"
      by (rule script_weaken [OF script_then [OF script_mkdir script_then [OF script_clone script_tret]]]) auto
    have "?clone t = (Inr y, s')" using run look Some by simp
    from scriptD [OF clone this] obtain log where log: "progress sh log t s'"
      and steps: "\<And>L. set log \<subseteq> L \<Longrightarrow> y = destination \<and>
        map fst log = Mkdir (filepath_Dir destination) # map Command (clone_commands destination commit)"
      by blast
    have "progress sh [] s t" using progress.missed [OF progress.start] look Some by fastforce
    then have "progress sh log s s'" using progress_append [OF log] by fastforce
    with steps [OF order_refl] show ?thesis by (auto simp: at_commit_def)
  qed
qed

definition samples_dir :: "string \<Rightarrow> string \<Rightarrow> string" where
  "samples_dir repository commit = filepath_Joins [repository, ''.cache'', ''fabric-samples'', commit]"

text \<open>The commit the repository pins, read at some time.\<close>

definition pins :: "('s, 'h, 'm) shell_scheme \<Rightarrow> string \<Rightarrow> string \<Rightarrow> bool" where
  "pins sh repository commit \<longleftrightarrow> commit \<noteq> [] \<and>
     (\<exists>s bs. os_ReadFile sh (filepath_Joins [repository, ''fabric-samples.commit'']) s = Inr bs \<and>
        commit = TrimSpace (string_of_bytes bs))"

lemma script_tfail: "script sh (tfail e) (\<lambda>y st L. False)"
  by (rule scriptI) (simp add: tfail_def)

lemma script_found:
  "(\<And>x. script sh (k x) P) \<Longrightarrow> script sh (case found of None \<Rightarrow> tfail e | Some x \<Rightarrow> k x) P"
  by (cases found) (auto intro: script_weaken [OF script_tfail])

lemma script_if: "(b \<Longrightarrow> script sh m P) \<Longrightarrow> (\<not> b \<Longrightarrow> script sh m' P') \<Longrightarrow>
    script sh (if b then m else m') (\<lambda>y st L. if b then P y st L else P' y st L)"
  by simp

lemma script_samples:
  "script sh (ensureFabricSamples sh repository)
     (\<lambda>y st L. \<exists>commit. pins sh repository commit \<and> y = samples_dir repository commit \<and> at_commit y commit st L)"
  unfolding ensureFabricSamples_def Let_def
proof (rule script_weaken [OF script_bind [OF script_tread script_if [OF script_tfail script_checkout]]])
  fix y :: string and st L
  assume "\<exists>bs st1 st2. st = st1 @ st2 \<and>
    (st1 = [] \<and> (\<exists>s. os_ReadFile sh (filepath_Joins [repository, ''fabric-samples.commit'']) s = Inr bs)) \<and>
    (if TrimSpace (string_of_bytes bs) = [] then False
     else y = filepath_Joins [repository, ''.cache'', ''fabric-samples'', TrimSpace (string_of_bytes bs)] \<and>
       at_commit (filepath_Joins [repository, ''.cache'', ''fabric-samples'', TrimSpace (string_of_bytes bs)])
         (TrimSpace (string_of_bytes bs)) st2 L)"
  then show "\<exists>commit. pins sh repository commit \<and> y = samples_dir repository commit \<and> at_commit y commit st L"
    by (auto simp: pins_def samples_dir_def split: if_splits)
qed

definition fabric_home :: "('s, 'h, 'm) shell_scheme \<Rightarrow> string \<Rightarrow> string" where
  "fabric_home sh repository =
     (if Getenv sh ''FABRIC_SOURCE_HOME'' = [] then filepath_Joins [repository, ''.cache'', ''fabric'', Version]
      else Getenv sh ''FABRIC_SOURCE_HOME'')"

text \<open>
  A network that has been built: its directories, and the steps that installed the release, checked out
  the samples at the pinned commit, copied the set-up and generated the key material.
\<close>

definition built ::
  "('s, 'h, 'm) shell_scheme \<Rightarrow> string \<Rightarrow> string \<Rightarrow> string \<Rightarrow> fabric_network \<Rightarrow> step list \<Rightarrow> (step \<times> string) set \<Rightarrow> bool" where
  "built sh root repository stateDB f st L \<longleftrightarrow>
     (\<exists>commit checkout. pins sh repository commit \<and>
        f = \<lparr>net_root = root, net_home = fabric_home sh repository, net_samples = samples_dir repository commit,
          net_version = Version, net_stateDB = stateDB\<rparr> \<and>
        at_commit (net_samples f) commit checkout L \<and>
        st = [Install (fabric_home sh repository)] @ checkout @
          map (\<lambda>name. Write (filepath_Joins [root, name])) [''compose.yaml'', ''configtx.yaml'', ''crypto-config.yaml'', ''collections.json''] @
          [Command (net_command sh f (bin f ''cryptogen'')
            [''generate'', ''--config='' @ filepath_Joins [root, ''crypto-config.yaml''], ''--output='' @ crypto f []])])"

lemma script_network:
  "script sh (newFabricNetwork sh root temporary repository stateDB) (built sh root repository stateDB)"
  unfolding newFabricNetwork_def Let_def fabric_home_def [symmetric]
  by (rule script_weaken [OF script_then [OF script_release script_bind [OF script_samples
        script_found [OF script_then [OF script_each [OF script_copy] script_then [OF script_commands(1) script_tret]]]]]])
    (auto simp: built_def)

subsection \<open>An example\<close>

text \<open>A machine on which every command succeeds and reports a height of 5; there are no samples yet.\<close>

definition demo_shell :: "(unit, unit) shell" where
  "demo_shell =
     \<lparr>os_Stat = \<lambda>p s. True, os_MkdirAll = \<lambda>p m s. (None, s), os_OpenFile = \<lambda>p m s. (Inr (), s),
      file_Write = \<lambda>h bs s. (None, s), file_Close = \<lambda>h s. (None, s), os_RemoveAll = \<lambda>p s. (None, s),
      os_Rename = \<lambda>p p' s. (None, s),
      CombinedOutput = \<lambda>c s. ((''Blockchain info: 5'', None), s),
      Output = \<lambda>c s. (([], Some (Ext ''exit status 128'')), s),
      cmd_Run = \<lambda>c s. (None, s),
      os_ReadFile = \<lambda>p s. Inr (bytes_of_string ''c1''),
      os_WriteFile = \<lambda>p bs m s. (None, s),
      Getenv = \<lambda>k. [], Environ = [], http_Get = \<lambda>url. Inl (Ext ''offline''), GOOS = ''linux'', GOARCH = ''amd64'',
      Caller = Some ''/src/integrationtest.go'', polls = 60,
      decode_height = \<lambda>text. if text = ''5'' then Inr 5 else Inl (Ext ''json'')\<rparr>"

lemma tfor_demo: "(\<And>x. f x () = (Inr (g x), ())) \<Longrightarrow> tfor f xs () = (Inr (map g xs), ())"
  by (induction xs) (simp_all add: tbind_def tret_def)

lemma demo_runs:
  "runCommand demo_shell f c () = (Inr (), ())" "net_output demo_shell c () = (Inr ''Blockchain info: 5'', ())"
  "eventually_runs demo_shell c () = (Inr (), ())" "tcall (os_MkdirAll demo_shell p m) () = (Inr (), ())"
  "tcall (os_WriteFile demo_shell p bs m) () = (Inr (), ())" "copy_file demo_shell from_dir to_dir name () = (Inr (), ())"
  by (simp_all add: demo_shell_def runCommand_def net_output_def eventually_runs_def tcall_def copy_file_def tbind_def tread_def
      numeral_eq_Suc)

lemma demo_commands:
  "net_run demo_shell f name args () = (Inr (), ())" "runPeer demo_shell f args () = (Inr (), ())"
  "compose demo_shell f args () = (Inr (), ())" "peerOutput demo_shell f args () = (Inr ''Blockchain info: 5'', ())"
  by (simp_all add: net_run_def runPeer_def compose_def peerOutput_def demo_runs)

lemma demo_block: "reported_block demo_shell ''Blockchain info: 5'' = Inr ''4''"
  by code_simp

lemma demo_capture:
  "capture demo_shell f [''ch''] () = (Inr [(''ch'', snapshot_dir f ''ch'' ''4'')], ())"
proof -
  have join: "joinChannel demo_shell f c () = (Inr (), ())" for c
    by (simp add: joinChannel_def tbind_def demo_commands demo_runs)
  have pkg: "package_chaincode demo_shell f c () = (Inr (c, TrimSpace ''Blockchain info: 5''), ())" for c
    by (simp add: package_chaincode_def Let_def tbind_def tret_def demo_commands)
  have chan: "deploy_channel demo_shell f ccs c () = (Inr (), ())" for ccs c
    by (simp add: deploy_channel_def approve_and_commit_def tbind_def tret_def demo_commands
        tfor_demo [where g = "\<lambda>_. ()"])
  have "deploy demo_shell f cs () = (Inr (), ())" for cs
    by (simp add: deploy_def Let_def tbind_def tret_def demo_runs pkg chan tfor_demo [where g = "\<lambda>_. ()"]
        tfor_demo [where g = "\<lambda>c. (c, TrimSpace ''Blockchain info: 5'')"])
  moreover have "net_snapshot demo_shell f c () = (Inr (snapshot_dir f c ''4''), ())" for c
    by (simp add: net_snapshot_def Let_def tbind_def tret_def tread_def demo_commands demo_runs demo_block)
  ultimately show ?thesis
    by (simp add: capture_def capture_channel_def tbind_def tret_def demo_runs demo_commands join tfor_demo [where g = "\<lambda>_. ()"])
qed

definition demo_network :: fabric_network where
  "demo_network = \<lparr>net_root = ''/t'', net_home = ''/r/.cache/fabric/3.1.5'', net_samples = ''/r/.cache/fabric-samples/c1'',
     net_version = Version, net_stateDB = ''CouchDB''\<rparr>"

lemma demo_built: "newFabricNetwork demo_shell ''/t'' ''/u'' ''/r'' ''CouchDB'' () = (Inr demo_network, ())"
proof -
  have release: "ensureFabricRelease demo_shell t d p () = (Inr (), ())" for t d p
    by (simp add: ensureFabricRelease_def demo_shell_def)
  have "TrimSpace ''c1'' = ''c1''" by code_simp
  moreover have "os_ReadFile demo_shell p () = Inr (bytes_of_string ''c1'')"
    "Output demo_shell c () = (([], Some (Ext ''exit status 128'')), ())" "Getenv demo_shell k = []"
    "Caller demo_shell = Some ''/src/integrationtest.go''" for p c k
    by (simp_all add: demo_shell_def)
  moreover have "filepath_Joins [''/r'', ''.cache'', ''fabric'', Version] = ''/r/.cache/fabric/3.1.5''"
    "filepath_Joins [''/r'', ''.cache'', ''fabric-samples'', ''c1''] = ''/r/.cache/fabric-samples/c1''"
    by code_simp+
  moreover have "tfor (net_output demo_shell) cs () = (Inr (map (\<lambda>_. ''Blockchain info: 5'') cs), ())" for cs
    by (rule tfor_demo) (rule demo_runs)
  moreover have "tfor (copy_file demo_shell a b) ns () = (Inr (map (\<lambda>_. ()) ns), ())" for a b ns
    by (rule tfor_demo) (rule demo_runs)
  ultimately show ?thesis
    by (simp add: newFabricNetwork_def ensureFabricSamples_def Let_def tbind_def tret_def tread_def release
        demo_runs demo_commands demo_network_def)
qed

lemma demo_sources:
  "CaptureSources demo_shell ''/t'' ''/u'' ''/r'' ''CouchDB'' [''ch''] () =
     (Inr [(''ch'', source_at demo_network ''ch'' (snapshot_dir demo_network ''ch'' ''4''))], ())"
  by (simp add: CaptureSources_def tbind_def tret_def demo_built demo_capture)

subsection \<open>The property\<close>



end
