(* ===== verification/Spec2Isabelle.thy ===== *)
theory Spec2Isabelle
  imports CodecProps SnapshotProps MappingProps PolicyProps ConfigProps PrepareProps LiveProps HistoryProps CliProps
    ArchiveProps HarnessProps
begin

text \<open>
  A verification development for \<^bold>\<open>fabric-x-migrate\<close>, a Go command that imports Hyperledger Fabric
  channel snapshots into the database of a Fabric-X committer.

  \<^bold>\<open>The program.\<close> \<^verbatim>\<open>internal/cmd/main.go\<close> reads the flags, opens the database and calls
  \<^verbatim>\<open>Import\<close> of \<^verbatim>\<open>internal/migrate/import.go\<close>. It reads the mapping file
  (\<^verbatim>\<open>internal/migrate/inputs.go\<close>), the target configuration and, for each channel, the snapshot
  directory (\<^verbatim>\<open>internal/fabricsnapshot\<close>) and the source configuration; it computes how many records
  every target namespace must receive, prepares the target configuration and the endorsement policy of
  every target namespace (\<^verbatim>\<open>internal/migrate/config.go\<close>), walks all records once without writing, and
  then, in one serializable transaction, creates the tables, ensures the configuration and policy
  entries, copies the records in batches, checks the counts, checks the files again and commits.

  \<^bold>\<open>The theories.\<close> Every theory with operations is followed by theories that prove things about it.

  \<^item> \<open>Prelude\<close>: \<open>bytes\<close>, \<open>uint64\<close>, byte order; the result type \<open>'a res\<close> with \<open>rbind\<close>, \<open>rmap\<close>, \<open>rfold\<close>.
    An error is a value that keeps what the code can inspect of it (\<open>go_error\<close>), so every early return is a branch.
  \<^item> \<open>GoLib\<close>: what the code uses of Go's standard library: \<^verbatim>\<open>strings\<close>, \<^verbatim>\<open>filepath\<close>, \<^verbatim>\<open>hex\<close>,
    \<^verbatim>\<open>base64\<close>, sorted keys and maps (association lists), JSON framing.
  \<^item> \<open>Varint\<close>, \<open>Codec\<close>, \<open>CodecProps\<close>: \<^verbatim>\<open>fabricsnapshot/snapshot.go\<close>: variable-length integers,
    sized fields, namespaces, record messages, heights; round trips against the writers of the fixtures
    over the locales \<open>offset_codec\<close> and \<open>codec_pair\<close>.
  \<^item> \<open>Files\<close>: \<^verbatim>\<open>openRegular\<close>, \<^verbatim>\<open>readRegular\<close>, \<^verbatim>\<open>hash\<close>, \<^verbatim>\<open>decodeJSON\<close>, \<^verbatim>\<open>hashRegularFile\<close>,
    \<^verbatim>\<open>readInput\<close>, \<^verbatim>\<open>revalidate\<close>. An \<open>fs\<close> is what the operating system's calls return.
  \<^item> \<open>Stream\<close>, \<open>SnapshotProps\<close>: \<^verbatim>\<open>fabricsnapshot/stream.go\<close>: \<open>OpenStream\<close>, the two walks, \<open>Revalidate\<close>.
    A walk is proved to be a parse of the file followed by the callback on each record, and the parse
    is what everything later reasons about.
  \<^item> \<open>Mappings\<close>, \<open>MappingProps\<close>: \<^verbatim>\<open>migrate/inputs.go\<close>: validation, order, lookup, expected counts.
  \<^item> \<open>Policy\<close>, \<open>PolicyRules\<close>, \<open>PolicyOrder\<close>, \<open>PolicySem\<close>, \<open>PolicyProps\<close>: the policy conversion of
    \<^verbatim>\<open>migrate/config.go\<close>. \<open>PolicySem\<close> states the meaning of signature and implicit-meta policies as the
    locales \<open>signature_evaluator\<close> and \<open>policy_evaluator\<close>, interpreted on reference evaluators; the properties
    are that the conversion keeps what a policy accepts and does not depend on Go's map order.
  \<^item> \<open>ChannelConfig\<close>, \<open>ConfigProps\<close>: decoding and encoding configurations, reuse of source MSPs.
  \<^item> \<open>Prepare\<close>, \<open>Ledger\<close>, \<open>Agreement\<close>, \<open>PrepareProps\<close>: committed chaincode definitions and
    \<^verbatim>\<open>preparePolicies\<close>. \<open>Ledger\<close> specifies what a ledger has committed; \<open>Agreement\<close> is the theory of
    maps that are filled by requests which must agree, in whatever order they come.
  \<^item> \<open>Database\<close>, \<open>ReferenceDB\<close>: the statements of the importer and, as the locales \<open>sql_tables\<close> and
    \<open>sql_database\<close>, what PostgreSQL documents of them; an engine over association lists interprets them.
  \<^item> \<open>Importer\<close>, \<open>ImportSteps\<close>, \<open>ImportEffect\<close>, \<open>ImportProps\<close>: \<^verbatim>\<open>migrate/import.go\<close>. \<open>imported\<close> says what a
    complete import has done to the tables; \<open>import_env\<close> adds the committer's rules on names.
  \<^item> \<open>Counting\<close>, \<open>ImportLive\<close>, \<open>ImportAgree\<close>, \<open>LiveProps\<close>: that the counts of the metadata files are the counts of
    the copied records; that on a database that is up (\<open>sql_running\<close>) every step succeeds under the
    documented conditions, so that the conditions of a successful import are exact; that independent runs prepare the
    same plan; that a walk is bounded by its file.
  \<^item> \<open>History\<close>, \<open>HistoryProps\<close>: sequences of imports into one database, as serializable transactions allow them,
    and what every import keeps of the ones before it.
  \<^item> \<open>Cli\<close>, \<open>CliProps\<close>: \<^verbatim>\<open>internal/cmd/main.go\<close> and the exit status of \<^verbatim>\<open>cmd/fabric-x-migrate/main.go\<close>.
  \<^item> \<open>Paths\<close>, \<open>Archive\<close>, \<open>ArchiveProps\<close>: the release installer of \<^verbatim>\<open>internal/integrationtest\<close>. \<open>Paths\<close> relates
    cleaned paths to lists of elements; the locales \<open>local_calls\<close> and \<open>file_calls\<close> say which paths a call of the
    operating system may change, and a file tree interprets them; an extraction is confined to its directory.
  \<^item> \<open>Harness\<close>, \<open>HarnessProps\<close>: the Fabric network that \<^verbatim>\<open>internal/integrationtest\<close> builds to capture snapshots, and
    \<^verbatim>\<open>integration.go\<close>. A \<open>script\<close> relates each part to the list of steps it makes when it succeeds; the
    scripts of the parts compose to that of a whole capture.
  \<^item> \<open>Example\<close>: a small migration with every parameter executable, on which the witnesses evaluate.

  \<^bold>\<open>State.\<close> The code's state is passed explicitly: a reader is the rest of its bytes and the error that ends
  them, a callback of a walk threads its state, the transaction is a value of an abstract type \<open>'tx\<close> that
  each statement turns into the next, and the database is a value of type \<open>'db\<close>. The files may change while
  the program runs, so each phase of an import (\<open>phases\<close>) reads an \<open>fs\<close> of its own.

  \<^bold>\<open>Parameters.\<close> Code that is not part of the repository is a function the model takes: SHA-256, JSON values,
  the protobuf wire format, Fabric's policy objects and configuration bundles, the committer's namespace
  rules and policy verifier, pgx and the database engine with the committer's schema (the text of
  \<^verbatim>\<open>system.sql\<close> included). What a theorem needs of them is a hypothesis in its statement: the laws of
  \<open>import_env\<close> (the SQL laws and that valid names have tables of their own), the evaluators' laws, that the
  wire format decodes what it encoded, and \<open>no_collision\<close> of the digest on the files at hand.

  \<^bold>\<open>Bounds.\<close> A \<^verbatim>\<open>uint64\<close> is a 64-bit word and wraps; Go's \<^verbatim>\<open>int\<close> as a length or offset is a \<open>nat\<close>, whose guards
  the code writes out are kept. No fuel is used: every loop of the program is bounded by a list or a count
  and is a total function here. A batch has at most 512 rows. The harness polls a command at most
  \<open>polls\<close> times, a parameter.

  \<^bold>\<open>Not modelled.\<close> The test functions themselves (\<^verbatim>\<open>_test.go\<close>) and what Docker, git and Fabric's
  command-line tools do when the integration tests run them; the texts of messages beyond the constants that tell errors apart; usage output and the
  \<^verbatim>\<open>String\<close> method of the flag type, which only the usage output calls; JSON encoding of the report; clients of
  the database other than importers: an importer runs in a serializable transaction, so it sees the database
  as if it were alone (\<open>sql_database\<close>), and several of them have the effect of a sequence (\<open>history\<close>).
\<close>

end
